(* ===== verification/Fs_Prelude.thy ===== *)
theory Fs_Prelude
  imports Main "HOL-Library.Multiset" "HOL-Library.Word" "HOL-Library.Signed_Division"
begin

text \<open>
  What every component of the development shares.

  A C++ operation either returns, or it ends in one of three faults: a \<open>TDF_BASE_CHECK\<close> that
  fails (it logs at level FATAL and aborts), undefined behaviour of the language, or a loop that
  never exits.  \<open>'a res\<close> is the result type that carries this: \<open>Inl f\<close> is a fault, \<open>Inr a\<close> a
  normal return.  \<open>bind_res\<close> sequences two such operations.

  Signed 64 and 32 bit integers are integers with an explicit range check, because signed
  overflow is undefined behaviour in C++; unsigned integers are words, whose arithmetic wraps.
\<close>

section \<open>Faults and results\<close>

datatype ub =
    SignedOverflow   \<comment> \<open>a signed result outside its type\<close>
  | DivByZero        \<comment> \<open>integer division or remainder by zero\<close>
  | OutOfRange       \<comment> \<open>an array or vector index outside the object\<close>
  | BadIterator      \<comment> \<open>an end, foreign or invalidated iterator is used\<close>
  | EmptyAccess      \<comment> \<open>front, back, top or pop on an empty container\<close>
  | NullDeref        \<comment> \<open>a null pointer is dereferenced\<close>
  | BadMember        \<comment> \<open>a member of a union is used that is not the active one\<close>

datatype fault =
    CheckFailed      \<comment> \<open>TDF\_BASE\_CHECK: LogMessage at FATAL, then abort()\<close>
  | UB ub
  | NoReturn         \<comment> \<open>the operation never returns\<close>

type_synonym 'a res = "fault + 'a"

definition bind_res :: "'a res \<Rightarrow> ('a \<Rightarrow> 'b res) \<Rightarrow> 'b res" where
  "bind_res m f = (case m of Inl e \<Rightarrow> Inl e | Inr a \<Rightarrow> f a)"

lemma bind_res_simps [simp]:
  "bind_res (Inl e) f = Inl e"
  "bind_res (Inr a) f = f a"
  by (simp_all add: bind_res_def)

lemma bind_res_Inr_iff: "bind_res m f = Inr b \<longleftrightarrow> (\<exists>a. m = Inr a \<and> f a = Inr b)"
  by (cases m) auto

lemma bind_res_InrE [elim!]:
  assumes "bind_res m f = Inr b"
  obtains a where "m = Inr a" and "f a = Inr b"
  using assms by (auto simp: bind_res_Inr_iff)

lemma bind_res_assoc: "bind_res (bind_res m f) g = bind_res m (\<lambda>a. bind_res (f a) g)"
  by (cases m) auto

lemma bind_res_cong [fundef_cong]:
  "m = m' \<Longrightarrow> (\<And>a. m' = Inr a \<Longrightarrow> f a = g a) \<Longrightarrow> bind_res m f = bind_res m' g"
  by (cases m') auto

text \<open>\<open>TDF_BASE_CHECK(c)\<close> before the rest of an operation.\<close>

definition check :: "bool \<Rightarrow> 'a res \<Rightarrow> 'a res" where
  "check c m = (if c then m else Inl CheckFailed)"

lemma check_simps [simp]:
  "check True m = m"
  "check False m = Inl CheckFailed"
  by (simp_all add: check_def)

lemma check_Inr_iff: "check c m = Inr a \<longleftrightarrow> c \<and> m = Inr a"
  by (simp add: check_def)

text \<open>\<open>returns m\<close>: the operation comes back to its caller.\<close>

definition returns :: "'a res \<Rightarrow> bool" where
  "returns m \<longleftrightarrow> (\<exists>a. m = Inr a)"

lemma returns_simps [simp]: "returns (Inr a)" "\<not> returns (Inl e)"
  by (simp_all add: returns_def)

section \<open>Machine integers\<close>

definition in_i64 :: "int \<Rightarrow> bool" where
  "in_i64 z \<longleftrightarrow> - (2 ^ 63) \<le> z \<and> z < 2 ^ 63"

definition in_i32 :: "int \<Rightarrow> bool" where
  "in_i32 z \<longleftrightarrow> - (2 ^ 31) \<le> z \<and> z < 2 ^ 31"

text \<open>The value of a signed 64 or 32 bit operation whose exact result is \<open>z\<close>.\<close>

definition i64 :: "int \<Rightarrow> int res" where
  "i64 z = (if in_i64 z then Inr z else Inl (UB SignedOverflow))"

definition i32 :: "int \<Rightarrow> int res" where
  "i32 z = (if in_i32 z then Inr z else Inl (UB SignedOverflow))"

lemma i64_Inr_iff [simp]: "i64 z = Inr y \<longleftrightarrow> in_i64 z \<and> y = z"
  by (auto simp: i64_def)

lemma i32_Inr_iff [simp]: "i32 z = Inr y \<longleftrightarrow> in_i32 z \<and> y = z"
  by (auto simp: i32_def)

lemma i64_in [simp]: "in_i64 z \<Longrightarrow> i64 z = Inr z"
  by simp

lemma i32_in [simp]: "in_i32 z \<Longrightarrow> i32 z = Inr z"
  by simp

lemma in_i64_between: "in_i64 a \<Longrightarrow> in_i64 b \<Longrightarrow> a \<le> z \<Longrightarrow> z \<le> b \<Longrightarrow> in_i64 z"
  by (simp add: in_i64_def)

lemma in_i64_abs_le: "in_i64 a \<Longrightarrow> in_i64 0" "in_i64 a \<Longrightarrow> 0 \<le> z \<Longrightarrow> z \<le> a \<Longrightarrow> in_i64 z"
  "in_i64 a \<Longrightarrow> a \<le> z \<Longrightarrow> z \<le> 0 \<Longrightarrow> in_i64 z"
  by (simp_all add: in_i64_def)

type_synonym u8 = "8 word"
type_synonym u16 = "16 word"
type_synonym u32 = "32 word"
type_synonym u64 = "64 word"

text \<open>C++ division and remainder truncate towards zero and are undefined for a zero divisor.\<close>

definition i64_div :: "int \<Rightarrow> int \<Rightarrow> int res" where
  "i64_div a b = (if b = 0 then Inl (UB DivByZero) else i64 (a sdiv b))"

text \<open>
  The remainder is undefined where the quotient overflows as well (\<open>INT64_MIN % -1\<close>).
\<close>

definition i64_mod :: "int \<Rightarrow> int \<Rightarrow> int res" where
  "i64_mod a b = (if b = 0 then Inl (UB DivByZero)
     else bind_res (i64 (a sdiv b)) (\<lambda>_. i64 (a smod b)))"

lemma sdiv_pos: "0 \<le> (a::int) \<Longrightarrow> 0 < b \<Longrightarrow> a sdiv b = a div b"
  by (cases "a = 0") (simp_all add: signed_divide_int_def)

lemma sdiv_neg: "(a::int) < 0 \<Longrightarrow> 0 < b \<Longrightarrow> a sdiv b = - ((- a) div b)"
  by (simp add: signed_divide_int_def)

text \<open>Truncating division by a positive constant never leaves the range between 0 and \<open>a\<close>.\<close>

lemma div_between_int:
  assumes "0 \<le> (a::int)" and "0 < b"
  shows "0 \<le> a div b \<and> a div b \<le> a"
proof
  show "0 \<le> a div b" using assms by (simp add: pos_imp_zdiv_nonneg_iff)
  show "a div b \<le> a"
  proof (cases "a = 0 \<or> b = 1")
    case True
    then show ?thesis using assms by auto
  next
    case False
    then show ?thesis using assms int_div_less_self [of a b] by simp
  qed
qed

lemma sdiv_between:
  assumes "0 < (b::int)"
  shows "(0 \<le> a \<longrightarrow> 0 \<le> a sdiv b \<and> a sdiv b \<le> a) \<and> (a < 0 \<longrightarrow> a \<le> a sdiv b \<and> a sdiv b \<le> 0)"
  using assms div_between_int [of a b] div_between_int [of "- a" b]
  by (cases "0 \<le> a") (simp_all add: sdiv_pos sdiv_neg)

lemma i64_div_pos [simp]:
  assumes "in_i64 a" and "0 < b"
  shows "i64_div a b = Inr (a sdiv b)"
proof -
  have "in_i64 (a sdiv b)"
    using sdiv_between[OF assms(2), of a] assms(1) by (cases "0 \<le> a") (auto simp: in_i64_def)
  with assms show ?thesis by (simp add: i64_div_def)
qed

text \<open>Dividing in two truncating steps is dividing once by the product.\<close>

lemma sdiv_sdiv:
  assumes "0 < (b::int)" and "0 < c"
  shows "(a sdiv b) sdiv c = a sdiv (b * c)"
proof (cases "0 \<le> a")
  case True
  with assms show ?thesis
    by (simp add: sdiv_pos pos_imp_zdiv_nonneg_iff zdiv_zmult2_eq)
next
  case False
  then have n: "0 < - a" by simp
  have q: "0 \<le> (- a) div b" using n assms by (simp add: pos_imp_zdiv_nonneg_iff)
  have "(a sdiv b) sdiv c = - (((- a) div b) div c)"
  proof (cases "(- a) div b = 0")
    case True
    then show ?thesis using n assms by (simp add: sdiv_neg)
  next
    case False
    with q have "- ((- a) div b) < 0" by simp
    with n assms show ?thesis by (simp only: sdiv_neg) (simp add: sdiv_neg)
  qed
  also have "\<dots> = a sdiv (b * c)"
    using n assms by (simp add: sdiv_neg zdiv_zmult2_eq)
  finally show ?thesis .
qed

lemma sdiv_smod_eq: "(b::int) * (a sdiv b) + a smod b = a"
  by (rule mult_sdiv_smod_eq)

section \<open>Lists\<close>

text \<open>\<open>first_index p xs\<close>: the position of the first element with \<open>p\<close>, as a scan finds it.\<close>

fun remove_first :: "('a \<Rightarrow> bool) \<Rightarrow> 'a list \<Rightarrow> 'a list" where
  "remove_first p [] = []"
| "remove_first p (x # xs) = (if p x then xs else x # remove_first p xs)"

lemma remove_first_absent: "(\<forall>x \<in> set xs. \<not> p x) \<Longrightarrow> remove_first p xs = xs"
  by (induction xs) auto

lemma mset_remove_first:
  "\<exists>x \<in> set xs. p x \<Longrightarrow> \<exists>x. p x \<and> x \<in> set xs \<and> mset xs = add_mset x (mset (remove_first p xs))"
  by (induction xs) auto

lemma set_remove_first_subset: "set (remove_first p xs) \<subseteq> set xs"
  by (induction xs) auto

lemma length_remove_first:
  "\<exists>x \<in> set xs. p x \<Longrightarrow> Suc (length (remove_first p xs)) = length xs"
  by (induction xs) auto

end
