(* ===== verification/Fs_Time.thy ===== *)
theory Fs_Time
  imports Fs_Prelude
begin

text \<open>
  \<open>include/footstone/time_delta.h\<close> and \<open>include/footstone/time_point.h\<close>: a signed 64 bit count of
  nanoseconds, as a duration and as a point of the steady clock.  Every operation of the classes
  that stays in integers is here; the conversions to and from \<open>double\<close> are in \<open>Fs_Double\<close>.
  \<open>TimePoint::Now()\<close> reads the steady clock, which is an input: a \<open>clock\<close> gives the value of each
  reading, and the state of a component that reads it counts its readings.
\<close>

section \<open>TimeDelta\<close>

datatype time_delta = TimeDelta (delta: int)

definition td_default :: time_delta where
  "td_default = TimeDelta 0"

definition td_Zero :: time_delta where
  "td_Zero = td_default"

definition td_Min :: time_delta where
  "td_Min = TimeDelta (- (2 ^ 63))"

definition td_Max :: time_delta where
  "td_Max = TimeDelta (2 ^ 63 - 1)"

definition td_FromNanoseconds :: "int \<Rightarrow> time_delta" where
  "td_FromNanoseconds nanos = TimeDelta nanos"

definition td_FromMicroseconds :: "int \<Rightarrow> time_delta res" where
  "td_FromMicroseconds micros = bind_res (i64 (micros * 1000)) (\<lambda>n. Inr (td_FromNanoseconds n))"

definition td_FromMilliseconds :: "int \<Rightarrow> time_delta res" where
  "td_FromMilliseconds millis = bind_res (i64 (millis * 1000)) td_FromMicroseconds"

definition td_FromSeconds :: "int \<Rightarrow> time_delta res" where
  "td_FromSeconds seconds = bind_res (i64 (seconds * 1000)) td_FromMilliseconds"

definition td_ToNanoseconds :: "time_delta \<Rightarrow> int" where
  "td_ToNanoseconds d = delta d"

text \<open>
  The divisor of the unit conversions is the constant 1000, so the quotient always exists.
\<close>

definition td_ToMicroseconds :: "time_delta \<Rightarrow> int" where
  "td_ToMicroseconds d = td_ToNanoseconds d sdiv 1000"

definition td_ToMilliseconds :: "time_delta \<Rightarrow> int" where
  "td_ToMilliseconds d = td_ToMicroseconds d sdiv 1000"

definition td_ToSeconds :: "time_delta \<Rightarrow> int" where
  "td_ToSeconds d = td_ToMilliseconds d sdiv 1000"

definition td_minus :: "time_delta \<Rightarrow> time_delta \<Rightarrow> time_delta res" where
  "td_minus a b = bind_res (i64 (delta a - delta b)) (\<lambda>n. Inr (td_FromNanoseconds n))"

definition td_plus :: "time_delta \<Rightarrow> time_delta \<Rightarrow> time_delta res" where
  "td_plus a b = bind_res (i64 (delta a + delta b)) (\<lambda>n. Inr (td_FromNanoseconds n))"

definition td_div_int :: "time_delta \<Rightarrow> int \<Rightarrow> time_delta res" where
  "td_div_int a divisor = bind_res (i64_div (delta a) divisor) (\<lambda>n. Inr (td_FromNanoseconds n))"

definition td_div :: "time_delta \<Rightarrow> time_delta \<Rightarrow> int res" where
  "td_div a b = i64_div (delta a) (delta b)"

definition td_times :: "time_delta \<Rightarrow> int \<Rightarrow> time_delta res" where
  "td_times a multiplier = bind_res (i64 (delta a * multiplier)) (\<lambda>n. Inr (td_FromNanoseconds n))"

definition td_mod :: "time_delta \<Rightarrow> time_delta \<Rightarrow> time_delta res" where
  "td_mod a b = bind_res (i64_mod (delta a) (delta b)) (\<lambda>n. Inr (td_FromNanoseconds n))"

text \<open>The six comparison operators, and the order of the type that they are.\<close>

definition td_eq :: "time_delta \<Rightarrow> time_delta \<Rightarrow> bool" where
  "td_eq a b \<longleftrightarrow> delta a = delta b"

definition td_neq :: "time_delta \<Rightarrow> time_delta \<Rightarrow> bool" where
  "td_neq a b \<longleftrightarrow> delta a \<noteq> delta b"

definition td_less :: "time_delta \<Rightarrow> time_delta \<Rightarrow> bool" where
  "td_less a b \<longleftrightarrow> delta a < delta b"

definition td_less_eq :: "time_delta \<Rightarrow> time_delta \<Rightarrow> bool" where
  "td_less_eq a b \<longleftrightarrow> delta a \<le> delta b"

definition td_greater :: "time_delta \<Rightarrow> time_delta \<Rightarrow> bool" where
  "td_greater a b \<longleftrightarrow> delta a > delta b"

definition td_greater_eq :: "time_delta \<Rightarrow> time_delta \<Rightarrow> bool" where
  "td_greater_eq a b \<longleftrightarrow> delta a \<ge> delta b"

instantiation time_delta :: linorder
begin

definition less_eq_time_delta :: "time_delta \<Rightarrow> time_delta \<Rightarrow> bool" where
  "less_eq_time_delta a b \<longleftrightarrow> td_less_eq a b"

definition less_time_delta :: "time_delta \<Rightarrow> time_delta \<Rightarrow> bool" where
  "less_time_delta a b \<longleftrightarrow> td_less a b"

instance
  by intro_classes (auto simp: less_eq_time_delta_def less_time_delta_def td_less_eq_def td_less_def intro: time_delta.expand)

end

lemma td_order_defs:
  "a \<le> b \<longleftrightarrow> delta a \<le> delta b"
  "a < b \<longleftrightarrow> delta a < delta b"
  by (simp_all add: less_eq_time_delta_def less_time_delta_def td_less_eq_def td_less_def)

text \<open>A POSIX \<open>timespec\<close>: whole seconds and the nanoseconds left over, both signed.\<close>

record timespec =
  tv_sec :: int
  tv_nsec :: int

definition td_FromTimespec :: "timespec \<Rightarrow> time_delta res" where
  "td_FromTimespec ts =
     bind_res (td_FromSeconds (tv_sec ts)) (\<lambda>s. td_plus s (td_FromNanoseconds (tv_nsec ts)))"

text \<open>
  \<open>time_t\<close> is a signed type of the platform, with \<open>w\<close> bits, and the cast to it keeps the low bits.  The nanoseconds
  fit the \<open>long\<close> they are stored in, which has at least 32 bits.
\<close>

definition time_t_cast :: "nat \<Rightarrow> int \<Rightarrow> int" where
  "time_t_cast w z = signed_take_bit (w - 1) z"

definition td_ToTimespec :: "nat \<Rightarrow> time_delta \<Rightarrow> timespec" where
  "td_ToTimespec w d = \<lparr>tv_sec = time_t_cast w (td_ToSeconds d), tv_nsec = delta d smod 1000000000\<rparr>"

section \<open>TimePoint\<close>

datatype time_point = TimePoint (ticks: int)

type_synonym clock = "nat \<Rightarrow> time_point"

definition tp_default :: time_point where
  "tp_default = TimePoint 0"

definition tp_Min :: time_point where
  "tp_Min = TimePoint (- (2 ^ 63))"

definition tp_Max :: time_point where
  "tp_Max = TimePoint (2 ^ 63 - 1)"

definition tp_FromEpochDelta :: "time_delta \<Rightarrow> time_point" where
  "tp_FromEpochDelta d = TimePoint (td_ToNanoseconds d)"

definition tp_ToEpochDelta :: "time_point \<Rightarrow> time_delta" where
  "tp_ToEpochDelta p = td_FromNanoseconds (ticks p)"

definition tp_diff :: "time_point \<Rightarrow> time_point \<Rightarrow> time_delta res" where
  "tp_diff a b = bind_res (i64 (ticks a - ticks b)) (\<lambda>n. Inr (td_FromNanoseconds n))"

definition tp_plus :: "time_point \<Rightarrow> time_delta \<Rightarrow> time_point res" where
  "tp_plus a d = bind_res (i64 (ticks a + td_ToNanoseconds d)) (\<lambda>n. Inr (TimePoint n))"

definition tp_minus :: "time_point \<Rightarrow> time_delta \<Rightarrow> time_point res" where
  "tp_minus a d = bind_res (i64 (ticks a - td_ToNanoseconds d)) (\<lambda>n. Inr (TimePoint n))"

definition tp_eq :: "time_point \<Rightarrow> time_point \<Rightarrow> bool" where
  "tp_eq a b \<longleftrightarrow> ticks a = ticks b"

definition tp_neq :: "time_point \<Rightarrow> time_point \<Rightarrow> bool" where
  "tp_neq a b \<longleftrightarrow> ticks a \<noteq> ticks b"

definition tp_less :: "time_point \<Rightarrow> time_point \<Rightarrow> bool" where
  "tp_less a b \<longleftrightarrow> ticks a < ticks b"

definition tp_less_eq :: "time_point \<Rightarrow> time_point \<Rightarrow> bool" where
  "tp_less_eq a b \<longleftrightarrow> ticks a \<le> ticks b"

definition tp_greater :: "time_point \<Rightarrow> time_point \<Rightarrow> bool" where
  "tp_greater a b \<longleftrightarrow> ticks a > ticks b"

definition tp_greater_eq :: "time_point \<Rightarrow> time_point \<Rightarrow> bool" where
  "tp_greater_eq a b \<longleftrightarrow> ticks a \<ge> ticks b"

instantiation time_point :: linorder
begin

definition less_eq_time_point :: "time_point \<Rightarrow> time_point \<Rightarrow> bool" where
  "less_eq_time_point a b \<longleftrightarrow> tp_less_eq a b"

definition less_time_point :: "time_point \<Rightarrow> time_point \<Rightarrow> bool" where
  "less_time_point a b \<longleftrightarrow> tp_less a b"

instance
  by intro_classes (auto simp: less_eq_time_point_def less_time_point_def tp_less_eq_def tp_less_def intro: time_point.expand)

end

lemma tp_order_defs:
  "a \<le> b \<longleftrightarrow> ticks a \<le> ticks b"
  "a < b \<longleftrightarrow> ticks a < ticks b"
  by (simp_all add: less_eq_time_point_def less_time_point_def tp_less_eq_def tp_less_def)

section \<open>Values that fit their type\<close>

text \<open>The objects the code can hold: their count is a value of \<open>int64_t\<close>.\<close>

definition td_ok :: "time_delta \<Rightarrow> bool" where
  "td_ok d \<longleftrightarrow> in_i64 (delta d)"

definition tp_ok :: "time_point \<Rightarrow> bool" where
  "tp_ok p \<longleftrightarrow> in_i64 (ticks p)"

lemmas td_const_defs = td_default_def td_Zero_def td_Min_def td_Max_def td_FromNanoseconds_def
  td_ToNanoseconds_def

lemma td_ok_consts [simp]: "td_ok td_Zero" "td_ok td_Max" "td_ok td_Min" "td_ok td_default"
  by (simp_all add: td_ok_def td_const_defs in_i64_def)

lemma td_op_ok:
  "td_plus a b = Inr d \<Longrightarrow> td_ok d"
  "td_minus a b = Inr d \<Longrightarrow> td_ok d"
  "td_times a n = Inr d \<Longrightarrow> td_ok d"
  "tp_diff p q = Inr d \<Longrightarrow> td_ok d"
  by (auto simp: td_plus_def td_minus_def td_times_def tp_diff_def td_ok_def td_FromNanoseconds_def)

lemma tp_op_ok:
  "tp_plus p d = Inr q \<Longrightarrow> tp_ok q"
  "tp_minus p d = Inr q \<Longrightarrow> tp_ok q"
  by (auto simp: tp_plus_def tp_minus_def tp_ok_def)

lemma td_Max_greatest: "td_ok d \<Longrightarrow> d \<le> td_Max"
  by (simp add: td_ok_def td_order_defs td_Max_def in_i64_def)

lemma tp_plus_Inr_iff: "tp_plus p d = Inr q \<longleftrightarrow> in_i64 (ticks p + delta d) \<and> q = TimePoint (ticks p + delta d)"
  by (auto simp: tp_plus_def td_ToNanoseconds_def bind_res_Inr_iff)

lemma tp_diff_Inr_iff: "tp_diff p q = Inr d \<longleftrightarrow> in_i64 (ticks p - ticks q) \<and> d = TimeDelta (ticks p - ticks q)"
  by (auto simp: tp_diff_def td_FromNanoseconds_def bind_res_Inr_iff)

lemma td_plus_Inr_iff: "td_plus a b = Inr d \<longleftrightarrow> in_i64 (delta a + delta b) \<and> d = TimeDelta (delta a + delta b)"
  by (auto simp: td_plus_def td_FromNanoseconds_def bind_res_Inr_iff)

text \<open>A deadline computed as \<open>now + delay\<close> lies \<open>delay\<close> after \<open>now\<close>.\<close>

lemma tp_plus_diff:
  assumes "tp_plus now d = Inr p" and "td_ok d"
  shows "tp_diff p now = Inr d"
  using assms by (cases d) (auto simp: tp_plus_Inr_iff tp_diff_Inr_iff td_ok_def)

section \<open>Units\<close>

lemma td_ToSeconds_eq: "td_ToSeconds d = delta d sdiv 1000000000"
  by (simp add: td_ToSeconds_def td_ToMilliseconds_def td_ToMicroseconds_def td_ToNanoseconds_def sdiv_sdiv)

lemma td_ToMilliseconds_eq: "td_ToMilliseconds d = delta d sdiv 1000000"
  by (simp add: td_ToMilliseconds_def td_ToMicroseconds_def td_ToNanoseconds_def sdiv_sdiv)

text \<open>
  The products of \<open>FromSeconds\<close> are taken one factor of 1000 at a time; none overflows exactly when
  the last one does not.
\<close>

lemma in_i64_scale:
  assumes "in_i64 (a * k)" and "1 \<le> k"
  shows "in_i64 (a::int)"
proof (cases "0 \<le> a")
  case True
  have "a * 1 \<le> a * k" by (rule mult_left_mono) (use assms True in simp_all)
  then show ?thesis using True assms(1) unfolding in_i64_def by linarith
next
  case False
  have "a * k \<le> a * 1" by (rule mult_left_mono_neg) (use assms False in simp_all)
  then show ?thesis using False assms(1) unfolding in_i64_def by linarith
qed

lemma td_FromMilliseconds_eq:
  "td_FromMilliseconds m =
     (if in_i64 (m * 1000000) then Inr (TimeDelta (m * 1000000)) else Inl (UB SignedOverflow))"
  using in_i64_scale [of "m * 1000" 1000]
  by (auto simp: mult.commute td_FromMilliseconds_def td_FromMicroseconds_def td_FromNanoseconds_def i64_def)

lemma td_FromSeconds_eq:
  "td_FromSeconds s =
     (if in_i64 (s * 1000000000) then Inr (TimeDelta (s * 1000000000)) else Inl (UB SignedOverflow))"
  using in_i64_scale [of "s * 1000" 1000000]
  by (auto simp: mult.commute td_FromSeconds_def td_FromMilliseconds_eq i64_def)

lemma sdiv_mult_cancel: "0 < b \<Longrightarrow> ((a::int) * b) sdiv b = a"
  using sdiv_neg [of "a * b" b]
  by (cases "0 \<le> a") (simp_all add: sdiv_pos mult_less_0_iff flip: mult_minus_left)

lemma td_ToMilliseconds_FromMilliseconds:
  assumes "td_FromMilliseconds m = Inr d"
  shows "td_ToMilliseconds d = m"
  using assms sdiv_mult_cancel [of 1000000 m]
  by (auto simp add: td_FromMilliseconds_eq td_ToMilliseconds_eq split: if_splits)

lemma td_ToSeconds_FromSeconds:
  assumes "td_FromSeconds s = Inr d"
  shows "td_ToSeconds d = s"
  using assms sdiv_mult_cancel [of 1000000000 s]
  by (auto simp add: td_FromSeconds_eq td_ToSeconds_eq split: if_splits)

text \<open>
  Seconds and nanoseconds of a \<open>timespec\<close> have the sign of the duration, so adding them back
  never leaves the range, not even at the two ends.
\<close>

lemma timespec_sec_in_range:
  assumes "in_i64 a"
  shows "in_i64 ((a sdiv 1000000000) * 1000000000)"
proof (cases "0 \<le> a")
  case True
  have m: "0 \<le> a smod 1000000000" using True by (simp add: smod_int_compares)
  have "0 \<le> a sdiv 1000000000" using sdiv_between [of 1000000000 a] True by simp
  then show ?thesis
    using assms m sdiv_smod_eq [of 1000000000 a] by (simp add: in_i64_def)
next
  case False
  have m: "a smod 1000000000 \<le> 0" using False by (simp add: smod_int_compares)
  have "a sdiv 1000000000 \<le> 0" using sdiv_between [of 1000000000 a] False by simp
  then show ?thesis
    using assms m sdiv_smod_eq [of 1000000000 a] by (simp add: in_i64_def)
qed

text \<open>The way back returns the duration exactly where its seconds survive the cast.\<close>

lemma td_FromTimespec_iff:
  "td_FromTimespec ts = Inr d \<longleftrightarrow> in_i64 (tv_sec ts * 1000000000) \<and> td_ok d
     \<and> delta d = tv_sec ts * 1000000000 + tv_nsec ts"
  by (auto simp: td_FromTimespec_def td_FromSeconds_eq td_plus_def td_FromNanoseconds_def td_ok_def bind_res_Inr_iff
      intro: time_delta.expand)

lemma td_FromTimespec_ToTimespec:
  assumes "td_ok d"
  shows "td_FromTimespec (td_ToTimespec w d) = Inr d \<longleftrightarrow> time_t_cast w (td_ToSeconds d) = td_ToSeconds d"
proof -
  have sum: "(delta d sdiv 1000000000) * 1000000000 + delta d smod 1000000000 = delta d"
    using sdiv_smod_eq [of 1000000000 "delta d"] by simp
  show ?thesis
    unfolding td_FromTimespec_iff td_ToTimespec_def td_ToSeconds_eq
    using assms timespec_sec_in_range [of "delta d"] sum by (auto simp: td_ok_def)
qed

lemma time_t_cast_eq: "0 < w \<Longrightarrow> time_t_cast w z = z \<longleftrightarrow> - (2 ^ (w - 1)) \<le> z \<and> z < 2 ^ (w - 1)"
  by (simp add: time_t_cast_def signed_take_bit_int_eq_self_iff)

lemma td_ToTimespec_normal:
  "0 \<le> delta d \<Longrightarrow> 0 \<le> tv_nsec (td_ToTimespec w d) \<and> tv_nsec (td_ToTimespec w d) < 1000000000"
  using sdiv_between [of 1000000000 "delta d"]
  by (simp add: td_ToTimespec_def td_ToSeconds_eq smod_int_compares)

text \<open>The whole seconds of a duration fit 64 bits.\<close>

lemma td_seconds_in_i64: "td_ok d \<Longrightarrow> in_i64 (td_ToSeconds d)"
  using timespec_sec_in_range [of "delta d"] by (auto simp: td_ToSeconds_eq td_ok_def in_i64_def)

end
