(* ===== verification/Fs_Task.thy ===== *)
theory Fs_Task
  imports Fs_Time
begin

text \<open>
  \<open>include/footstone/task.h\<close>, \<open>src/footstone/task.cc\<close>, \<open>include/footstone/idle_task.h\<close>,
  \<open>src/footstone/idle_task.cc\<close>: units of work with an identifier drawn from a global atomic
  counter.  A \<open>std::function\<close> is a value of \<open>exec_code\<close> or \<open>idle_code\<close>: either a closure of the
  client, known by a number, or one of the closures the library itself builds, with what it
  captures; an empty \<open>std::function\<close> is \<open>None\<close>.  What a closure does when it is called is a
  parameter \<open>exec\<close> of the operations that call it.
\<close>

section \<open>Data the library's closures capture\<close>

text \<open>A \<open>void *\<close>, where 0 is the null pointer, and \<open>Worker::WorkerKey\<close>.\<close>

type_synonym void_ptr = nat

record worker_key =
  is_used :: bool
  destruct :: "nat option"

definition default_key :: worker_key where
  "default_key = \<lparr>is_used = False, destruct = None\<rparr>"

definition kWorkerKeysMax :: nat where
  "kWorkerKeysMax = 32"

record idle_cb_param =
  did_time_out :: bool
  res_time :: time_delta

section \<open>IdleTask\<close>

text \<open>
  \<open>TimerIdle i\<close> is the closure of \<open>IdleTimer::Start\<close>: it holds a weak pointer to the idle task
  object \<open>i\<close> the timer owns.
\<close>

datatype idle_code = UserIdle nat | TimerIdle nat

record idle_task =
  idle_id :: u32
  idle_unit :: "idle_code option"

text \<open>The constructors; the counter \<open>g_next_idle_task_id\<close> goes in and out.\<close>

definition IdleTask_default :: "u32 \<Rightarrow> idle_task \<times> u32" where
  "IdleTask_default counter = (\<lparr>idle_id = counter, idle_unit = None\<rparr>, counter + 1)"

definition IdleTask_new :: "u32 \<Rightarrow> idle_code option \<Rightarrow> idle_task \<times> u32" where
  "IdleTask_new counter unit = (\<lparr>idle_id = counter, idle_unit = unit\<rparr>, counter + 1)"

definition IdleTask_GetId :: "idle_task \<Rightarrow> u32" where
  "IdleTask_GetId t = idle_id t"

definition IdleTask_GetUnit :: "idle_task \<Rightarrow> idle_code option" where
  "IdleTask_GetUnit t = idle_unit t"

definition IdleTask_SetUnit :: "idle_task \<Rightarrow> idle_code option \<Rightarrow> idle_task" where
  "IdleTask_SetUnit t unit = t\<lparr>idle_unit := unit\<rparr>"

definition IdleTask_Run ::
    "(idle_code \<Rightarrow> idle_cb_param \<Rightarrow> 's \<Rightarrow> 's res) \<Rightarrow> idle_task \<Rightarrow> idle_cb_param \<Rightarrow> 's \<Rightarrow> 's res" where
  "IdleTask_Run exec t param s = (case idle_unit t of Some u \<Rightarrow> exec u param s | None \<Rightarrow> Inr s)"

section \<open>Task\<close>

text \<open>
  The closures a \<open>Task\<close> can hold: one of the client; the wrapper of an idle task that
  \<open>Worker::GetNextTask\<close> builds; the two closures of \<open>MoveTaskRunnerSpecificNoLock\<close>, the outer one
  with the runner's id and the two workers, the inner one with the worker it installs into and the
  arrays that were taken; and the closure of \<open>BaseTimer::ScheduleNewTask\<close>, with its timer.
\<close>

datatype exec_code =
    UserCode nat
  | RunIdle idle_task idle_cb_param
  | TakeSpecific int nat nat
  | InstallSpecific int nat "worker_key list" "void_ptr list"
  | TimerInvoke nat

record task =
  task_id :: u32
  task_unit :: "exec_code option"

definition Task_new :: "u32 \<Rightarrow> exec_code option \<Rightarrow> task \<times> u32" where
  "Task_new counter unit = (\<lparr>task_id = counter, task_unit = unit\<rparr>, counter + 1)"

definition Task_default :: "u32 \<Rightarrow> task \<times> u32" where
  "Task_default counter = Task_new counter None"

definition Task_GetId :: "task \<Rightarrow> u32" where
  "Task_GetId t = task_id t"

definition Task_SetExecUnit :: "task \<Rightarrow> exec_code option \<Rightarrow> task" where
  "Task_SetExecUnit t unit = t\<lparr>task_unit := unit\<rparr>"

definition Task_Run :: "(exec_code \<Rightarrow> 's \<Rightarrow> 's res) \<Rightarrow> task \<Rightarrow> 's \<Rightarrow> 's res" where
  "Task_Run exec t s = (case task_unit t of Some u \<Rightarrow> exec u s | None \<Rightarrow> Inr s)"

text \<open>\<open>n\<close> tasks constructed one after the other draw the ids \<open>counter\<close>, \<open>counter + 1\<close>, and so on.\<close>

fun new_tasks :: "u32 \<Rightarrow> exec_code option list \<Rightarrow> task list \<times> u32" where
  "new_tasks counter [] = ([], counter)"
| "new_tasks counter (u # us) =
     (let (t, c1) = Task_new counter u; (ts, c2) = new_tasks c1 us in (t # ts, c2))"

lemma new_tasks_ids:
  "map task_id (fst (new_tasks c us)) = map (\<lambda>i. c + word_of_nat i) [0..<length us]"
proof (induction us arbitrary: c)
  case Nil
  then show ?case by simp
next
  case (Cons u us)
  have "map (\<lambda>i. c + word_of_nat i) [0..<Suc (length us)]
          = c # map (\<lambda>i. c + word_of_nat (Suc i)) [0..<length us]"
    by (simp add: map_upt_Suc del: upt_Suc)
  moreover have "(\<lambda>i. c + word_of_nat (Suc i)) = (\<lambda>i. (c + 1) + (word_of_nat i :: u32))"
    by (simp add: fun_eq_iff)
  ultimately show ?case
    using Cons.IH [of "c + 1"]
    by (simp add: Task_new_def Let_def split_beta del: upt_Suc)
qed

text \<open>The ids of fewer than \<open>2 ^ 32\<close> consecutive tasks are distinct.\<close>

lemma new_tasks_distinct:
  assumes "length us \<le> 2 ^ 32"
  shows "distinct (map task_id (fst (new_tasks c us)))"
proof -
  have "inj_on (\<lambda>i. c + word_of_nat i :: u32) {0..<length us}"
  proof (rule inj_onI)
    fix i j assume ij: "i \<in> {0..<length us}" "j \<in> {0..<length us}"
      and eq: "c + word_of_nat i = c + (word_of_nat j :: u32)"
    then have "(word_of_nat i :: u32) = word_of_nat j" by simp
    then have "unat (word_of_nat i :: u32) = unat (word_of_nat j :: u32)" by simp
    moreover have "i < 2 ^ 32" "j < 2 ^ 32" using ij assms by auto
    ultimately show "i = j" by (simp add: unat_of_nat)
  qed
  then show ?thesis by (simp add: new_tasks_ids distinct_map)
qed

end
