(* ===== verification/Fs_Delay_Queue.thy ===== *)
theory Fs_Delay_Queue
  imports Fs_Task
begin

text \<open>
  The \<open>std::priority_queue\<close> of delayed tasks in \<open>TaskRunner\<close>.  What the code may rely on is the
  contract \<open>delay_queue\<close>: \<open>top\<close> is an entry whose deadline is minimal, \<open>pop\<close> removes that entry,
  \<open>push\<close> adds one.  The C++ standard leaves open which of several entries with the same deadline is
  on top, and no fact of this theory or of its clients says anything about it.  The model's queue
  is a list ordered by deadline; its interpretation of the contract discharges the laws.
\<close>

section \<open>Draining a priority queue\<close>

text \<open>
  The loop of \<open>TaskRunner::GetNext\<close>: take entries off the top as long as \<open>p\<close> holds of them.  At most
  \<open>fuel\<close> entries are taken; the number of entries is always enough.
\<close>

fun drain :: "('q \<Rightarrow> 'e option) \<Rightarrow> ('q \<Rightarrow> 'q) \<Rightarrow> ('e \<Rightarrow> bool) \<Rightarrow> nat \<Rightarrow> 'q \<Rightarrow> 'e list \<times> 'q" where
  "drain peek pop p 0 q = ([], q)"
| "drain peek pop p (Suc fuel) q =
     (case peek q of
        None \<Rightarrow> ([], q)
      | Some e \<Rightarrow>
          if p e then (let (es, q') = drain peek pop p fuel (pop q) in (e # es, q')) else ([], q))"

locale delay_queue =
  fixes emptyq :: 'q
    and push :: "'e \<Rightarrow> 'q \<Rightarrow> 'q"
    and peek :: "'q \<Rightarrow> 'e option"
    and pop :: "'q \<Rightarrow> 'q"
    and entries :: "'q \<Rightarrow> 'e multiset"
    and key :: "'e \<Rightarrow> 'k :: linorder"
    and invar :: "'q \<Rightarrow> bool"
  assumes entries_empty: "entries emptyq = {#}"
    and invar_empty: "invar emptyq"
    and entries_push: "entries (push e q) = add_mset e (entries q)"
    and invar_push: "invar q \<Longrightarrow> invar (push e q)"
    and peek_None_iff: "peek q = None \<longleftrightarrow> entries q = {#}"
    and peek_in: "peek q = Some e \<Longrightarrow> e \<in># entries q"
    and peek_least: "invar q \<Longrightarrow> peek q = Some e \<Longrightarrow> e' \<in># entries q \<Longrightarrow> key e \<le> key e'"
    and entries_pop: "peek q = Some e \<Longrightarrow> entries (pop q) = entries q - {#e#}"
    and invar_pop: "invar q \<Longrightarrow> peek q = Some e \<Longrightarrow> invar (pop q)"
begin

lemma entries_pop_size:
  assumes "peek q = Some e"
  shows "size (entries q) = Suc (size (entries (pop q)))"
proof -
  have "entries q = add_mset e (entries (pop q))"
    using peek_in [OF assms] entries_pop [OF assms] by simp
  then show ?thesis by simp
qed

text \<open>Nothing is due when the top is not, and the top of a queue with nothing due is not.\<close>

lemma peek_not_due:
  assumes "invar q" and "peek q = Some e" and "\<not> key e \<le> k"
  shows "filter_mset (\<lambda>e. key e \<le> k) (entries q) = {#}"
proof -
  have "\<forall>e' \<in># entries q. \<not> key e' \<le> k"
    using assms peek_least order_trans by blast
  then show ?thesis by (simp add: filter_mset_eq_mempty_iff)
qed

text \<open>
  With enough fuel the loop takes exactly the entries whose key is at most \<open>k\<close>, in key order,
  and leaves the others.
\<close>

lemma drain_due:
  assumes "invar q" and "size (entries q) \<le> fuel"
    and "drain peek pop (\<lambda>e. key e \<le> k) fuel q = (es, q')"
  shows "mset es = filter_mset (\<lambda>e. key e \<le> k) (entries q)
       \<and> entries q' = filter_mset (\<lambda>e. \<not> key e \<le> k) (entries q)
       \<and> sorted (map key es) \<and> invar q'"
  using assms
proof (induction fuel arbitrary: q es q')
  case 0
  then show ?case by simp
next
  case (Suc fuel)
  show ?case
  proof (cases "peek q")
    case None
    then have "entries q = {#}" by (simp add: peek_None_iff)
    then show ?thesis using Suc.prems None by simp
  next
    case (Some e)
    show ?thesis
    proof (cases "key e \<le> k")
      case False
      then have q: "es = []" "q' = q" using Suc.prems(3) Some by simp_all
      have none: "filter_mset (\<lambda>e. key e \<le> k) (entries q) = {#}"
        using peek_not_due [OF Suc.prems(1) Some False] .
      then have "filter_mset (\<lambda>e. \<not> key e \<le> k) (entries q) = entries q"
        by (simp add: filter_mset_eq_mempty_iff filter_mset_eq_conv)
      then show ?thesis using q none Suc.prems(1) by simp
    next
      case True
      obtain fs p where d: "drain peek pop (\<lambda>e. key e \<le> k) fuel (pop q) = (fs, p)"
        by (cases "drain peek pop (\<lambda>e. key e \<le> k) fuel (pop q)")
      then have es: "es = e # fs" "q' = p" using Suc.prems(3) Some True by simp_all
      have sz: "size (entries (pop q)) \<le> fuel"
        using entries_pop_size [OF Some] Suc.prems(2) by simp
      note IH = Suc.IH [OF invar_pop [OF Suc.prems(1) Some] sz d]
      have split: "entries q = add_mset e (entries (pop q))"
        using peek_in [OF Some] entries_pop [OF Some] by simp
      have "\<forall>x \<in> set fs. x \<in># entries q"
        using IH split by (metis insert_iff mset_subset_eqD multiset_filter_subset set_mset_add_mset_insert set_mset_mset)
      then have "\<forall>x \<in> set fs. key e \<le> key x"
        using peek_least [OF Suc.prems(1) Some] by blast
      then show ?thesis using IH es split True by simp
    qed
  qed
qed

end

section \<open>The queue of the model\<close>

type_synonym 'a dqueue = "(time_point \<times> 'a) list"

definition dq_empty :: "'a dqueue" where
  "dq_empty = []"

definition dq_push :: "time_point \<times> 'a \<Rightarrow> 'a dqueue \<Rightarrow> 'a dqueue" where
  "dq_push e q = insort_key fst e q"

definition dq_top :: "'a dqueue \<Rightarrow> (time_point \<times> 'a) option" where
  "dq_top q = (case q of [] \<Rightarrow> None | e # _ \<Rightarrow> Some e)"

definition dq_pop :: "'a dqueue \<Rightarrow> 'a dqueue" where
  "dq_pop q = tl q"

definition dq_invar :: "'a dqueue \<Rightarrow> bool" where
  "dq_invar q \<longleftrightarrow> sorted (map fst q)"

lemma mset_insort_key: "mset (insort_key f x xs) = add_mset x (mset xs)"
  by (induction xs) auto

interpretation dq: delay_queue dq_empty dq_push dq_top dq_pop mset fst dq_invar
proof
  show "mset dq_empty = {#}" by (simp add: dq_empty_def)
  show "dq_invar dq_empty" by (simp add: dq_empty_def dq_invar_def)
next
  fix e :: "time_point \<times> 'a" and q
  show "mset (dq_push e q) = add_mset e (mset q)"
    by (simp add: dq_push_def mset_insort_key)
  show "dq_invar q \<Longrightarrow> dq_invar (dq_push e q)"
    by (simp add: dq_push_def dq_invar_def sorted_insort_key)
  show "dq_top q = None \<longleftrightarrow> mset q = {#}"
    by (simp add: dq_top_def split: list.split)
  show "dq_top q = Some e \<Longrightarrow> e \<in># mset q"
    by (simp add: dq_top_def split: list.splits)
  show "dq_top q = Some e \<Longrightarrow> mset (dq_pop q) = mset q - {#e#}"
    by (simp add: dq_top_def dq_pop_def split: list.splits)
  show "dq_invar q \<Longrightarrow> dq_top q = Some e \<Longrightarrow> dq_invar (dq_pop q)"
    by (simp add: dq_top_def dq_pop_def dq_invar_def split: list.splits)
next
  fix e e' :: "time_point \<times> 'a" and q
  show "dq_invar q \<Longrightarrow> dq_top q = Some e \<Longrightarrow> e' \<in># mset q \<Longrightarrow> fst e \<le> fst e'"
    by (auto simp: dq_top_def dq_invar_def split: list.splits)
qed

end
