(* ===== verification/Fs_Task_Runner.thy ===== *)
theory Fs_Task_Runner
  imports Fs_Delay_Queue
begin

text \<open>
  \<open>include/footstone/task_runner.h\<close> and \<open>src/footstone/task_runner.cc\<close>: the queues of one runner.
  A queue slot holds a \<open>std::unique_ptr<Task>\<close>, so it may be null (\<open>None\<close>).  The mutexes make each
  operation atomic with respect to the queue it locks; the operations are modelled one at a time.
  \<open>worker_\<close> is a weak pointer: the address of a worker, whose \<open>lock()\<close> succeeds when the parameter
  \<open>alive\<close> holds of it.  Operations that need the worker (sub runners and specifics) are in the
  theories of the worker.
\<close>

record task_runner =
  task_queue :: "task option list"
  idle_task_queue :: "idle_task option list"
  delayed_task_queue :: "task option dqueue"
  tr_worker :: "nat option"
  tr_name :: string
  has_sub_runner :: bool
  priority :: u32
  tr_id :: u32
  tr_group_id :: u32
  time_used :: time_delta
  tr_schedulable :: bool

definition kDefaultGroupId :: u32 where
  "kDefaultGroupId = 0"

definition TaskRunner_new ::
    "u32 \<Rightarrow> u32 \<Rightarrow> u32 \<Rightarrow> bool \<Rightarrow> string \<Rightarrow> task_runner \<times> u32" where
  "TaskRunner_new counter group_id prio is_schedulable name =
     (\<lparr>task_queue = [], idle_task_queue = [], delayed_task_queue = dq_empty, tr_worker = None,
       tr_name = name, has_sub_runner = False, priority = prio, tr_id = counter,
       tr_group_id = group_id, time_used = td_Zero, tr_schedulable = is_schedulable\<rparr>,
      counter + 1)"

section \<open>Accessors\<close>

text \<open>\<open>GetPriority\<close> and \<open>GetId\<close> return the unsigned fields as \<open>int32_t\<close>.\<close>

definition GetPriority :: "task_runner \<Rightarrow> int" where
  "GetPriority r = sint (priority r)"

definition GetId :: "task_runner \<Rightarrow> int" where
  "GetId r = sint (tr_id r)"

definition GetName :: "task_runner \<Rightarrow> string" where
  "GetName r = tr_name r"

definition tr_GetGroupId :: "task_runner \<Rightarrow> u32" where
  "tr_GetGroupId r = tr_group_id r"

definition GetTime :: "task_runner \<Rightarrow> time_delta" where
  "GetTime r = time_used r"

definition AddTime :: "time_delta \<Rightarrow> task_runner \<Rightarrow> task_runner res" where
  "AddTime d r = bind_res (td_plus (time_used r) d) (\<lambda>t. Inr (r\<lparr>time_used := t\<rparr>))"

definition SetTime :: "time_delta \<Rightarrow> task_runner \<Rightarrow> task_runner" where
  "SetTime d r = r\<lparr>time_used := d\<rparr>"

definition IsSchedulable :: "task_runner \<Rightarrow> bool" where
  "IsSchedulable r = tr_schedulable r"

section \<open>Posting\<close>

text \<open>\<open>worker_.lock()\<close>, and \<open>NotifyWorker\<close>, which gives the worker it notifies.\<close>

definition lock_worker :: "(nat \<Rightarrow> bool) \<Rightarrow> task_runner \<Rightarrow> nat option" where
  "lock_worker alive r =
     (case tr_worker r of Some w \<Rightarrow> if alive w then Some w else None | None \<Rightarrow> None)"

definition NotifyWorker :: "(nat \<Rightarrow> bool) \<Rightarrow> task_runner \<Rightarrow> nat res" where
  "NotifyWorker alive r =
     (case lock_worker alive r of Some w \<Rightarrow> Inr w | None \<Rightarrow> Inl CheckFailed)"

definition PostTask :: "(nat \<Rightarrow> bool) \<Rightarrow> task option \<Rightarrow> task_runner \<Rightarrow> (nat \<times> task_runner) res" where
  "PostTask alive t r =
     (let r' = r\<lparr>task_queue := task_queue r @ [t]\<rparr>
      in bind_res (NotifyWorker alive r') (\<lambda>w. Inr (w, r')))"

definition PostDelayedTask ::
    "(nat \<Rightarrow> bool) \<Rightarrow> time_point \<Rightarrow> task option \<Rightarrow> time_delta \<Rightarrow> task_runner \<Rightarrow> (nat \<times> task_runner) res" where
  "PostDelayedTask alive now t delay r =
     bind_res (tp_plus now delay) (\<lambda>deadline.
       let r' = r\<lparr>delayed_task_queue := dq_push (deadline, t) (delayed_task_queue r)\<rparr>
       in bind_res (NotifyWorker alive r') (\<lambda>w. Inr (w, r')))"

definition PostIdleTask ::
    "(nat \<Rightarrow> bool) \<Rightarrow> idle_task option \<Rightarrow> task_runner \<Rightarrow> (nat \<times> task_runner) res" where
  "PostIdleTask alive t r =
     (let r' = r\<lparr>idle_task_queue := idle_task_queue r @ [t]\<rparr>
      in bind_res (NotifyWorker alive r') (\<lambda>w. Inr (w, r')))"

text \<open>
  The two templates wrap a callable in a \<open>std::packaged_task\<close> and post a task that calls it; the
  callable is a closure of the client.  The task draws the next id.
\<close>

definition PostTask_callable ::
    "(nat \<Rightarrow> bool) \<Rightarrow> nat \<Rightarrow> u32 \<Rightarrow> task_runner \<Rightarrow> ((nat \<times> task_runner) \<times> u32) res" where
  "PostTask_callable alive f counter r =
     (let (t, counter') = Task_new counter (Some (UserCode f))
      in bind_res (PostTask alive (Some t) r) (\<lambda>wr. Inr (wr, counter')))"

definition PostDelayedTask_callable ::
    "(nat \<Rightarrow> bool) \<Rightarrow> time_point \<Rightarrow> nat \<Rightarrow> time_delta \<Rightarrow> u32 \<Rightarrow> task_runner
       \<Rightarrow> ((nat \<times> task_runner) \<times> u32) res" where
  "PostDelayedTask_callable alive now f delay counter r =
     (let (t, counter') = Task_new counter (Some (UserCode f))
      in bind_res (PostDelayedTask alive now (Some t) delay r) (\<lambda>wr. Inr (wr, counter')))"

section \<open>Taking tasks\<close>

definition PopTask :: "task_runner \<Rightarrow> task option \<times> task_runner" where
  "PopTask r =
     (case task_queue r of t # ts \<Rightarrow> (t, r\<lparr>task_queue := ts\<rparr>) | [] \<Rightarrow> (None, r))"

definition PopIdleTask :: "task_runner \<Rightarrow> idle_task option \<times> task_runner" where
  "PopIdleTask r =
     (case idle_task_queue r of t # ts \<Rightarrow> (t, r\<lparr>idle_task_queue := ts\<rparr>) | [] \<Rightarrow> (None, r))"

text \<open>
  \<open>GetTopDelayTask\<close> moves the task out of the top entry and leaves the entry, now null, in the queue.
\<close>

definition set_top :: "(time_point \<times> 'a) \<Rightarrow> 'a dqueue \<Rightarrow> 'a dqueue" where
  "set_top e q = (case q of [] \<Rightarrow> [] | _ # es \<Rightarrow> e # es)"

definition GetTopDelayTask :: "task_runner \<Rightarrow> task option \<times> task_runner" where
  "GetTopDelayTask r =
     (if task_queue r = [] then
        (case dq_top (delayed_task_queue r) of
           Some (deadline, t) \<Rightarrow>
             (t, r\<lparr>delayed_task_queue := set_top (deadline, None) (delayed_task_queue r)\<rparr>)
         | None \<Rightarrow> (None, r))
      else (None, r))"

definition popTaskFromDelayedQueueNoLock :: "time_point \<Rightarrow> task_runner \<Rightarrow> task option \<times> task_runner" where
  "popTaskFromDelayedQueueNoLock now r =
     (case dq_top (delayed_task_queue r) of
        None \<Rightarrow> (None, r)
      | Some (deadline, t) \<Rightarrow>
          if deadline > now then (None, r)
          else (t, r\<lparr>delayed_task_queue := dq_pop (delayed_task_queue r)\<rparr>))"

lemma pop_delayed_decreases:
  "popTaskFromDelayedQueueNoLock now r = (Some t, r') \<Longrightarrow>
     length (delayed_task_queue r') < length (delayed_task_queue r)"
  by (auto simp: popTaskFromDelayedQueueNoLock_def dq_top_def dq_pop_def split: list.splits if_splits)

lemma pop_delayed_length:
  "popTaskFromDelayedQueueNoLock now r = (t, r') \<Longrightarrow>
     length (delayed_task_queue r') \<le> length (delayed_task_queue r)"
  by (auto simp: popTaskFromDelayedQueueNoLock_def dq_top_def dq_pop_def split: list.splits if_splits)

text \<open>
  The loop of \<open>GetNext\<close>: \<open>while (task) { push; task = popTaskFromDelayedQueueNoLock(now); }\<close>.
  It ends because every round but the last takes an entry off the delayed queue.
\<close>

function move_due :: "time_point \<Rightarrow> task option \<Rightarrow> task_runner \<Rightarrow> task_runner" where
  "move_due now t r =
     (case t of
        None \<Rightarrow> r
      | Some x \<Rightarrow>
          (case popTaskFromDelayedQueueNoLock now (r\<lparr>task_queue := task_queue r @ [Some x]\<rparr>) of
             (t', r') \<Rightarrow> move_due now t' r'))"
  by pat_completeness auto
termination
proof (relation "measure (\<lambda>(now, t, r). length (delayed_task_queue r) + (if t = None then 0 else 1))",
    goal_cases)
  case 1
  show ?case by simp
next
  case (2 now t r x t' r')
  have e: "popTaskFromDelayedQueueNoLock now (r\<lparr>task_queue := task_queue r @ [Some x]\<rparr>) = (t', r')"
    using 2 by simp
  show ?case
    using 2(1) pop_delayed_length [OF e] pop_delayed_decreases [of now _ _ r'] e
    by (cases t') fastforce+
qed

declare move_due.simps [simp del]

lemma move_due_None [simp]: "move_due now None r = r"
  by (simp add: move_due.simps)

lemma move_due_Some [simp]:
  "move_due now (Some x) r =
     (case popTaskFromDelayedQueueNoLock now (r\<lparr>task_queue := task_queue r @ [Some x]\<rparr>) of
        (t', r') \<Rightarrow> move_due now t' r')"
  by (simp add: move_due.simps [of now "Some x"])

text \<open>\<open>now\<close> is the reading of the clock \<open>GetNext\<close> takes.\<close>

definition GetNext :: "time_point \<Rightarrow> task_runner \<Rightarrow> task option \<times> task_runner" where
  "GetNext now r =
     (let (t, r1) = popTaskFromDelayedQueueNoLock now r;
          r2 = move_due now t r1
      in PopTask r2)"

definition GetNextTimeDelta :: "time_point \<Rightarrow> task_runner \<Rightarrow> time_delta res" where
  "GetNextTimeDelta now r =
     (case dq_top (delayed_task_queue r) of
        Some (deadline, _) \<Rightarrow> tp_diff deadline now
      | None \<Rightarrow> Inr td_Max)"

text \<open>
  \<open>Clear\<close>: three loops.  The third one tests \<open>idle_task_queue_\<close> and pops \<open>delayed_task_queue_\<close>, which
  the second one has emptied; \<open>pop\<close> on an empty queue is undefined.
\<close>

fun pop_all :: "'a list \<Rightarrow> 'a list" where
  "pop_all [] = []"
| "pop_all (x # xs) = pop_all xs"

fun clear_idle_loop :: "idle_task option list \<Rightarrow> task option dqueue \<Rightarrow> task option dqueue res" where
  "clear_idle_loop [] delayed = Inr delayed"
| "clear_idle_loop (i # is) [] = Inl (UB EmptyAccess)"
| "clear_idle_loop (i # is) (e # es) = clear_idle_loop (i # is) es"

definition Clear :: "task_runner \<Rightarrow> task_runner res" where
  "Clear r =
     (let r1 = r\<lparr>task_queue := pop_all (task_queue r)\<rparr>;
          r2 = r1\<lparr>delayed_task_queue := pop_all (delayed_task_queue r1)\<rparr>
      in bind_res (clear_idle_loop (idle_task_queue r2) (delayed_task_queue r2))
           (\<lambda>delayed. Inr (r2\<lparr>delayed_task_queue := delayed\<rparr>)))"

end
