(* ===== verification/Fs_Runner_Facts.thy ===== *)
theory Fs_Runner_Facts
  imports Fs_Task_Runner
begin

text \<open>
  What a runner promises.  A well-formed runner (\<open>tr_ok\<close>) has no null slot and a queue of delayed
  tasks that satisfies its contract; every post of a task keeps this.  \<open>GetNext\<close> is described by what
  is due; runs of posts and fetches (\<open>tr_run\<close>) neither lose, duplicate nor invent a task, keep the
  posting order of immediate tasks and never hand out a delayed task before its deadline.  The facts
  about delayed tasks come from the contract \<open>delay_queue\<close>, through its interpretation \<open>dq\<close>.
\<close>

section \<open>Well-formed runners\<close>

definition tr_ok :: "task_runner \<Rightarrow> bool" where
  "tr_ok r \<longleftrightarrow> None \<notin> set (task_queue r) \<and> (\<forall>e \<in># mset (delayed_task_queue r). snd e \<noteq> None)
     \<and> dq_invar (delayed_task_queue r)"

lemma tr_ok_new: "tr_ok (fst (TaskRunner_new c g p s n))"
  by (simp add: tr_ok_def TaskRunner_new_def dq_empty_def dq_invar_def)

lemma PostTask_Inr_iff:
  "PostTask alive t r = Inr (w, r') \<longleftrightarrow>
     lock_worker alive r = Some w \<and> r' = r\<lparr>task_queue := task_queue r @ [t]\<rparr>"
  by (auto simp: PostTask_def NotifyWorker_def Let_def lock_worker_def split: option.splits if_splits)

lemma PostDelayedTask_Inr_iff:
  "PostDelayedTask alive now t d r = Inr (w, r') \<longleftrightarrow>
     (\<exists>deadline. tp_plus now d = Inr deadline \<and> lock_worker alive r = Some w
        \<and> r' = r\<lparr>delayed_task_queue := dq_push (deadline, t) (delayed_task_queue r)\<rparr>)"
  by (auto simp: PostDelayedTask_def NotifyWorker_def Let_def lock_worker_def bind_res_Inr_iff
      split: option.splits if_splits)

lemma set_dq_push: "set (dq_push e q) = insert e (set q)"
  using dq.entries_push [of e q] by (metis set_mset_add_mset_insert set_mset_mset)

lemma tr_ok_PostTask: "tr_ok r \<Longrightarrow> PostTask alive (Some t) r = Inr (w, r') \<Longrightarrow> tr_ok r'"
  by (auto simp: tr_ok_def PostTask_Inr_iff)

lemma tr_ok_PostDelayedTask:
  "tr_ok r \<Longrightarrow> PostDelayedTask alive now (Some t) d r = Inr (w, r') \<Longrightarrow> tr_ok r'"
  by (auto simp: tr_ok_def PostDelayedTask_Inr_iff set_dq_push intro: dq.invar_push)

section \<open>GetNext\<close>

definition due :: "time_point \<Rightarrow> time_point \<times> 'a \<Rightarrow> bool" where
  "due now e \<longleftrightarrow> fst e \<le> now"

text \<open>The first half of \<open>GetNext\<close>: move what is due behind the immediate tasks.\<close>

definition gather :: "time_point \<Rightarrow> task_runner \<Rightarrow> task_runner" where
  "gather now r = (case popTaskFromDelayedQueueNoLock now r of (t, r1) \<Rightarrow> move_due now t r1)"

lemma GetNext_gather: "GetNext now r = PopTask (gather now r)"
  by (simp add: GetNext_def gather_def Let_def split_beta)

lemma gather_none:
  assumes "dq_top (delayed_task_queue r) = None \<or>
    (\<exists>e. dq_top (delayed_task_queue r) = Some e \<and> now < fst e)"
  shows "gather now r = r"
  using assms
  by (auto simp: gather_def popTaskFromDelayedQueueNoLock_def)

lemma gather_some:
  assumes "dq_top (delayed_task_queue r) = Some (d, Some x)" and "d \<le> now"
  shows "gather now r =
    gather now (r\<lparr>delayed_task_queue := dq_pop (delayed_task_queue r),
                  task_queue := task_queue r @ [Some x]\<rparr>)"
proof -
  have "popTaskFromDelayedQueueNoLock now r =
      (Some x, r\<lparr>delayed_task_queue := dq_pop (delayed_task_queue r)\<rparr>)"
    using assms by (simp add: popTaskFromDelayedQueueNoLock_def)
  then show ?thesis by (simp add: gather_def)
qed

lemma gather_drain:
  assumes "\<forall>e \<in># mset (delayed_task_queue r). snd e \<noteq> None"
    and "length (delayed_task_queue r) \<le> fuel"
    and "drain dq_top dq_pop (due now) fuel (delayed_task_queue r) = (es, q)"
  shows "gather now r = r\<lparr>task_queue := task_queue r @ map snd es, delayed_task_queue := q\<rparr>"
  using assms
proof (induction fuel arbitrary: r es q)
  case 0
  then show ?case by (simp add: gather_none dq_top_def)
next
  case (Suc fuel)
  show ?case
  proof (cases "dq_top (delayed_task_queue r)")
    case None
    then show ?thesis using Suc.prems by (simp add: gather_none)
  next
    case (Some e)
    show ?thesis
    proof (cases "due now e")
      case False
      then show ?thesis using Suc.prems Some by (auto simp: gather_none due_def)
    next
      case True
      obtain d x where e: "e = (d, Some x)"
        using Suc.prems(1) dq.peek_in [OF Some] by (cases e) auto
      define r1 where "r1 = r\<lparr>delayed_task_queue := dq_pop (delayed_task_queue r),
                              task_queue := task_queue r @ [Some x]\<rparr>"
      obtain fs p where dr: "drain dq_top dq_pop (due now) fuel (dq_pop (delayed_task_queue r)) = (fs, p)"
        by (cases "drain dq_top dq_pop (due now) fuel (dq_pop (delayed_task_queue r))")
      have es: "es = e # fs" "q = p" using Suc.prems(3) Some True dr by simp_all
      have "gather now r1 = r1\<lparr>task_queue := task_queue r1 @ map snd fs, delayed_task_queue := p\<rparr>"
      proof (rule Suc.IH)
        show "\<forall>e \<in># mset (delayed_task_queue r1). snd e \<noteq> None"
          using Suc.prems(1) unfolding r1_def by (auto simp: dq.entries_pop [OF Some] dest!: in_diffD)
        show "length (delayed_task_queue r1) \<le> fuel"
          using Suc.prems(2) by (simp add: r1_def dq_pop_def)
        show "drain dq_top dq_pop (due now) fuel (delayed_task_queue r1) = (fs, p)"
          using dr by (simp add: r1_def)
      qed
      moreover have "gather now r = gather now r1"
        using gather_some [of r d x now] Some True e by (simp add: r1_def due_def)
      ultimately show ?thesis using es e by (simp add: r1_def)
    qed
  qed
qed

text \<open>
  The state after gathering: the due tasks stand behind the immediate ones, in deadline order;
  what is left in the delayed queue is not due.
\<close>

lemma gather_spec:
  assumes "tr_ok r"
  obtains es q where
    "gather now r = r\<lparr>task_queue := task_queue r @ map snd es, delayed_task_queue := q\<rparr>"
    and "mset es = filter_mset (due now) (mset (delayed_task_queue r))"
    and "mset q = filter_mset (\<lambda>e. \<not> due now e) (mset (delayed_task_queue r))"
    and "sorted (map fst es)" and "dq_invar q"
proof -
  let ?q = "delayed_task_queue r"
  obtain es q where d: "drain dq_top dq_pop (due now) (length ?q) ?q = (es, q)"
    by (cases "drain dq_top dq_pop (due now) (length ?q) ?q")
  have "gather now r = r\<lparr>task_queue := task_queue r @ map snd es, delayed_task_queue := q\<rparr>"
    using gather_drain [OF _ _ d] assms by (simp add: tr_ok_def)
  moreover have "drain dq_top dq_pop (\<lambda>e. fst e \<le> now) (length ?q) ?q = (es, q)"
    using d by (simp add: due_def [abs_def])
  with assms have "mset es = filter_mset (due now) (mset ?q)
     \<and> mset q = filter_mset (\<lambda>e. \<not> due now e) (mset ?q) \<and> sorted (map fst es) \<and> dq_invar q"
    using dq.drain_due [of ?q "length ?q" now es q] by (simp add: tr_ok_def due_def [abs_def])
  ultimately show ?thesis using that by blast
qed

text \<open>All the tasks a runner holds.\<close>

definition pending_tasks :: "task_runner \<Rightarrow> task option multiset" where
  "pending_tasks r = mset (task_queue r) + image_mset snd (mset (delayed_task_queue r))"

lemma gather_pending:
  assumes "tr_ok r"
  shows "pending_tasks (gather now r) = pending_tasks r" and "tr_ok (gather now r)"
proof -
  obtain es q where g: "gather now r = r\<lparr>task_queue := task_queue r @ map snd es, delayed_task_queue := q\<rparr>"
    and es: "mset es = filter_mset (due now) (mset (delayed_task_queue r))"
    and q: "mset q = filter_mset (\<lambda>e. \<not> due now e) (mset (delayed_task_queue r))"
    and inv: "dq_invar q"
    by (rule gather_spec [OF assms, of now])
  have part: "mset (delayed_task_queue r) = mset es + mset q"
    using es q by (simp add: multiset_partition [symmetric])
  then have "mset (map snd (delayed_task_queue r)) = mset (map snd es) + mset (map snd q)"
    by simp
  then show "pending_tasks (gather now r) = pending_tasks r"
    by (simp add: pending_tasks_def g)
  have "set (delayed_task_queue r) = set es \<union> set q"
    using part by (metis set_mset_mset set_mset_union)
  then have "\<forall>e \<in> set es \<union> set q. snd e \<noteq> None"
    using assms by (simp add: tr_ok_def)
  then have "None \<notin> snd ` set es" and "\<forall>e \<in> set q. snd e \<noteq> None"
    by (metis Un_iff imageE, blast)
  then show "tr_ok (gather now r)"
    using assms inv by (simp add: tr_ok_def g)
qed

lemma PopTask_pending:
  assumes "PopTask r = (t, r')"
  shows "t = None \<Longrightarrow> tr_ok r \<Longrightarrow> task_queue r = [] \<and> r' = r"
    and "t = Some x \<Longrightarrow> pending_tasks r = add_mset (Some x) (pending_tasks r')"
    and "tr_ok r \<Longrightarrow> tr_ok r'"
  using assms by (auto simp: PopTask_def pending_tasks_def tr_ok_def split: list.splits)

lemma tr_ok_GetNext: "tr_ok r \<Longrightarrow> GetNext now r = (t, r') \<Longrightarrow> tr_ok r'"
  using gather_pending PopTask_pending(3) by (simp add: GetNext_gather)

lemma GetNext_pending:
  assumes "tr_ok r" and "GetNext now r = (t, r')"
  shows "pending_tasks r = (case t of None \<Rightarrow> {#} | Some x \<Rightarrow> {#Some x#}) + pending_tasks r'"
  using assms gather_pending [OF assms(1), of now] PopTask_pending [of "gather now r" t r']
  by (auto simp: GetNext_gather split: option.splits)

section \<open>Runs\<close>

text \<open>
  A run interleaves posts and fetches; each fetch and each delayed post carries the reading of the
  clock it takes.  Its output lists the fetched tasks with the time of the fetch.
\<close>

datatype tr_event =
    EvPost task
  | EvPostDelayed time_point task time_delta
  | EvGet time_point

fun tr_step :: "(nat \<Rightarrow> bool) \<Rightarrow> task_runner \<Rightarrow> tr_event \<Rightarrow> ((time_point \<times> task) list \<times> task_runner) res" where
  "tr_step alive r (EvPost t) = bind_res (PostTask alive (Some t) r) (\<lambda>(w, r'). Inr ([], r'))"
| "tr_step alive r (EvPostDelayed now t d) =
     bind_res (PostDelayedTask alive now (Some t) d r) (\<lambda>(w, r'). Inr ([], r'))"
| "tr_step alive r (EvGet now) =
     (let (t, r') = GetNext now r
      in Inr ((case t of None \<Rightarrow> [] | Some x \<Rightarrow> [(now, x)]), r'))"

fun tr_run :: "(nat \<Rightarrow> bool) \<Rightarrow> task_runner \<Rightarrow> tr_event list \<Rightarrow> ((time_point \<times> task) list \<times> task_runner) res" where
  "tr_run alive r [] = Inr ([], r)"
| "tr_run alive r (e # es) =
     bind_res (tr_step alive r e) (\<lambda>(out, r1).
       bind_res (tr_run alive r1 es) (\<lambda>(out', r2). Inr (out @ out', r2)))"

fun posted_by :: "tr_event \<Rightarrow> task list" where
  "posted_by (EvPost t) = [t]"
| "posted_by (EvPostDelayed now t d) = [t]"
| "posted_by (EvGet now) = []"

definition posted :: "tr_event list \<Rightarrow> task list" where
  "posted es = concat (map posted_by es)"

fun get_times :: "tr_event list \<Rightarrow> time_point list" where
  "get_times [] = []"
| "get_times (EvGet now # es) = now # get_times es"
| "get_times (_ # es) = get_times es"

lemma tr_run_ConsE:
  assumes "tr_run alive r (e # es) = Inr (out, r')"
  obtains o1 r1 o2 where "tr_step alive r e = Inr (o1, r1)" and "tr_run alive r1 es = Inr (o2, r')"
    and "out = o1 @ o2"
  using assms by (auto simp: bind_res_Inr_iff)

lemma tr_step_pending:
  assumes "tr_ok r" and "tr_step alive r e = Inr (out, r')"
  shows "pending_tasks r + mset (map Some (posted_by e)) = mset (map (Some \<circ> snd) out) + pending_tasks r'"
    and "tr_ok r'"
proof -
  have "pending_tasks r + mset (map Some (posted_by e)) = mset (map (Some \<circ> snd) out) + pending_tasks r'
      \<and> tr_ok r'"
  proof (cases e)
    case (EvPost t)
    then show ?thesis using assms tr_ok_PostTask [OF assms(1)]
      by (auto simp: bind_res_Inr_iff PostTask_Inr_iff pending_tasks_def)
  next
    case (EvPostDelayed now t d)
    then obtain w where p: "PostDelayedTask alive now (Some t) d r = Inr (w, r')" and o: "out = []"
      using assms(2) by (auto simp: bind_res_Inr_iff)
    then show ?thesis using EvPostDelayed tr_ok_PostDelayedTask [OF assms(1) p]
      by (auto simp: PostDelayedTask_Inr_iff pending_tasks_def dq.entries_push)
  next
    case (EvGet now)
    obtain t r1 where g: "GetNext now r = (t, r1)" by (cases "GetNext now r")
    then show ?thesis
      using EvGet assms tr_ok_GetNext [OF assms(1) g] GetNext_pending [OF assms(1) g]
      by (cases t) auto
  qed
  then show "pending_tasks r + mset (map Some (posted_by e)) = mset (map (Some \<circ> snd) out) + pending_tasks r'"
    and "tr_ok r'" by auto
qed

lemma tr_run_pending:
  "tr_ok r \<Longrightarrow> tr_run alive r es = Inr (out, r') \<Longrightarrow>
     pending_tasks r + mset (map Some (posted es)) = mset (map (Some \<circ> snd) out) + pending_tasks r'
     \<and> tr_ok r'"
proof (induction es arbitrary: r out)
  case Nil
  then show ?case by (simp add: posted_def)
next
  case (Cons e es)
  obtain o1 r1 o2 where st: "tr_step alive r e = Inr (o1, r1)" and run: "tr_run alive r1 es = Inr (o2, r')"
    and out: "out = o1 @ o2" by (rule tr_run_ConsE [OF Cons.prems(2)])
  note step = tr_step_pending [OF Cons.prems(1) st]
  note IH = Cons.IH [OF step(2) run]
  have "pending_tasks r + mset (map Some (posted (e # es)))
      = (pending_tasks r + mset (map Some (posted_by e))) + mset (map Some (posted es))"
    by (simp add: posted_def)
  also have "\<dots> = mset (map (Some \<circ> snd) o1) + (pending_tasks r1 + mset (map Some (posted es)))"
    by (simp only: step(1)) (simp only: add.assoc)
  finally show ?case using IH out by (simp add: comp_def)
qed

text \<open>A run returns when the runner's worker is alive and no deadline overflows.\<close>

lemma tr_run_returns:
  assumes "lock_worker alive r = Some w"
    and "\<forall>now t d. EvPostDelayed now t d \<in> set es \<longrightarrow> in_i64 (ticks now + delta d)"
  shows "returns (tr_run alive r es)"
  using assms
proof (induction es arbitrary: r)
  case Nil
  then show ?case by simp
next
  case (Cons e es)
  have wk: "tr_worker (snd (GetNext now r)) = tr_worker r" for now
  proof -
    have "tr_worker (move_due now t q) = tr_worker q" for t q
      by (induction now t q rule: move_due.induct)
        (auto simp: popTaskFromDelayedQueueNoLock_def move_due.simps split: option.splits if_splits prod.splits)
    then show ?thesis
      by (auto simp: GetNext_def PopTask_def popTaskFromDelayedQueueNoLock_def Let_def split_beta
          split: option.splits list.splits)
  qed
  obtain o1 r1 where st: "tr_step alive r e = Inr (o1, r1)" and "lock_worker alive r1 = Some w"
    using Cons.prems wk
    by (cases e) (auto simp: PostTask_def PostDelayedTask_def NotifyWorker_def lock_worker_def tp_plus_def
        td_ToNanoseconds_def Let_def split_beta)
  then have "returns (tr_run alive r1 es)" using Cons by simp
  then show ?case using st by (auto simp: returns_def)
qed

section \<open>Order and time of the fetched tasks\<close>

text \<open>
  \<open>I\<close> selects tasks that are only posted immediately: their order in the output followed by
  the queue is the order of posting.
\<close>

definition not_delayed :: "(task \<Rightarrow> bool) \<Rightarrow> task_runner \<Rightarrow> bool" where
  "not_delayed I r \<longleftrightarrow> (\<forall>e \<in> set (delayed_task_queue r). \<forall>x. snd e = Some x \<longrightarrow> \<not> I x)"

definition queued :: "task_runner \<Rightarrow> task list" where
  "queued r = List.map_filter id (task_queue r)"

lemma queued_simps [simp]:
  "queued (r\<lparr>task_queue := xs @ ys\<rparr>) = queued (r\<lparr>task_queue := xs\<rparr>) @ queued (r\<lparr>task_queue := ys\<rparr>)"
  "queued (r\<lparr>task_queue := [Some t]\<rparr>) = [t]"
  "queued (r\<lparr>task_queue := []\<rparr>) = []"
  "queued (r\<lparr>delayed_task_queue := q\<rparr>) = queued r"
  "queued (r\<lparr>task_queue := task_queue r\<rparr>) = queued r"
  by (simp_all add: queued_def map_filter_def)

lemma gather_fifo:
  assumes "tr_ok r" and "not_delayed I r"
  shows "filter I (queued (gather now r)) = filter I (queued r)" and "not_delayed I (gather now r)"
proof -
  obtain es q where g: "gather now r = r\<lparr>task_queue := task_queue r @ map snd es, delayed_task_queue := q\<rparr>"
    and es: "mset es = filter_mset (due now) (mset (delayed_task_queue r))"
    and q: "mset q = filter_mset (\<lambda>e. \<not> due now e) (mset (delayed_task_queue r))"
    by (rule gather_spec [OF assms(1), of now])
  have "set es \<subseteq> set (delayed_task_queue r)" "set q \<subseteq> set (delayed_task_queue r)"
    using arg_cong [OF es, of set_mset] arg_cong [OF q, of set_mset] by auto
  then have no: "\<forall>e \<in> set es. \<forall>x. snd e = Some x \<longrightarrow> \<not> I x"
    and nq: "\<forall>e \<in> set q. \<forall>x. snd e = Some x \<longrightarrow> \<not> I x"
    using assms(2) by (auto simp: not_delayed_def)
  from no have "filter I (queued (r\<lparr>task_queue := map snd es\<rparr>)) = []"
    by (auto simp: queued_def map_filter_def filter_empty_conv)
  then show "filter I (queued (gather now r)) = filter I (queued r)"
    by (simp add: g)
  show "not_delayed I (gather now r)"
    using nq by (simp add: g not_delayed_def)
qed

lemma tr_step_fifo:
  assumes "tr_ok r" and "not_delayed I r" and "tr_step alive r e = Inr (out, r')"
    and "\<forall>now t d. e = EvPostDelayed now t d \<longrightarrow> \<not> I t"
  shows "filter I (queued r @ posted_by e) = filter I (map snd out @ queued r') \<and> not_delayed I r'"
proof (cases e)
  case (EvPost t)
  then show ?thesis using assms(2,3)
    by (auto simp: bind_res_Inr_iff PostTask_Inr_iff not_delayed_def)
next
  case (EvPostDelayed now t d)
  then show ?thesis using assms(2,3,4)
    by (auto simp: bind_res_Inr_iff PostDelayedTask_Inr_iff not_delayed_def set_dq_push)
next
  case (EvGet now)
  obtain t q where p: "PopTask (gather now r) = (t, q)" by (cases "PopTask (gather now r)")
  then have g: "PopTask (gather now r) = (t, r')"
    and out: "out = (case t of None \<Rightarrow> [] | Some x \<Rightarrow> [(now, x)])"
    using EvGet assms(3) by (simp_all add: GetNext_gather)
  have ok: "tr_ok (gather now r)" using gather_pending [OF assms(1)] by simp
  note gf = gather_fifo [OF assms(1,2), of now]
  have "queued (gather now r) = map snd out @ queued r'"
    using g out ok by (auto simp: PopTask_def queued_def map_filter_def tr_ok_def split: list.splits)
  moreover have "not_delayed I r'"
    using g gf(2) by (auto simp: PopTask_def not_delayed_def split: list.splits)
  ultimately show ?thesis using gf(1) EvGet by (metis append_Nil2 posted_by.simps(3))
qed

lemma tr_run_fifo:
  "tr_ok r \<Longrightarrow> not_delayed I r \<Longrightarrow> tr_run alive r es = Inr (out, r') \<Longrightarrow>
   (\<forall>now t d. EvPostDelayed now t d \<in> set es \<longrightarrow> \<not> I t) \<Longrightarrow>
     filter I (queued r @ posted es) = filter I (map snd out @ queued r')"
proof (induction es arbitrary: r out)
  case Nil
  then show ?case by (simp add: posted_def)
next
  case (Cons e es)
  obtain o1 r1 o2 where st: "tr_step alive r e = Inr (o1, r1)" and run: "tr_run alive r1 es = Inr (o2, r')"
    and out: "out = o1 @ o2" by (rule tr_run_ConsE [OF Cons.prems(3)])
  have step: "filter I (queued r @ posted_by e) = filter I (map snd o1 @ queued r1) \<and> not_delayed I r1"
    using tr_step_fifo [OF Cons.prems(1,2) st] Cons.prems(4) by auto
  have "filter I (queued r1 @ posted es) = filter I (map snd o2 @ queued r')"
    using Cons.IH [OF tr_step_pending(2) [OF Cons.prems(1) st] _ run] step Cons.prems(4) by auto
  then show ?case using step out by (simp add: posted_def) (metis append.assoc filter_append)
qed

text \<open>
  \<open>R x n\<close>: the task \<open>x\<close> may be fetched at time \<open>n\<close>.  It holds of what is queued, of a delayed task
  from its deadline on, and is kept as time passes.
\<close>

definition may_leave :: "(task \<Rightarrow> time_point \<Rightarrow> bool) \<Rightarrow> time_point \<Rightarrow> task_runner \<Rightarrow> bool" where
  "may_leave R n r \<longleftrightarrow> (\<forall>x. Some x \<in> set (task_queue r) \<longrightarrow> R x n)
     \<and> (\<forall>d x. (d, Some x) \<in> set (delayed_task_queue r) \<longrightarrow> (\<forall>m \<ge> d. R x m))"

lemma gather_may_leave:
  assumes "tr_ok r" and "may_leave R n r" and "n \<le> now"
    and mono: "\<And>x a b. R x a \<Longrightarrow> a \<le> b \<Longrightarrow> R x b"
  shows "may_leave R now (gather now r)"
proof -
  obtain es q where g: "gather now r = r\<lparr>task_queue := task_queue r @ map snd es, delayed_task_queue := q\<rparr>"
    and es: "mset es = filter_mset (due now) (mset (delayed_task_queue r))"
    and q: "mset q = filter_mset (\<lambda>e. \<not> due now e) (mset (delayed_task_queue r))"
    by (rule gather_spec [OF assms(1), of now])
  have "\<forall>e \<in> set es. e \<in> set (delayed_task_queue r) \<and> fst e \<le> now"
    using arg_cong [OF es, of set_mset] by (auto simp: due_def)
  moreover have "set q \<subseteq> set (delayed_task_queue r)"
    using arg_cong [OF q, of set_mset] by auto
  ultimately show ?thesis
    using assms(2) mono [OF _ assms(3)] by (fastforce simp: may_leave_def g)
qed

lemma tr_run_may_leave:
  "tr_ok r \<Longrightarrow> may_leave R n r \<Longrightarrow> tr_run alive r es = Inr (out, r') \<Longrightarrow>
   (\<And>x a b. R x a \<Longrightarrow> a \<le> b \<Longrightarrow> R x b) \<Longrightarrow>
   (\<forall>t. EvPost t \<in> set es \<longrightarrow> (\<forall>m. R t m)) \<Longrightarrow>
   (\<forall>now t d. EvPostDelayed now t d \<in> set es \<longrightarrow> (\<forall>m. ticks now + delta d \<le> ticks m \<longrightarrow> R t m)) \<Longrightarrow>
   sorted (n # get_times es) \<Longrightarrow> \<forall>(m, t) \<in> set out. R t m"
proof (induction es arbitrary: r out n)
  case Nil
  then show ?case by simp
next
  case (Cons e es)
  obtain o1 r1 o2 where st: "tr_step alive r e = Inr (o1, r1)" and run: "tr_run alive r1 es = Inr (o2, r')"
    and out: "out = o1 @ o2" by (rule tr_run_ConsE [OF Cons.prems(3)])
  have ok1: "tr_ok r1" using tr_step_pending(2) [OF Cons.prems(1) st] .
  obtain n1 where n1: "may_leave R n1 r1" "sorted (n1 # get_times es)" "\<forall>(m, t) \<in> set o1. R t m"
  proof (cases e)
    case (EvPost t)
    then have "may_leave R n r1" "o1 = []"
      using Cons.prems(2,5) st by (auto simp: may_leave_def bind_res_Inr_iff PostTask_Inr_iff)
    then show ?thesis using that [of n] Cons.prems(7) EvPost by simp
  next
    case (EvPostDelayed now t d)
    then have "may_leave R n r1" "o1 = []"
      using Cons.prems(2,6) st
      by (auto simp: may_leave_def bind_res_Inr_iff PostDelayedTask_Inr_iff set_dq_push
          tp_plus_Inr_iff tp_order_defs)
    then show ?thesis using that [of n] Cons.prems(7) EvPostDelayed by simp
  next
    case (EvGet now)
    obtain t q where g: "PopTask (gather now r) = (t, q)" by (cases "PopTask (gather now r)")
    then have p: "PopTask (gather now r) = (t, r1)"
      and o1: "o1 = (case t of None \<Rightarrow> [] | Some x \<Rightarrow> [(now, x)])"
      using EvGet st by (simp_all add: GetNext_gather)
    have "may_leave R now (gather now r)"
      using gather_may_leave [OF Cons.prems(1,2) _ Cons.prems(4)] Cons.prems(7) EvGet by simp
    then have "may_leave R now r1" "\<forall>(m, t) \<in> set o1. R t m"
      using p o1 by (auto simp: PopTask_def may_leave_def split: list.splits option.splits)
    then show ?thesis using that [of now] Cons.prems(7) EvGet by simp
  qed
  have "\<forall>(m, t) \<in> set o2. R t m"
    using Cons.IH [OF ok1 n1(1) run Cons.prems(4) _ _ n1(2)] Cons.prems(5,6) by auto
  then show ?case using n1(3) out by auto
qed

end
