(* ===== verification/Fs_Std_Map.thy ===== *)
theory Fs_Std_Map
  imports Fs_Prelude
begin

text \<open>
  What the worker uses of \<open>std::map<int32_t, V>\<close>: lookup, insert-or-assign, erase and iteration in
  ascending key order.  The contract is the locale \<open>ordered_map\<close>; the model keeps the entries in a
  list with ascending keys.
\<close>

locale ordered_map =
  fixes lookup :: "'m \<Rightarrow> int \<Rightarrow> 'v option"
    and upd :: "int \<Rightarrow> 'v \<Rightarrow> 'm \<Rightarrow> 'm"
    and del :: "int \<Rightarrow> 'm \<Rightarrow> 'm"
    and keys :: "'m \<Rightarrow> int list"
    and invar :: "'m \<Rightarrow> bool"
  assumes lookup_upd: "invar m \<Longrightarrow> lookup (upd k v m) = (lookup m)(k \<mapsto> v)"
    and lookup_del: "invar m \<Longrightarrow> lookup (del k m) = (lookup m)(k := None)"
    and invar_upd: "invar m \<Longrightarrow> invar (upd k v m)"
    and invar_del: "invar m \<Longrightarrow> invar (del k m)"
    and set_keys: "invar m \<Longrightarrow> set (keys m) = dom (lookup m)"
    and sorted_keys: "invar m \<Longrightarrow> sorted_wrt (<) (keys m)"
begin

lemma lookup_upd_same: "invar m \<Longrightarrow> lookup (upd k v m) k = Some v"
  by (simp add: lookup_upd)

lemma lookup_upd_other: "invar m \<Longrightarrow> k' \<noteq> k \<Longrightarrow> lookup (upd k v m) k' = lookup m k'"
  by (simp add: lookup_upd)

lemma lookup_del_same: "invar m \<Longrightarrow> lookup (del k m) k = None"
  by (simp add: lookup_del)

text \<open>Moving an entry from one map to another: it is gone here and found there.\<close>

lemma move_entry:
  assumes "invar a" and "invar b" and "lookup a k = Some v"
  shows "lookup (del k a) k = None \<and> lookup (upd k v b) k = Some v
    \<and> (\<forall>k'. k' \<noteq> k \<longrightarrow> lookup (del k a) k' = lookup a k' \<and> lookup (upd k v b) k' = lookup b k')"
  using assms by (simp add: lookup_upd lookup_del)

lemma keys_empty_iff: "invar m \<Longrightarrow> keys m = [] \<longleftrightarrow> lookup m = Map.empty"
  using set_keys [of m] by (auto simp: dom_def fun_eq_iff)

end

section \<open>The maps of the model\<close>

type_synonym 'v smap = "(int \<times> 'v) list"

definition smap_find :: "'v smap \<Rightarrow> int \<Rightarrow> 'v option" where
  "smap_find m k = map_of m k"

fun smap_set :: "int \<Rightarrow> 'v \<Rightarrow> 'v smap \<Rightarrow> 'v smap" where
  "smap_set k v [] = [(k, v)]"
| "smap_set k v ((k', v') # m) =
     (if k < k' then (k, v) # (k', v') # m
      else if k = k' then (k, v) # m
      else (k', v') # smap_set k v m)"

definition smap_erase :: "int \<Rightarrow> 'v smap \<Rightarrow> 'v smap" where
  "smap_erase k m = filter (\<lambda>e. fst e \<noteq> k) m"

definition smap_keys :: "'v smap \<Rightarrow> int list" where
  "smap_keys m = map fst m"

definition smap_invar :: "'v smap \<Rightarrow> bool" where
  "smap_invar m \<longleftrightarrow> sorted_wrt (<) (map fst m)"

lemma map_of_smap_set: "map_of (smap_set k v m) = (map_of m)(k \<mapsto> v)"
  if "sorted_wrt (<) (map fst m)"
  using that
proof (induction m)
  case Nil
  then show ?case by simp
next
  case (Cons e m)
  obtain k' v' where e: "e = (k', v')" by (cases e)
  then show ?case using Cons by (auto simp: fun_eq_iff)
qed

lemma set_smap_set: "set (map fst (smap_set k v m)) = insert k (set (map fst m))"
  by (induction k v m rule: smap_set.induct) auto

lemma sorted_smap_set: "sorted_wrt (<) (map fst m) \<Longrightarrow> sorted_wrt (<) (map fst (smap_set k v m))"
proof (induction k v m rule: smap_set.induct)
  case (1 k v)
  then show ?case by simp
next
  case (2 k v k' v' m)
  then show ?case using set_smap_set [of k v m] by auto
qed

lemma strict_sorted_filter: "sorted_wrt (<) (map fst m) \<Longrightarrow> sorted_wrt (<) (map fst (filter P m))"
  by (induction m) auto

lemma map_of_filter_key: "map_of (filter (\<lambda>e. fst e \<noteq> k) m) k' = (if k' = k then None else map_of m k')"
  by (induction m) auto

interpretation smap: ordered_map smap_find smap_set smap_erase smap_keys smap_invar
proof
  fix m :: "'v smap" and k v
  assume inv: "smap_invar m"
  then show "smap_find (smap_set k v m) = (smap_find m)(k \<mapsto> v)"
    by (simp add: smap_find_def [abs_def] smap_invar_def map_of_smap_set)
  show "smap_find (smap_erase k m) = (smap_find m)(k := None)"
    by (rule ext) (auto simp: smap_find_def smap_erase_def map_of_filter_key)
qed (auto simp: smap_invar_def smap_keys_def smap_erase_def smap_find_def [abs_def]
    sorted_smap_set strict_sorted_filter dom_map_of_conv_image_fst)

end
