(* ===== verification/Fs_Worker.thy ===== *)
theory Fs_Worker
  imports Fs_Runner_Facts Fs_Std_Map
begin

text \<open>
  \<open>include/footstone/worker.h\<close> and the group management of \<open>src/footstone/worker.cc\<close>.  A worker keeps
  two lists of groups of runners: the running groups it schedules and the pending groups that were
  bound and not yet taken over.  Runners are shared objects: a group holds their addresses, and an
  operation that reads or writes a runner takes the store \<open>runners\<close> that maps addresses to runners.
  The mutexes make each operation atomic; the operations are modelled one at a time.
\<close>

type_synonym runners = "nat \<Rightarrow> task_runner"
type_synonym group = "nat list"

record worker =
  running_groups :: "group list"
  pending_groups :: "group list"
  worker_key_map :: "worker_key list smap"
  specific_map :: "void_ptr list smap"
  immediate_task_queue :: "task option list"
  min_wait_time :: time_delta
  next_task_time :: time_point
  need_balance :: bool
  is_stacking_mode :: bool
  has_migration_data :: bool
  w_schedulable :: bool
  w_group_id :: u32
  w_name :: string
  is_terminated :: bool
  is_exit_immediately :: bool

text \<open>
  The constructor does not initialise \<open>group_id_\<close>: its value is whatever the memory held, the
  parameter \<open>indeterminate\<close>.
\<close>

definition Worker_new :: "u32 \<Rightarrow> bool \<Rightarrow> string \<Rightarrow> worker" where
  "Worker_new indeterminate is_schedulable name =
     \<lparr>running_groups = [], pending_groups = [], worker_key_map = [], specific_map = [],
      immediate_task_queue = [], min_wait_time = td_Max, next_task_time = tp_Max,
      need_balance = False, is_stacking_mode = False, has_migration_data = False,
      w_schedulable = is_schedulable, w_group_id = indeterminate, w_name = name,
      is_terminated = False, is_exit_immediately = True\<rparr>"

definition GetStackingMode :: "worker \<Rightarrow> bool" where
  "GetStackingMode w = is_stacking_mode w"

definition SetStackingMode :: "bool \<Rightarrow> worker \<Rightarrow> worker" where
  "SetStackingMode b w = w\<lparr>is_stacking_mode := b\<rparr>"

definition GetTimeRemaining :: "time_point \<Rightarrow> worker \<Rightarrow> time_delta res" where
  "GetTimeRemaining now w = tp_diff now (next_task_time w)"

definition w_GetGroupId :: "worker \<Rightarrow> u32" where
  "w_GetGroupId w = w_group_id w"

definition w_SetGroupId :: "u32 \<Rightarrow> worker \<Rightarrow> worker" where
  "w_SetGroupId g w = w\<lparr>w_group_id := g\<rparr>"

section \<open>Groups\<close>

definition HasUnschedulableRunner :: "runners \<Rightarrow> worker \<Rightarrow> bool" where
  "HasUnschedulableRunner R w =
     list_ex (\<lambda>g. list_ex (\<lambda>r. \<not> IsSchedulable (R r)) g) (running_groups w)"

fun set_times :: "time_delta \<Rightarrow> group list \<Rightarrow> runners \<Rightarrow> runners" where
  "set_times t [] R = R"
| "set_times t (g # gs) R = set_times t gs (fold (\<lambda>r R. R(r := SetTime t (R r))) g R)"

text \<open>
  \<open>splice(begin, pending)\<close> puts the pending groups in front of the running ones.  The time of the
  first running group is read from its front runner.
\<close>

definition BalanceNoLock :: "runners \<Rightarrow> worker \<Rightarrow> (runners \<times> worker) res" where
  "BalanceNoLock R w =
     (if pending_groups w = [] then Inr (R, w)
      else bind_res
        (case running_groups w of
           [] \<Rightarrow> Inr td_Zero
         | [] # _ \<Rightarrow> Inl (UB EmptyAccess)
         | (r # _) # _ \<Rightarrow> Inr (GetTime (R r)))
        (\<lambda>time. Inr (set_times time (pending_groups w) R,
           w\<lparr>running_groups := pending_groups w @ running_groups w, pending_groups := []\<rparr>)))"

text \<open>
  The comparator of \<open>SortNoLock\<close> aborts on an empty group and multiplies the priority of the front
  runner with its time in 64 bits.  \<open>std::list::sort\<close> is stable; from two elements on it compares
  every element at least once, and with fewer it compares none.
\<close>

definition group_load :: "runners \<Rightarrow> group \<Rightarrow> int" where
  "group_load R g = GetPriority (R (hd g)) * td_ToNanoseconds (GetTime (R (hd g)))"

definition SortNoLock :: "runners \<Rightarrow> worker \<Rightarrow> worker res" where
  "SortNoLock R w =
     (if length (running_groups w) < 2 then Inr w
      else check (\<not> list_ex (\<lambda>g. g = []) (running_groups w))
        (if list_all (\<lambda>g. in_i64 (group_load R g)) (running_groups w)
         then Inr (w\<lparr>running_groups := sort_key (group_load R) (running_groups w)\<rparr>)
         else Inl (UB SignedOverflow)))"

text \<open>
  \<open>BindGroup\<close> appends the child to the first group that holds the father, looking through the
  running groups and then the pending ones.  If no group holds the father the iterator is \<open>end()\<close>
  and is dereferenced all the same.
\<close>

fun add_to_group_of :: "(nat \<Rightarrow> bool) \<Rightarrow> nat \<Rightarrow> group list \<Rightarrow> group list option" where
  "add_to_group_of p child [] = None"
| "add_to_group_of p child (g # gs) =
     (if list_ex p g then Some ((g @ [child]) # gs)
      else map_option ((#) g) (add_to_group_of p child gs))"

definition BindGroup :: "runners \<Rightarrow> int \<Rightarrow> nat \<Rightarrow> worker \<Rightarrow> worker res" where
  "BindGroup R father_id child w =
     (case add_to_group_of (\<lambda>r. GetId (R r) = father_id) child (running_groups w) of
        Some gs \<Rightarrow> Inr (w\<lparr>running_groups := gs\<rparr>)
      | None \<Rightarrow>
          (case add_to_group_of (\<lambda>r. GetId (R r) = father_id) child (pending_groups w) of
             Some gs \<Rightarrow> Inr (w\<lparr>pending_groups := gs\<rparr>)
           | None \<Rightarrow> Inl (UB BadIterator)))"

definition Bind :: "runners \<Rightarrow> group \<Rightarrow> worker \<Rightarrow> worker res" where
  "Bind R g w =
     (case g of
        [] \<Rightarrow> Inl (UB OutOfRange)
      | r # _ \<Rightarrow>
          let gid = tr_GetGroupId (R r);
              w1 = (if gid \<noteq> kDefaultGroupId then w\<lparr>w_group_id := gid\<rparr> else w)
          in Inr (w1\<lparr>pending_groups := pending_groups w1 @ [g], need_balance := True\<rparr>))"

definition Bind_list :: "group list \<Rightarrow> worker \<Rightarrow> worker" where
  "Bind_list gs w = w\<lparr>pending_groups := pending_groups w @ gs, need_balance := True\<rparr>"

text \<open>\<open>UnBind(runner)\<close> erases the first occurrence of the runner's id; the group itself stays.\<close>

fun erase_in_groups :: "(nat \<Rightarrow> bool) \<Rightarrow> group list \<Rightarrow> group list option" where
  "erase_in_groups p [] = None"
| "erase_in_groups p (g # gs) =
     (if list_ex p g then Some (remove_first p g # gs)
      else map_option ((#) g) (erase_in_groups p gs))"

definition UnBind :: "runners \<Rightarrow> nat \<Rightarrow> worker \<Rightarrow> worker" where
  "UnBind R runner w =
     (case erase_in_groups (\<lambda>r. GetId (R r) = GetId (R runner)) (running_groups w) of
        Some gs \<Rightarrow> w\<lparr>running_groups := gs\<rparr>
      | None \<Rightarrow>
          (case erase_in_groups (\<lambda>r. GetId (R r) = GetId (R runner)) (pending_groups w) of
             Some gs \<Rightarrow> w\<lparr>pending_groups := gs\<rparr>
           | None \<Rightarrow> w))"

definition GetRunningGroupSize :: "worker \<Rightarrow> int" where
  "GetRunningGroupSize w = int (length (running_groups w))"

definition UnBind_all :: "worker \<Rightarrow> group list \<times> worker" where
  "UnBind_all w =
     (running_groups w @ pending_groups w, w\<lparr>running_groups := [], pending_groups := []\<rparr>)"

definition ReleasePending :: "worker \<Rightarrow> group list \<times> worker" where
  "ReleasePending w = (pending_groups w, w\<lparr>pending_groups := []\<rparr>)"

text \<open>
  \<open>RetainActiveAndUnschedulable\<close> walks over the running groups and skips the first one and each
  group with a runner for which \<open>IsSchedulable()\<close> holds (the flag it sets is called
  \<open>has_unschedulable\<close>).  Another group is spliced to the end of \<open>ret\<close>, and the loop then increments
  the iterator of the moved element: it steps to the end of \<open>ret\<close>, which is never the end of
  \<open>running_groups_\<close>, and the next round dereferences it.
\<close>

fun retain_loop :: "(nat \<Rightarrow> bool) \<Rightarrow> bool \<Rightarrow> group list \<Rightarrow> group list \<Rightarrow> group list res" where
  "retain_loop sched is_begin ret [] = Inr ret"
| "retain_loop sched is_begin ret (g # gs) =
     (if is_begin then retain_loop sched False ret gs
      else if list_ex sched g then retain_loop sched False ret gs
      else Inl (UB BadIterator))"

definition RetainActiveAndUnschedulable :: "runners \<Rightarrow> worker \<Rightarrow> (group list \<times> worker) res" where
  "RetainActiveAndUnschedulable R w =
     bind_res (retain_loop (\<lambda>r. IsSchedulable (R r)) True [] (running_groups w))
       (\<lambda>ret. Inr (ret @ pending_groups w, w\<lparr>pending_groups := []\<rparr>))"

text \<open>
  \<open>Retain(runner)\<close>: when a group holds the runner it is erased and the loop then increments the
  erased iterator.
\<close>

fun retain_runner_loop :: "(nat \<Rightarrow> bool) \<Rightarrow> group list \<Rightarrow> group res" where
  "retain_runner_loop p [] = Inr []"
| "retain_runner_loop p (g # gs) =
     (if list_ex p g then Inl (UB BadIterator) else retain_runner_loop p gs)"

definition Retain :: "runners \<Rightarrow> nat \<Rightarrow> worker \<Rightarrow> (group list \<times> worker) res" where
  "Retain R runner w =
     bind_res (retain_runner_loop (\<lambda>r. GetId (R r) = GetId (R runner)) (running_groups w))
       (\<lambda>group. Inr (running_groups w, w\<lparr>running_groups := [group]\<rparr>))"

definition AddImmediateTask :: "task option \<Rightarrow> worker \<Rightarrow> worker" where
  "AddImmediateTask t w = w\<lparr>immediate_task_queue := immediate_task_queue w @ [t]\<rparr>"

section \<open>What the group operations keep\<close>

text \<open>The groups a worker holds, in both lists.\<close>

definition groups_of :: "worker \<Rightarrow> group multiset" where
  "groups_of w = mset (running_groups w) + mset (pending_groups w)"

text \<open>The runners a worker holds, each as often as a group lists it.\<close>

definition runners_of :: "worker \<Rightarrow> nat multiset" where
  "runners_of w = sum_list (map mset (running_groups w)) + sum_list (map mset (pending_groups w))"

definition no_empty_group :: "worker \<Rightarrow> bool" where
  "no_empty_group w \<longleftrightarrow> [] \<notin> set (running_groups w) \<and> [] \<notin> set (pending_groups w)"

lemma set_times_apply:
  "set_times t gs R r = (if r \<in> \<Union> (set (map set gs)) then SetTime t (R r) else R r)"
proof (induction gs arbitrary: R)
  case Nil
  then show ?case by simp
next
  case (Cons g gs)
  have "fold (\<lambda>r R. R(r := SetTime t (R r))) g R r = (if r \<in> set g then SetTime t (R r) else R r)"
  proof (induction g arbitrary: R)
    case Nil
    then show ?case by simp
  next
    case (Cons a g)
    then show ?case by (auto simp: SetTime_def)
  qed
  then show ?case using Cons.IH by (auto simp: SetTime_def)
qed

lemma BalanceNoLock_groups:
  assumes "BalanceNoLock R w = Inr (R', w')"
  shows "running_groups w' = pending_groups w @ running_groups w" and "pending_groups w' = []"
    and "groups_of w' = groups_of w" and "runners_of w' = runners_of w"
  using assms
  by (auto simp: BalanceNoLock_def groups_of_def runners_of_def bind_res_Inr_iff add.commute split: if_splits)

lemma SortNoLock_groups:
  assumes "SortNoLock R w = Inr w'"
  shows "groups_of w' = groups_of w" and "pending_groups w' = pending_groups w"
  using assms by (auto simp: SortNoLock_def groups_of_def check_def split: if_splits)

lemma SortNoLock_sorted:
  assumes "SortNoLock R w = Inr w'"
  shows "sorted (map (group_load R) (running_groups w'))"
proof (cases "length (running_groups w) < 2")
  case True
  then have "running_groups w' = running_groups w" using assms by (simp add: SortNoLock_def)
  with True show ?thesis by (cases "running_groups w" rule: remdups_adj.cases) auto
next
  case False
  then show ?thesis using assms by (auto simp: SortNoLock_def check_def split: if_splits)
qed

lemma Bind_groups:
  assumes "Bind R g w = Inr w'"
  shows "groups_of w' = add_mset g (groups_of w)"
  using assms by (auto simp: Bind_def groups_of_def Let_def split: list.splits if_splits)

lemma Bind_list_groups: "groups_of (Bind_list gs w) = groups_of w + mset gs"
  by (simp add: Bind_list_def groups_of_def)

lemma UnBind_all_groups:
  assumes "UnBind_all w = (gs, w')"
  shows "mset gs = groups_of w" and "groups_of w' = {#}"
  using assms by (auto simp: UnBind_all_def groups_of_def)

lemma erase_in_groups_mset:
  "erase_in_groups p gs = Some gs' \<Longrightarrow>
     \<exists>r. p r \<and> sum_list (map mset gs) = add_mset r (sum_list (map mset gs'))"
proof (induction gs arbitrary: gs')
  case Nil
  then show ?case by simp
next
  case (Cons g gs)
  show ?case
  proof (cases "list_ex p g")
    case True
    then obtain r where "p r" "mset g = add_mset r (mset (remove_first p g))"
      using mset_remove_first [of g p] by (auto simp: list_ex_iff)
    then show ?thesis using Cons.prems True by auto
  next
    case False
    then obtain hs where hs: "erase_in_groups p gs = Some hs" "gs' = g # hs" using Cons.prems by auto
    then obtain r where "p r" "sum_list (map mset gs) = add_mset r (sum_list (map mset hs))"
      using Cons.IH by blast
    then show ?thesis using hs by (intro exI [of _ r]) simp
  qed
qed

lemma erase_in_groups_None: "erase_in_groups p gs = None \<longleftrightarrow> (\<forall>g \<in> set gs. \<forall>r \<in> set g. \<not> p r)"
  by (induction gs) (auto simp: list_ex_iff)

lemma erase_in_groups_length: "erase_in_groups p gs = Some gs' \<Longrightarrow> length gs' = length gs"
  by (induction gs arbitrary: gs') (auto split: if_splits)

lemma add_to_group_of_mset:
  "add_to_group_of p c gs = Some gs' \<Longrightarrow>
     sum_list (map mset gs') = add_mset c (sum_list (map mset gs)) \<and> length gs' = length gs"
  by (induction gs arbitrary: gs') (auto split: if_splits)

lemma add_to_group_of_None: "add_to_group_of p c gs = None \<longleftrightarrow> (\<forall>g \<in> set gs. \<forall>r \<in> set g. \<not> p r)"
  by (induction gs) (auto simp: list_ex_iff)

text \<open>The child ends up in the group of its father, behind everyone else.\<close>

lemma add_to_group_of_group:
  "add_to_group_of p c gs = Some gs' \<Longrightarrow>
     \<exists>as g bs. gs = as @ g # bs \<and> gs' = as @ (g @ [c]) # bs \<and> list_ex p g
       \<and> (\<forall>h \<in> set as. \<not> list_ex p h)"
proof (induction gs arbitrary: gs')
  case Nil
  then show ?case by simp
next
  case (Cons g gs)
  show ?case
  proof (cases "list_ex p g")
    case True
    then show ?thesis using Cons.prems by (intro exI [of _ "[]"] exI [of _ g] exI [of _ gs]) auto
  next
    case False
    then obtain hs where hs: "add_to_group_of p c gs = Some hs" "gs' = g # hs" using Cons.prems by auto
    then obtain as h bs where "gs = as @ h # bs" "hs = as @ (h @ [c]) # bs" "list_ex p h"
      "\<forall>h \<in> set as. \<not> list_ex p h" using Cons.IH by blast
    then show ?thesis using hs False
      by (intro exI [of _ "g # as"] exI [of _ h] exI [of _ bs]) auto
  qed
qed

lemma retain_loop_False:
  "retain_loop s False ret gs =
     (if \<forall>g \<in> set gs. \<exists>r \<in> set g. s r then Inr ret else Inl (UB BadIterator))"
  by (induction gs) (auto simp: list_ex_iff)

lemma retain_loop_eq:
  "retain_loop s True ret gs =
     (if \<forall>g \<in> set (tl gs). \<exists>r \<in> set g. s r then Inr ret else Inl (UB BadIterator))"
  by (cases gs) (auto simp: retain_loop_False)

lemma Retain_loop_eq:
  "retain_runner_loop p gs = (if \<exists>g \<in> set gs. \<exists>r \<in> set g. p r then Inl (UB BadIterator) else Inr [])"
  by (induction gs) (auto simp: list_ex_iff)

text \<open>\<open>BindGroup\<close> looks through the running and pending groups as through one list.\<close>

lemma add_to_group_of_app:
  "add_to_group_of p c (xs @ ys) =
     (case add_to_group_of p c xs of
        Some xs' \<Rightarrow> Some (xs' @ ys)
      | None \<Rightarrow> map_option (\<lambda>ys'. xs @ ys') (add_to_group_of p c ys))"
proof (induction xs)
  case Nil
  show ?case by (cases "add_to_group_of p c ys") simp_all
next
  case (Cons x xs)
  then show ?case
    by (cases "add_to_group_of p c ys") (auto split: option.split)
qed

lemma BindGroup_cases:
  "case BindGroup R father child w of
     Inl f \<Rightarrow> f = UB BadIterator
       \<and> add_to_group_of (\<lambda>r. GetId (R r) = father) child (running_groups w @ pending_groups w) = None
   | Inr w' \<Rightarrow>
       add_to_group_of (\<lambda>r. GetId (R r) = father) child (running_groups w @ pending_groups w)
         = Some (running_groups w' @ pending_groups w')"
  by (auto simp: BindGroup_def add_to_group_of_app split: option.split)

lemma runners_of_app: "runners_of w = sum_list (map mset (running_groups w @ pending_groups w))"
  by (simp add: runners_of_def)

end
