(* ===== verification/Fs_Worker_Specific.thy ===== *)
theory Fs_Worker_Specific
  imports Fs_Worker
begin

text \<open>
  The runner-local storage of a worker (\<open>WorkerKeyCreate\<close> to \<open>UpdateSpecific\<close> in
  \<open>src/footstone/worker.cc\<close>), and the operations of \<open>TaskRunner\<close> that use it.  Per runner id the worker
  keeps 32 keys and 32 pointers, in two maps.  \<open>auto array = it->second\<close> makes a copy of the array:
  where the code writes to such a copy the write is a local value of the model that nothing reads.
  The maps are used through the contract \<open>ordered_map\<close>.
\<close>

section \<open>Keys and pointers\<close>

text \<open>An \<open>int32_t\<close> compared with a \<open>size_t\<close> is converted to 64 unsigned bits first.\<close>

definition to_size_t :: "int \<Rightarrow> int" where
  "to_size_t k = k mod 2 ^ 64"

definition key_out_of_range :: "int \<Rightarrow> bool" where
  "key_out_of_range key \<longleftrightarrow> to_size_t key \<ge> int kWorkerKeysMax"

fun find_unused :: "nat \<Rightarrow> worker_key list \<Rightarrow> nat option" where
  "find_unused i [] = None"
| "find_unused i (k # ks) = (if \<not> is_used k then Some i else find_unused (Suc i) ks)"

definition WorkerKeyCreate :: "int \<Rightarrow> nat option \<Rightarrow> worker \<Rightarrow> int \<times> worker" where
  "WorkerKeyCreate runner_id destr w =
     (case smap_find (worker_key_map w) runner_id of
        None \<Rightarrow> (-1, w)
      | Some array \<Rightarrow>
          (case find_unused 0 array of
             Some i \<Rightarrow>
               let array_copy = array[i := \<lparr>is_used = True, destruct = destr\<rparr>]
               in (int i, w)
           | None \<Rightarrow> (-1, w)))"

definition WorkerKeyDelete :: "int \<Rightarrow> int \<Rightarrow> worker \<Rightarrow> bool \<times> worker" where
  "WorkerKeyDelete runner_id key w =
     (case smap_find (worker_key_map w) runner_id of
        None \<Rightarrow> (False, w)
      | Some array \<Rightarrow>
          if key_out_of_range key \<or> \<not> is_used (array ! nat key) then (False, w)
          else (let array_copy = array[nat key := \<lparr>is_used = False, destruct = None\<rparr>]
                in (True, w)))"

definition WorkerSetSpecific :: "int \<Rightarrow> int \<Rightarrow> void_ptr \<Rightarrow> worker \<Rightarrow> bool \<times> worker" where
  "WorkerSetSpecific runner_id key p w =
     (case smap_find (specific_map w) runner_id of
        None \<Rightarrow> (False, w)
      | Some array \<Rightarrow>
          if key_out_of_range key then (False, w)
          else (let array_copy = array[nat key := p] in (True, w)))"

definition WorkerGetSpecific :: "int \<Rightarrow> int \<Rightarrow> worker \<Rightarrow> void_ptr" where
  "WorkerGetSpecific runner_id key w =
     (case smap_find (specific_map w) runner_id of
        None \<Rightarrow> 0
      | Some array \<Rightarrow> if key_out_of_range key then 0 else array ! nat key)"

text \<open>
  Destroying a runner's specifics calls the destructor of each key with its pointer, where both are
  set; the calls are listed in order.  Nothing happens when either map has no entry.
\<close>

definition destroy_calls :: "worker_key list \<Rightarrow> void_ptr list \<Rightarrow> (nat \<times> void_ptr) list" where
  "destroy_calls key_array specific_array =
     List.map_filter (\<lambda>i. case destruct (key_array ! i) of
         Some d \<Rightarrow> if specific_array ! i \<noteq> 0 then Some (d, specific_array ! i) else None
       | None \<Rightarrow> None) [0..<length specific_array]"

definition WorkerDestroySpecificNoLock :: "int \<Rightarrow> worker \<Rightarrow> (nat \<times> void_ptr) list \<times> worker" where
  "WorkerDestroySpecificNoLock runner_id w =
     (case (smap_find (worker_key_map w) runner_id, smap_find (specific_map w) runner_id) of
        (Some key_array, Some specific_array) \<Rightarrow>
          (destroy_calls key_array specific_array,
           w\<lparr>worker_key_map := smap_erase runner_id (worker_key_map w),
             specific_map := smap_erase runner_id (specific_map w)\<rparr>)
      | _ \<Rightarrow> ([], w))"

definition WorkerDestroySpecific :: "int \<Rightarrow> worker \<Rightarrow> (nat \<times> void_ptr) list \<times> worker" where
  "WorkerDestroySpecific runner_id w = WorkerDestroySpecificNoLock runner_id w"

text \<open>
  \<open>WorkerDestroySpecifics\<close> steps its iterator \<open>map_it\<close> forward before it uses it, so it starts at the
  second entry and ends by dereferencing \<open>end()\<close>.  The list holds the keys from \<open>map_it\<close> on.  When
  the entry at the iterator is erased, \<open>map_it = next\<close> is an invalid iterator, which the loop
  condition then reads.
\<close>

fun destroy_loop :: "int list \<Rightarrow> worker \<Rightarrow> ((nat \<times> void_ptr) list \<times> worker) res" where
  "destroy_loop [] w = Inr ([], w)"
| "destroy_loop [k] w = Inl (UB BadIterator)"
| "destroy_loop (k # k' # ks) w =
     (let (calls, w') = WorkerDestroySpecificNoLock k' w
      in if smap_find (specific_map w') k' = None then Inl (UB BadIterator)
         else bind_res (destroy_loop (k' # ks) w') (\<lambda>(calls', w''). Inr (calls @ calls', w'')))"

definition WorkerDestroySpecifics :: "worker \<Rightarrow> ((nat \<times> void_ptr) list \<times> worker) res" where
  "WorkerDestroySpecifics w = destroy_loop (smap_keys (specific_map w)) w"

text \<open>The destructor of a worker.\<close>

definition Worker_destroy :: "worker \<Rightarrow> ((nat \<times> void_ptr) list \<times> worker) res" where
  "Worker_destroy w = check (is_terminated w) (WorkerDestroySpecifics w)"

definition default_keys :: "worker_key list" where
  "default_keys = replicate kWorkerKeysMax default_key"

definition default_specific :: "void_ptr list" where
  "default_specific = replicate kWorkerKeysMax 0"

definition GetMovedSpecificKeys :: "int \<Rightarrow> worker \<Rightarrow> worker_key list \<times> worker" where
  "GetMovedSpecificKeys runner_id w =
     (case smap_find (worker_key_map w) runner_id of
        Some a \<Rightarrow> (a, w\<lparr>worker_key_map := smap_erase runner_id (worker_key_map w)\<rparr>)
      | None \<Rightarrow> (default_keys, w))"

definition UpdateSpecificKeys :: "int \<Rightarrow> worker_key list \<Rightarrow> worker \<Rightarrow> worker" where
  "UpdateSpecificKeys runner_id a w = w\<lparr>worker_key_map := smap_set runner_id a (worker_key_map w)\<rparr>"

definition GetMovedSpecific :: "int \<Rightarrow> worker \<Rightarrow> void_ptr list \<times> worker" where
  "GetMovedSpecific runner_id w =
     (case smap_find (specific_map w) runner_id of
        Some a \<Rightarrow> (a, w\<lparr>specific_map := smap_erase runner_id (specific_map w)\<rparr>)
      | None \<Rightarrow> (default_specific, w))"

definition UpdateSpecific :: "int \<Rightarrow> void_ptr list \<Rightarrow> worker \<Rightarrow> worker" where
  "UpdateSpecific runner_id a w = w\<lparr>specific_map := smap_set runner_id a (specific_map w)\<rparr>"

section \<open>The operations of TaskRunner\<close>

text \<open>
  The thread-local variables of a worker's thread.  \<open>GetCurrentTaskRunner\<close> aborts outside a task;
  inside one it is null as long as the thread has run no task of a runner.
\<close>

record thread_locals =
  local_worker_id :: u32
  is_task_running :: bool
  local_runner :: "nat option"
  curr_group :: group

definition GetCurrentTaskRunner :: "thread_locals \<Rightarrow> nat option res" where
  "GetCurrentTaskRunner th = check (is_task_running th) (Inr (local_runner th))"

definition GetCurrentWorkerId :: "thread_locals \<Rightarrow> int" where
  "GetCurrentWorkerId th = sint (local_worker_id th)"

definition IsTaskRunning :: "thread_locals \<Rightarrow> bool" where
  "IsTaskRunning th = is_task_running th"

text \<open>
  The five operations share their beginning: abort outside a task, take the id of the runner whose
  task is running (which need not be this runner), and lock this runner's worker or abort.
\<close>

definition with_current ::
    "thread_locals \<Rightarrow> runners \<Rightarrow> (nat \<Rightarrow> bool) \<Rightarrow> nat \<Rightarrow> (int \<Rightarrow> nat \<Rightarrow> 'a res) \<Rightarrow> 'a res" where
  "with_current th R alive this f =
     check (IsTaskRunning th)
       (bind_res (GetCurrentTaskRunner th) (\<lambda>current.
          case current of
            None \<Rightarrow> Inl (UB NullDeref)
          | Some c \<Rightarrow>
              (case lock_worker alive (R this) of
                 Some wk \<Rightarrow> f (GetId (R c)) wk
               | None \<Rightarrow> Inl CheckFailed)))"

type_synonym workers = "nat \<Rightarrow> worker"

definition RunnerKeyCreate ::
    "thread_locals \<Rightarrow> runners \<Rightarrow> (nat \<Rightarrow> bool) \<Rightarrow> nat \<Rightarrow> nat option \<Rightarrow> workers \<Rightarrow> (int \<times> workers) res" where
  "RunnerKeyCreate th R alive this destr W =
     with_current th R alive this (\<lambda>rid wk.
       let (key, w') = WorkerKeyCreate rid destr (W wk) in Inr (key, W(wk := w')))"

definition RunnerKeyDelete ::
    "thread_locals \<Rightarrow> runners \<Rightarrow> (nat \<Rightarrow> bool) \<Rightarrow> nat \<Rightarrow> int \<Rightarrow> workers \<Rightarrow> (bool \<times> workers) res" where
  "RunnerKeyDelete th R alive this key W =
     with_current th R alive this (\<lambda>rid wk.
       let (ok, w') = WorkerKeyDelete rid key (W wk) in Inr (ok, W(wk := w')))"

definition RunnerSetSpecific ::
    "thread_locals \<Rightarrow> runners \<Rightarrow> (nat \<Rightarrow> bool) \<Rightarrow> nat \<Rightarrow> int \<Rightarrow> void_ptr \<Rightarrow> workers \<Rightarrow> (bool \<times> workers) res" where
  "RunnerSetSpecific th R alive this key p W =
     with_current th R alive this (\<lambda>rid wk.
       let (ok, w') = WorkerSetSpecific rid key p (W wk) in Inr (ok, W(wk := w')))"

definition RunnerGetSpecific ::
    "thread_locals \<Rightarrow> runners \<Rightarrow> (nat \<Rightarrow> bool) \<Rightarrow> nat \<Rightarrow> int \<Rightarrow> workers \<Rightarrow> void_ptr res" where
  "RunnerGetSpecific th R alive this key W =
     with_current th R alive this (\<lambda>rid wk. Inr (WorkerGetSpecific rid key (W wk)))"

definition RunnerDestroySpecifics ::
    "thread_locals \<Rightarrow> runners \<Rightarrow> (nat \<Rightarrow> bool) \<Rightarrow> nat \<Rightarrow> workers \<Rightarrow> ((nat \<times> void_ptr) list \<times> workers) res" where
  "RunnerDestroySpecifics th R alive this W =
     with_current th R alive this (\<lambda>rid wk.
       let (calls, w') = WorkerDestroySpecific rid (W wk) in Inr (calls, W(wk := w')))"

text \<open>The destructor of a runner destroys its specifics where its worker still exists.\<close>

definition TaskRunner_destroy ::
    "(nat \<Rightarrow> bool) \<Rightarrow> task_runner \<Rightarrow> workers \<Rightarrow> (nat \<times> void_ptr) list \<times> workers" where
  "TaskRunner_destroy alive r W =
     (case lock_worker alive r of
        Some wk \<Rightarrow> (let (calls, w') = WorkerDestroySpecific (GetId r) (W wk) in (calls, W(wk := w')))
      | None \<Rightarrow> ([], W))"

section \<open>Well-formed stores\<close>

text \<open>The maps satisfy their contract and every array has its 32 elements.\<close>

definition specific_ok :: "worker \<Rightarrow> bool" where
  "specific_ok w \<longleftrightarrow> smap_invar (worker_key_map w) \<and> smap_invar (specific_map w)
     \<and> (\<forall>k a. smap_find (worker_key_map w) k = Some a \<longrightarrow> length a = kWorkerKeysMax)
     \<and> (\<forall>k a. smap_find (specific_map w) k = Some a \<longrightarrow> length a = kWorkerKeysMax)"

lemma specific_ok_new: "specific_ok (Worker_new g s n)"
  by (simp add: specific_ok_def Worker_new_def smap_invar_def smap_find_def)

lemma key_in_range: "\<not> key_out_of_range key \<Longrightarrow> in_i32 key \<Longrightarrow> 0 \<le> key \<and> nat key < kWorkerKeysMax"
proof -
  assume a: "\<not> key_out_of_range key" and b: "in_i32 key"
  have "0 \<le> key"
  proof (rule ccontr)
    assume "\<not> 0 \<le> key"
    then have "key mod 2 ^ 64 = (key + 2 ^ 64) mod 2 ^ 64" by simp
    also have "\<dots> = key + 2 ^ 64"
      by (rule mod_pos_pos_trivial) (use b \<open>\<not> 0 \<le> key\<close> in \<open>simp_all add: in_i32_def\<close>)
    finally have "key mod 2 ^ 64 = key + 2 ^ 64" .
    then show False using a b by (simp add: key_out_of_range_def to_size_t_def kWorkerKeysMax_def in_i32_def)
  qed
  moreover have "key mod 2 ^ 64 = key"
    by (rule mod_pos_pos_trivial) (use b calculation in \<open>simp_all add: in_i32_def\<close>)
  ultimately show ?thesis using a
    by (simp add: key_out_of_range_def to_size_t_def kWorkerKeysMax_def)
qed

text \<open>None of the four key operations changes the worker: each writes to its own copy.\<close>

lemma key_ops_keep_worker:
  "snd (WorkerKeyCreate rid d w) = w"
  "snd (WorkerKeyDelete rid k w) = w"
  "snd (WorkerSetSpecific rid k p w) = w"
  by (simp_all add: WorkerKeyCreate_def WorkerKeyDelete_def WorkerSetSpecific_def Let_def split: option.split)

lemma specific_ok_moved:
  assumes "specific_ok w"
  shows "specific_ok (snd (GetMovedSpecificKeys rid w))" and "specific_ok (snd (GetMovedSpecific rid w))"
    and "length (fst (GetMovedSpecificKeys rid w)) = kWorkerKeysMax"
    and "length (fst (GetMovedSpecific rid w)) = kWorkerKeysMax"
  using assms
  by (auto simp: specific_ok_def GetMovedSpecificKeys_def GetMovedSpecific_def default_keys_def
      default_specific_def smap.lookup_del smap.invar_del split: option.split if_splits)

lemma specific_ok_update:
  assumes "specific_ok w"
  shows "length a = kWorkerKeysMax \<Longrightarrow> specific_ok (UpdateSpecificKeys rid a w)"
    and "length b = kWorkerKeysMax \<Longrightarrow> specific_ok (UpdateSpecific rid b w)"
  using assms
  by (auto simp: specific_ok_def UpdateSpecificKeys_def UpdateSpecific_def
      smap.lookup_upd smap.invar_upd)

lemma specific_ok_destroy:
  assumes "specific_ok w"
  shows "specific_ok (snd (WorkerDestroySpecificNoLock rid w))"
  using assms
  by (auto simp: specific_ok_def WorkerDestroySpecificNoLock_def smap.lookup_del smap.invar_del
      split: option.split if_splits)

text \<open>
  Moving a runner's store: taking both arrays from one worker and installing them in another.  The
  second worker then holds what the first one held, and the first holds nothing for the runner.
\<close>

definition move_specific :: "int \<Rightarrow> worker \<Rightarrow> worker \<Rightarrow> worker \<times> worker" where
  "move_specific rid src dst =
     (let (ks, src1) = GetMovedSpecificKeys rid src;
          (ps, src2) = GetMovedSpecific rid src1
      in (src2, UpdateSpecific rid ps (UpdateSpecificKeys rid ks dst)))"

lemma move_specific_found:
  assumes "specific_ok src" and "specific_ok dst"
    and "smap_find (worker_key_map src) rid = Some ks" and "smap_find (specific_map src) rid = Some ps"
    and "move_specific rid src dst = (src', dst')"
  shows "smap_find (worker_key_map dst') rid = Some ks" and "smap_find (specific_map dst') rid = Some ps"
    and "smap_find (worker_key_map src') rid = None" and "smap_find (specific_map src') rid = None"
  using assms
  by (auto simp: move_specific_def GetMovedSpecificKeys_def GetMovedSpecific_def UpdateSpecific_def
      UpdateSpecificKeys_def specific_ok_def smap.lookup_upd smap.lookup_del)

lemma destroy_loop_returns_iff:
  assumes "specific_ok w" and "set ks \<subseteq> dom (smap_find (specific_map w))"
  shows "returns (destroy_loop ks w) \<longleftrightarrow> ks = []"
  using assms
proof (induction ks w rule: destroy_loop.induct)
  case (3 k k' ks w)
  obtain calls w' where d: "WorkerDestroySpecificNoLock k' w = (calls, w')"
    by (cases "WorkerDestroySpecificNoLock k' w")
  show ?case
  proof (cases "smap_find (specific_map w') k' = None")
    case True
    then show ?thesis using d by simp
  next
    case False
    then have "w' = w"
      using d 3(2) by (auto simp: WorkerDestroySpecificNoLock_def specific_ok_def smap.lookup_del
          split: option.splits)
    then have "\<not> returns (destroy_loop (k' # ks) w')"
      using 3 d False by auto
    then show ?thesis using d False
      by (auto simp: returns_def bind_res_Inr_iff)
  qed
qed simp_all

lemma WorkerDestroySpecifics_returns_iff:
  assumes "specific_ok w"
  shows "returns (WorkerDestroySpecifics w) \<longleftrightarrow> smap_find (specific_map w) = Map.empty"
proof -
  have inv: "smap_invar (specific_map w)" using assms by (simp add: specific_ok_def)
  show ?thesis
    using destroy_loop_returns_iff [OF assms, of "smap_keys (specific_map w)"]
      smap.set_keys [OF inv] smap.keys_empty_iff [OF inv]
    by (simp add: WorkerDestroySpecifics_def)
qed

section \<open>Sequences of key operations\<close>

datatype key_op = OpCreate "nat option" | OpDelete int | OpSet int void_ptr | OpGet int

datatype key_out = OutKey int | OutBool bool | OutPtr void_ptr

fun key_step :: "int \<Rightarrow> key_op \<Rightarrow> worker \<Rightarrow> key_out \<times> worker" where
  "key_step rid (OpCreate d) w = (let (k, w') = WorkerKeyCreate rid d w in (OutKey k, w'))"
| "key_step rid (OpDelete k) w = (let (b, w') = WorkerKeyDelete rid k w in (OutBool b, w'))"
| "key_step rid (OpSet k p) w = (let (b, w') = WorkerSetSpecific rid k p w in (OutBool b, w'))"
| "key_step rid (OpGet k) w = (OutPtr (WorkerGetSpecific rid k w), w)"

fun key_run :: "int \<Rightarrow> key_op list \<Rightarrow> worker \<Rightarrow> key_out list \<times> worker" where
  "key_run rid [] w = ([], w)"
| "key_run rid (e # es) w =
     (let (x, w1) = key_step rid e w; (xs, w2) = key_run rid es w1 in (x # xs, w2))"

text \<open>What a store that was just created answers, at any time.\<close>

fun fresh_answer :: "key_op \<Rightarrow> key_out" where
  "fresh_answer (OpCreate d) = OutKey 0"
| "fresh_answer (OpDelete k) = OutBool False"
| "fresh_answer (OpSet k p) = OutBool (\<not> key_out_of_range k)"
| "fresh_answer (OpGet k) = OutPtr 0"

definition fresh_store :: "int \<Rightarrow> worker \<Rightarrow> bool" where
  "fresh_store rid w \<longleftrightarrow> smap_find (worker_key_map w) rid = Some default_keys
     \<and> smap_find (specific_map w) rid = Some default_specific"

fun op_key :: "key_op \<Rightarrow> int" where
  "op_key (OpCreate d) = 0"
| "op_key (OpDelete k) = k"
| "op_key (OpSet k p) = k"
| "op_key (OpGet k) = k"

lemma key_step_fresh:
  assumes "fresh_store rid w" and "in_i32 (op_key e)"
  shows "key_step rid e w = (fresh_answer e, w)"
proof -
  have nth: "\<not> key_out_of_range k \<Longrightarrow> in_i32 k \<Longrightarrow>
      default_keys ! nat k = default_key \<and> default_specific ! nat k = 0" for k
    using key_in_range [of k] by (simp add: default_keys_def default_specific_def)
  have first: "find_unused 0 default_keys = Some 0"
    by (simp add: default_keys_def default_key_def kWorkerKeysMax_def numeral_eq_Suc)
  show ?thesis
    using assms nth first
    by (cases e) (auto simp: fresh_store_def WorkerKeyCreate_def WorkerKeyDelete_def
        WorkerSetSpecific_def WorkerGetSpecific_def default_key_def Let_def)
qed

lemma key_run_fresh:
  "fresh_store rid w \<Longrightarrow> \<forall>e \<in> set es. in_i32 (op_key e) \<Longrightarrow>
     key_run rid es w = (map fresh_answer es, w)"
  by (induction es) (simp_all add: key_step_fresh)

lemma Worker_destroy_returns_iff:
  assumes "specific_ok w"
  shows "returns (Worker_destroy w) \<longleftrightarrow> is_terminated w \<and> smap_find (specific_map w) = Map.empty"
  using WorkerDestroySpecifics_returns_iff [OF assms] by (simp add: Worker_destroy_def check_def)

end
