(* ===== verification/Fs_Worker_Loop.thy ===== *)
theory Fs_Worker_Loop
  imports Fs_Worker_Specific
begin

text \<open>
  The scheduling of a worker: \<open>GetNextTask\<close>, \<open>RunTask\<close> and \<open>Run\<close> in \<open>src/footstone/worker.cc\<close>, the sub
  runners of \<open>src/footstone/task_runner.cc\<close> and the loop of \<open>src/footstone/thread_worker.cc\<close>.  The
  state \<open>sys\<close> holds every worker with the thread-local variables of its thread, every runner, the
  global counters and the number of readings of the steady clock so far.  What a closure does when
  it runs is the parameter \<open>exec\<close>, given the worker it runs on.
\<close>

record sys =
  s_workers :: workers
  s_alive :: "nat \<Rightarrow> bool"
  s_runners :: runners
  s_threads :: "nat \<Rightarrow> thread_locals"
  s_clock :: nat
  s_task_counter :: u32
  s_worker_counter :: u32
  s_waits :: "(nat \<times> time_delta) list"
  s_notified :: "nat list"

text \<open>\<open>s_waits\<close> and \<open>s_notified\<close> list the calls of the virtual \<open>WaitFor\<close> and \<open>Notify\<close>, in order.\<close>

definition set_worker :: "nat \<Rightarrow> worker \<Rightarrow> sys \<Rightarrow> sys" where
  "set_worker me w s = s\<lparr>s_workers := (s_workers s)(me := w)\<rparr>"

definition set_thread :: "nat \<Rightarrow> thread_locals \<Rightarrow> sys \<Rightarrow> sys" where
  "set_thread me th s = s\<lparr>s_threads := (s_threads s)(me := th)\<rparr>"

definition set_runner :: "nat \<Rightarrow> task_runner \<Rightarrow> sys \<Rightarrow> sys" where
  "set_runner r tr s = s\<lparr>s_runners := (s_runners s)(r := tr)\<rparr>"

text \<open>\<open>TimePoint::Now()\<close>.\<close>

definition Now :: "clock \<Rightarrow> sys \<Rightarrow> time_point \<times> sys" where
  "Now clk s = (clk (s_clock s), s\<lparr>s_clock := Suc (s_clock s)\<rparr>)"

section \<open>GetNextTask\<close>

text \<open>
  The scan over the running groups.  It asks the back runner of each group for a task; where there is
  none it takes an idle task from the front runner, unless it already has one, and lowers the wait
  time to the front runner's next deadline.
\<close>

record scan =
  sc_runners :: runners
  sc_clock :: nat
  sc_idle :: "idle_task option"
  sc_min_wait :: time_delta
  sc_next :: time_point

definition scan_miss :: "time_point \<Rightarrow> nat \<Rightarrow> scan \<Rightarrow> scan res" where
  "scan_miss now front sc =
     (let sc2 =
        (case sc_idle sc of
           Some _ \<Rightarrow> sc
         | None \<Rightarrow>
             let (i, f') = PopIdleTask (sc_runners sc front)
             in sc\<lparr>sc_runners := (sc_runners sc)(front := f'), sc_idle := i\<rparr>)
      in bind_res (GetNextTimeDelta now (sc_runners sc2 front)) (\<lambda>last_wait_time.
           if sc_min_wait sc2 > last_wait_time
           then bind_res (tp_plus now last_wait_time) (\<lambda>nxt.
                  Inr (sc2\<lparr>sc_min_wait := last_wait_time, sc_next := nxt\<rparr>))
           else Inr sc2))"

fun scan_groups ::
    "clock \<Rightarrow> time_point \<Rightarrow> group list \<Rightarrow> scan \<Rightarrow> ((task \<times> nat \<times> group) option \<times> scan) res" where
  "scan_groups clk now [] sc = Inr (None, sc)"
| "scan_groups clk now ([] # gs) sc = Inl (UB EmptyAccess)"
| "scan_groups clk now ((f # rs) # gs) sc =
     (let runner = last (f # rs);
          (t, r') = GetNext (clk (sc_clock sc)) (sc_runners sc runner);
          sc1 = sc\<lparr>sc_runners := (sc_runners sc)(runner := r'), sc_clock := Suc (sc_clock sc)\<rparr>
      in case t of
           Some x \<Rightarrow> Inr (Some (x, runner, f # rs), sc1)
         | None \<Rightarrow> bind_res (scan_miss now f sc1) (scan_groups clk now gs))"

text \<open>Sorting and balancing, before the scan.\<close>

definition prepare_groups :: "runners \<Rightarrow> worker \<Rightarrow> (runners \<times> worker) res" where
  "prepare_groups R w =
     bind_res (if length (running_groups w) > 1 then SortNoLock R w else Inr w) (\<lambda>w1.
       if need_balance w1
       then bind_res (BalanceNoLock R w1) (\<lambda>(R', w2). Inr (R', w2\<lparr>need_balance := False\<rparr>))
       else Inr (R, w1))"

text \<open>
  What follows a scan that found no task: a worker that is not terminated returns at once, and the
  idle task it may have taken goes out of scope; a terminated one wraps the idle task in a task, or
  waits.
\<close>

definition after_scan :: "nat \<Rightarrow> idle_task option \<Rightarrow> sys \<Rightarrow> task option \<times> sys" where
  "after_scan me idle s =
     (let w = s_workers s me in
      if \<not> is_terminated w then (None, s)
      else (case idle of
              Some i \<Rightarrow>
                let param = \<lparr>did_time_out = False, res_time = min_wait_time w\<rparr>;
                    (t, counter) = Task_new (s_task_counter s) (Some (RunIdle i param))
                in (Some t, s\<lparr>s_task_counter := counter\<rparr>)
            | None \<Rightarrow> (None, s\<lparr>s_waits := s_waits s @ [(me, min_wait_time w)]\<rparr>)))"

definition GetNextTask :: "clock \<Rightarrow> nat \<Rightarrow> sys \<Rightarrow> (task option \<times> sys) res" where
  "GetNextTask clk me s =
     (let w = s_workers s me in
      case immediate_task_queue w of
        t # ts \<Rightarrow> Inr (t, set_worker me (w\<lparr>immediate_task_queue := ts\<rparr>) s)
      | [] \<Rightarrow>
          bind_res (prepare_groups (s_runners s) w) (\<lambda>(R1, w1).
            let (now, s1) = Now clk s;
                sc = \<lparr>sc_runners = R1, sc_clock = s_clock s1, sc_idle = None,
                      sc_min_wait = min_wait_time w1, sc_next = next_task_time w1\<rparr>
            in bind_res (scan_groups clk now (running_groups w1) sc) (\<lambda>(found, sc').
                 let w2 = w1\<lparr>min_wait_time := sc_min_wait sc', next_task_time := sc_next sc'\<rparr>;
                     s2 = (set_worker me w2 s1)\<lparr>s_runners := sc_runners sc', s_clock := sc_clock sc'\<rparr>
                 in case found of
                      Some (t, runner, g) \<Rightarrow>
                        Inr (Some t, set_thread me
                               ((s_threads s2 me)\<lparr>curr_group := g, local_runner := Some runner\<rparr>) s2)
                    | None \<Rightarrow> Inr (after_scan me (sc_idle sc') s2))))"

section \<open>RunTask\<close>

fun bill_group :: "clock \<Rightarrow> time_point \<Rightarrow> group \<Rightarrow> sys \<Rightarrow> sys res" where
  "bill_group clk begin [] s = Inr s"
| "bill_group clk begin (r # rs) s =
     (let (now, s1) = Now clk s in
      bind_res (tp_diff now begin) (\<lambda>d.
        bind_res (AddTime d (s_runners s1 r)) (\<lambda>tr.
          bill_group clk begin rs (set_runner r tr s1))))"

definition set_running :: "nat \<Rightarrow> bool \<Rightarrow> sys \<Rightarrow> sys" where
  "set_running me b s = set_thread me ((s_threads s me)\<lparr>is_task_running := b\<rparr>) s"

definition RunTask :: "(nat \<Rightarrow> exec_code \<Rightarrow> sys \<Rightarrow> sys res) \<Rightarrow> clock \<Rightarrow> nat \<Rightarrow> sys \<Rightarrow> (bool \<times> sys) res" where
  "RunTask exec clk me s =
     bind_res (GetNextTask clk me s) (\<lambda>(task, s1).
       case task of
         Some t \<Rightarrow>
           let (begin, s2) = Now clk s1 in
           bind_res (Task_Run (exec me) t (set_running me True s2)) (\<lambda>s3.
             let s4 = set_running me False s3 in
             bind_res (bill_group clk begin (curr_group (s_threads s4 me)) s4) (\<lambda>s5. Inr (True, s5)))
       | None \<Rightarrow> Inr (\<not> is_terminated (s_workers s1 me), s1))"

section \<open>The loop of a thread worker\<close>

text \<open>
  \<open>ThreadWorker::RunLoop\<close> may run forever: the fuel bounds the rounds, and \<open>None\<close> means that the loop
  is still running when the fuel is used up.
\<close>

fun RunLoop :: "(nat \<Rightarrow> exec_code \<Rightarrow> sys \<Rightarrow> sys res) \<Rightarrow> clock \<Rightarrow> nat \<Rightarrow> nat \<Rightarrow> sys \<Rightarrow> sys res option" where
  "RunLoop exec clk me 0 s = None"
| "RunLoop exec clk me (Suc fuel) s =
     (if is_exit_immediately (s_workers s me) then
        (if is_terminated (s_workers s me) then Some (Inr s)
         else (case RunTask exec clk me s of
                 Inl f \<Rightarrow> Some (Inl f)
               | Inr (_, s') \<Rightarrow> RunLoop exec clk me fuel s'))
      else
        (case RunTask exec clk me s of
           Inl f \<Rightarrow> Some (Inl f)
         | Inr (again, s') \<Rightarrow> if again then RunLoop exec clk me fuel s' else Some (Inr s')))"

definition Run :: "(nat \<Rightarrow> exec_code \<Rightarrow> sys \<Rightarrow> sys res) \<Rightarrow> clock \<Rightarrow> nat \<Rightarrow> nat \<Rightarrow> sys \<Rightarrow> sys res option" where
  "Run exec clk me fuel s =
     (if is_terminated (s_workers s me) then Some (Inr s)
      else RunLoop exec clk me fuel
        ((set_thread me ((s_threads s me)\<lparr>local_worker_id := s_worker_counter s\<rparr>) s)
           \<lparr>s_worker_counter := s_worker_counter s + 1\<rparr>))"

text \<open>\<open>ThreadWorker::TerminateWorker\<close>: the flag is set once, with one notification.\<close>

definition TerminateWorker :: "nat \<Rightarrow> sys \<Rightarrow> sys" where
  "TerminateWorker me s =
     (let w = s_workers s me in
      if is_terminated w then s
      else (set_worker me (w\<lparr>is_terminated := True\<rparr>) s)\<lparr>s_notified := s_notified s @ [me]\<rparr>)"

definition Terminate :: "nat \<Rightarrow> sys \<Rightarrow> sys" where
  "Terminate me s = TerminateWorker me s"

text \<open>How \<open>ThreadWorker::WaitFor\<close> blocks the thread.\<close>

datatype wait = NoWait | WaitNanoseconds int | WaitUntilNotified

definition WaitFor :: "time_delta \<Rightarrow> worker \<Rightarrow> wait" where
  "WaitFor d w =
     (if is_terminated w then NoWait
      else if d \<noteq> td_Max \<and> d \<noteq> td_Zero then WaitNanoseconds (td_ToNanoseconds d)
      else WaitUntilNotified)"

section \<open>Sub runners\<close>

text \<open>
  \<open>AddSubTaskRunner\<close> inside a task runs tasks of the worker until \<open>has_sub_runner_\<close> is cleared by one of
  them; the loop is bounded by fuel as above.
\<close>

fun sub_loop :: "(nat \<Rightarrow> exec_code \<Rightarrow> sys \<Rightarrow> sys res) \<Rightarrow> clock \<Rightarrow> nat \<Rightarrow> nat \<Rightarrow> nat \<Rightarrow> sys \<Rightarrow> sys res option" where
  "sub_loop exec clk wk this 0 s = None"
| "sub_loop exec clk wk this (Suc fuel) s =
     (if \<not> has_sub_runner (s_runners s this) then Some (Inr s)
      else (case RunTask exec clk wk s of
              Inl f \<Rightarrow> Some (Inl f)
            | Inr (_, s') \<Rightarrow> sub_loop exec clk wk this fuel s'))"

definition AddSubTaskRunner ::
    "(nat \<Rightarrow> exec_code \<Rightarrow> sys \<Rightarrow> sys res) \<Rightarrow> clock \<Rightarrow> nat \<Rightarrow> nat \<Rightarrow> nat \<Rightarrow> bool \<Rightarrow> sys \<Rightarrow> (bool \<times> sys) res option" where
  "AddSubTaskRunner exec clk fuel this sub running s =
     (case lock_worker (s_alive s) (s_runners s this) of
        None \<Rightarrow> Some (Inr (False, s))
      | Some wk \<Rightarrow>
          (case BindGroup (s_runners s) (GetId (s_runners s this)) sub (s_workers s wk) of
             Inl f \<Rightarrow> Some (Inl f)
           | Inr w \<Rightarrow>
               let s1 = set_runner this ((s_runners s this)\<lparr>has_sub_runner := True\<rparr>) (set_worker wk w s)
               in if running then
                    map_option (\<lambda>m. bind_res m (\<lambda>s'. Inr (True, s')))
                      (sub_loop exec clk wk this fuel
                         (set_worker wk (SetStackingMode True (s_workers s1 wk)) s1))
                  else Some (Inr (True, s1))))"

definition notify :: "nat \<Rightarrow> sys \<Rightarrow> sys" where
  "notify wk s = s\<lparr>s_notified := s_notified s @ [wk]\<rparr>"

definition RemoveSubTaskRunner :: "nat \<Rightarrow> nat option \<Rightarrow> sys \<Rightarrow> (bool \<times> sys) res" where
  "RemoveSubTaskRunner this sub s =
     (case sub of
        None \<Rightarrow> Inr (False, s)
      | Some sub \<Rightarrow>
          if \<not> has_sub_runner (s_runners s this) then Inr (False, s)
          else (case lock_worker (s_alive s) (s_runners s this) of
                  None \<Rightarrow> Inr (False, s)
                | Some wk \<Rightarrow>
                    let s1 = set_worker wk (UnBind (s_runners s) sub (s_workers s wk)) s;
                        s2 = set_runner this ((s_runners s1 this)\<lparr>has_sub_runner := False\<rparr>) s1
                    in bind_res (NotifyWorker (s_alive s2) (s_runners s2 this))
                         (\<lambda>n. Inr (True, notify n s2))))"

end
