(* ===== verification/Fs_Worker_Facts.thy ===== *)
theory Fs_Worker_Facts
  imports Fs_Worker_Loop
begin

text \<open>
  What scheduling does.  The scan over the groups takes at most one task, from the back runner of the
  first group that has one, and leaves the tasks of every other runner alone; the groups are visited
  in the order newly bound groups first, then ascending load.
\<close>

section \<open>The scan\<close>

definition same_tasks :: "runners \<Rightarrow> runners \<Rightarrow> bool" where
  "same_tasks R R' \<longleftrightarrow> (\<forall>r. task_queue (R' r) = task_queue (R r)
     \<and> delayed_task_queue (R' r) = delayed_task_queue (R r))"

lemma same_tasks_refl [simp]: "same_tasks R R"
  by (simp add: same_tasks_def)

lemma same_tasks_trans: "same_tasks R R' \<Longrightarrow> same_tasks R' R'' \<Longrightarrow> same_tasks R R''"
  by (simp add: same_tasks_def)

lemma same_tasksD:
  assumes "same_tasks R R'"
  shows "pending_tasks (R' r) = pending_tasks (R r)" and "tr_ok (R' r) = tr_ok (R r)"
    and "task_queue (R' r) = task_queue (R r)"
    and "delayed_task_queue (R' r) = delayed_task_queue (R r)"
  using assms by (simp_all add: same_tasks_def pending_tasks_def tr_ok_def)

lemma PopIdleTask_tasks:
  "PopIdleTask r = (i, r') \<Longrightarrow> task_queue r' = task_queue r \<and> delayed_task_queue r' = delayed_task_queue r"
  by (auto simp: PopIdleTask_def split: list.splits)

lemma scan_miss_spec:
  assumes "scan_miss now f sc = Inr sc'"
  shows "same_tasks (sc_runners sc) (sc_runners sc') \<and> sc_clock sc' = sc_clock sc
    \<and> sc_min_wait sc' \<le> sc_min_wait sc \<and> (sc_idle sc \<noteq> None \<longrightarrow> sc_idle sc' = sc_idle sc)"
proof -
  define sc2 where "sc2 = (case sc_idle sc of Some _ \<Rightarrow> sc
     | None \<Rightarrow> let (i, f') = PopIdleTask (sc_runners sc f)
               in sc\<lparr>sc_runners := (sc_runners sc)(f := f'), sc_idle := i\<rparr>)"
  have "same_tasks (sc_runners sc) (sc_runners sc2) \<and> sc_clock sc2 = sc_clock sc
      \<and> sc_min_wait sc2 = sc_min_wait sc \<and> (sc_idle sc \<noteq> None \<longrightarrow> sc_idle sc2 = sc_idle sc)"
    using PopIdleTask_tasks [of "sc_runners sc f"]
    by (cases "PopIdleTask (sc_runners sc f)")
      (auto simp: sc2_def same_tasks_def split: option.splits)
  moreover have "sc' = sc2 \<or> (\<exists>d n. sc' = sc2\<lparr>sc_min_wait := d, sc_next := n\<rparr> \<and> d < sc_min_wait sc2)"
    using assms by (auto simp: scan_miss_def sc2_def Let_def bind_res_Inr_iff split: if_splits)
  ultimately show ?thesis by auto
qed

lemma scan_groups_Cons:
  "scan_groups clk now (g # gs) sc =
     (if g = [] then Inl (UB EmptyAccess)
      else (let (t, r') = GetNext (clk (sc_clock sc)) (sc_runners sc (last g));
                sc1 = sc\<lparr>sc_runners := (sc_runners sc)(last g := r'), sc_clock := Suc (sc_clock sc)\<rparr>
            in case t of
                 Some x \<Rightarrow> Inr (Some (x, last g, g), sc1)
               | None \<Rightarrow> bind_res (scan_miss now (hd g) sc1) (scan_groups clk now gs)))"
proof (cases g)
  case Nil
  then show ?thesis by simp
next
  case (Cons f rs)
  show ?thesis unfolding Cons by (simp only: scan_groups.simps list.sel Let_def if_False list.distinct)
qed

declare scan_groups.simps(2,3) [simp del]

text \<open>\<open>None\<close> found: no runner's tasks changed (due ones may have moved to the front queue).\<close>

definition scan_result :: "runners \<Rightarrow> (task \<times> nat \<times> group) option \<Rightarrow> runners \<Rightarrow> bool" where
  "scan_result R found R' \<longleftrightarrow> (\<forall>r. tr_ok (R' r)) \<and>
     (case found of
        None \<Rightarrow> \<forall>r. pending_tasks (R' r) = pending_tasks (R r)
      | Some (t, r, g) \<Rightarrow> pending_tasks (R r) = add_mset (Some t) (pending_tasks (R' r))
          \<and> (\<forall>r'. r' \<noteq> r \<longrightarrow> pending_tasks (R' r') = pending_tasks (R r')))"

lemma scan_result_pending:
  assumes "\<forall>r. pending_tasks (R1 r) = pending_tasks (R r)" and "scan_result R1 found R'"
  shows "scan_result R found R'"
  using assms by (simp add: scan_result_def split: option.splits prod.splits)

lemma scan_groups_tasks:
  "\<forall>r. tr_ok (sc_runners sc r) \<Longrightarrow> scan_groups clk now gs sc = Inr (found, sc') \<Longrightarrow>
     scan_result (sc_runners sc) found (sc_runners sc')
     \<and> (\<forall>t r g. found = Some (t, r, g) \<longrightarrow> g \<in> set gs \<and> g \<noteq> [] \<and> r = last g)"
proof (induction gs arbitrary: sc)
  case Nil
  then show ?case by (simp add: scan_result_def)
next
  case (Cons g gs)
  have g: "g \<noteq> []" using Cons.prems(2) by (auto simp: scan_groups_Cons)
  obtain t r' where gn: "GetNext (clk (sc_clock sc)) (sc_runners sc (last g)) = (t, r')"
    by (cases "GetNext (clk (sc_clock sc)) (sc_runners sc (last g))")
  define sc1 where
    "sc1 = sc\<lparr>sc_runners := (sc_runners sc)(last g := r'), sc_clock := Suc (sc_clock sc)\<rparr>"
  have ok: "tr_ok (sc_runners sc (last g))" using Cons.prems(1) by simp
  have ok1: "\<forall>r. tr_ok (sc_runners sc1 r)"
    using Cons.prems(1) tr_ok_GetNext [OF ok gn] by (simp add: sc1_def)
  note pend = GetNext_pending [OF ok gn]
  show ?case
  proof (cases t)
    case (Some x)
    then have "found = Some (x, last g, g)" "sc' = sc1"
      using Cons.prems(2) gn g by (simp_all add: scan_groups_Cons sc1_def)
    then show ?thesis using Some pend ok1 g by (simp add: scan_result_def sc1_def)
  next
    case None
    then obtain sc2 where m: "scan_miss now (hd g) sc1 = Inr sc2"
      and rest: "scan_groups clk now gs sc2 = Inr (found, sc')"
      using Cons.prems(2) gn g by (auto simp: scan_groups_Cons sc1_def)
    have same: "same_tasks (sc_runners sc1) (sc_runners sc2)" using scan_miss_spec [OF m] by simp
    have ok2: "\<forall>r. tr_ok (sc_runners sc2 r)" using ok1 same_tasksD(2) [OF same] by simp
    have "\<forall>r. pending_tasks (sc_runners sc2 r) = pending_tasks (sc_runners sc r)"
      using same_tasksD(1) [OF same] None pend by (simp add: sc1_def)
    then show ?thesis
      using Cons.IH [OF ok2 rest] scan_result_pending by fastforce
  qed
qed

lemma scan_groups_min_wait:
  "scan_groups clk now gs sc = Inr (found, sc') \<Longrightarrow> sc_min_wait sc' \<le> sc_min_wait sc"
proof (induction gs arbitrary: sc)
  case Nil
  then show ?case by simp
next
  case (Cons g gs)
  then show ?case
    by (auto simp: scan_groups_Cons Let_def split: if_splits prod.splits option.splits
        dest!: scan_miss_spec Cons.IH)
qed

text \<open>
  With every runner in one group only, the groups before the one that supplied the task have nothing
  left that is ready: their back runners' queues are empty.
\<close>

lemma GetNext_None_queue: "tr_ok r \<Longrightarrow> GetNext now r = (None, r') \<Longrightarrow> task_queue r' = []"
  using gather_pending(2) [of r now] PopTask_pending(1) [of "gather now r" None r']
  by (simp add: GetNext_gather)

lemma scan_groups_other:
  "scan_groups clk now gs sc = Inr (found, sc') \<Longrightarrow> r \<notin> \<Union> (set (map set gs)) \<Longrightarrow>
     task_queue (sc_runners sc' r) = task_queue (sc_runners sc r)"
proof (induction gs arbitrary: sc)
  case Nil
  then show ?case by simp
next
  case (Cons g gs)
  have ne: "g \<noteq> []" using Cons.prems(1) by (auto simp: scan_groups_Cons)
  then have "r \<noteq> last g" using Cons.prems(2) by auto
  then show ?case
    using Cons ne
    by (auto simp: scan_groups_Cons Let_def same_tasks_def split: prod.splits option.splits
        dest!: scan_miss_spec)
qed

lemma scan_groups_first:
  "\<forall>r. tr_ok (sc_runners sc r) \<Longrightarrow> distinct (concat gs) \<Longrightarrow>
   scan_groups clk now gs sc = Inr (Some (t, r, g), sc') \<Longrightarrow>
     \<exists>as bs. gs = as @ g # bs \<and> (\<forall>h \<in> set as. task_queue (sc_runners sc' (last h)) = [])"
proof (induction gs arbitrary: sc)
  case Nil
  then show ?case by simp
next
  case (Cons h gs)
  have ne: "h \<noteq> []" using Cons.prems(3) by (auto simp: scan_groups_Cons)
  obtain u r' where gn: "GetNext (clk (sc_clock sc)) (sc_runners sc (last h)) = (u, r')"
    by (cases "GetNext (clk (sc_clock sc)) (sc_runners sc (last h))")
  define sc1 where
    "sc1 = sc\<lparr>sc_runners := (sc_runners sc)(last h := r'), sc_clock := Suc (sc_clock sc)\<rparr>"
  have ok: "tr_ok (sc_runners sc (last h))" using Cons.prems(1) by simp
  have ok1: "\<forall>r. tr_ok (sc_runners sc1 r)"
    using Cons.prems(1) tr_ok_GetNext [OF ok gn] by (simp add: sc1_def)
  show ?case
  proof (cases u)
    case (Some x)
    then have "g = h" using Cons.prems(3) gn ne by (simp add: scan_groups_Cons)
    then show ?thesis by (intro exI [of _ "[]"] exI [of _ gs]) simp
  next
    case None
    then obtain sc2 where m: "scan_miss now (hd h) sc1 = Inr sc2"
      and rest: "scan_groups clk now gs sc2 = Inr (Some (t, r, g), sc')"
      using Cons.prems(3) gn ne by (auto simp: scan_groups_Cons sc1_def)
    have same: "same_tasks (sc_runners sc1) (sc_runners sc2)" using scan_miss_spec [OF m] by simp
    have ok2: "\<forall>r. tr_ok (sc_runners sc2 r)" using ok1 same_tasksD(2) [OF same] by simp
    obtain as bs where ab: "gs = as @ g # bs"
      "\<forall>h \<in> set as. task_queue (sc_runners sc' (last h)) = []"
      using Cons.IH [OF ok2 _ rest] Cons.prems(2) by auto
    have "last h \<notin> \<Union> (set (map set gs))"
      using Cons.prems(2) ne by (auto simp: disjoint_iff)
    then have "task_queue (sc_runners sc' (last h)) = task_queue (sc_runners sc2 (last h))"
      using scan_groups_other [OF rest] by simp
    also have "\<dots> = []"
      using same_tasksD(3) [OF same] GetNext_None_queue [OF ok] gn None by (simp add: sc1_def)
    finally show ?thesis using ab by (intro exI [of _ "h # as"] exI [of _ bs]) simp
  qed
qed

section \<open>Order of the groups\<close>

lemma prepare_groups_spec:
  assumes "prepare_groups R w = Inr (R', w')"
  shows "running_groups w' =
      (if need_balance w then pending_groups w else []) @ sort_key (group_load R) (running_groups w)"
    and "groups_of w' = groups_of w"
    and "is_terminated w' = is_terminated w" and "immediate_task_queue w' = immediate_task_queue w"
    and "min_wait_time w' = min_wait_time w" and "same_tasks R R'"
proof -
  obtain w1 where s: "(if length (running_groups w) > 1 then SortNoLock R w else Inr w) = Inr w1"
    and b: "(if need_balance w1 then bind_res (BalanceNoLock R w1)
               (\<lambda>(R', w2). Inr (R', w2\<lparr>need_balance := False\<rparr>)) else Inr (R, w1)) = Inr (R', w')"
    using assms by (auto simp: prepare_groups_def bind_res_Inr_iff)
  have w1: "w1 = w\<lparr>running_groups := sort_key (group_load R) (running_groups w)\<rparr>"
  proof (cases "length (running_groups w) > 1")
    case True
    then show ?thesis using s by (auto simp: SortNoLock_def check_def split: if_splits)
  next
    case False
    then have "sort_key (group_load R) (running_groups w) = running_groups w"
      by (cases "running_groups w" rule: remdups_adj.cases) auto
    then show ?thesis using False s by simp
  qed
  have "running_groups w' =
      (if need_balance w then pending_groups w else []) @ sort_key (group_load R) (running_groups w)
    \<and> groups_of w' = groups_of w
    \<and> is_terminated w' = is_terminated w \<and> immediate_task_queue w' = immediate_task_queue w
    \<and> min_wait_time w' = min_wait_time w \<and> same_tasks R R'"
  proof (cases "need_balance w")
    case False
    then show ?thesis using b w1 by (auto simp: groups_of_def)
  next
    case True
    then obtain w2 where bal: "BalanceNoLock R w1 = Inr (R', w2)" and w': "w' = w2\<lparr>need_balance := False\<rparr>"
      using b w1 by (auto simp: bind_res_Inr_iff)
    have "same_tasks R R'" and "is_terminated w2 = is_terminated w1"
      and "immediate_task_queue w2 = immediate_task_queue w1" and "min_wait_time w2 = min_wait_time w1"
      using bal
      by (auto simp: BalanceNoLock_def bind_res_Inr_iff same_tasks_def set_times_apply SetTime_def
          split: if_splits)
    then show ?thesis using BalanceNoLock_groups [OF bal] True w1 w' by (auto simp: groups_of_def)
  qed
  then show "running_groups w' =
      (if need_balance w then pending_groups w else []) @ sort_key (group_load R) (running_groups w)"
    and "groups_of w' = groups_of w"
    and "is_terminated w' = is_terminated w" and "immediate_task_queue w' = immediate_task_queue w"
    and "min_wait_time w' = min_wait_time w" and "same_tasks R R'"
    by blast+
qed

lemma BalanceNoLock_keeps:
  assumes "BalanceNoLock R w = Inr (R', w')"
  shows "idle_task_queue (R' r) = idle_task_queue (R r)"
    and "is_exit_immediately w' = is_exit_immediately w"
  using assms
  by (auto simp: BalanceNoLock_def set_times_apply SetTime_def split: if_splits)

lemma prepare_groups_keeps:
  assumes "prepare_groups R w = Inr (R', w')"
  shows "idle_task_queue (R' r) = idle_task_queue (R r)"
    and "is_exit_immediately w' = is_exit_immediately w"
proof -
  obtain w1 where "(if length (running_groups w) > 1 then SortNoLock R w else Inr w) = Inr w1"
    and b: "(if need_balance w1 then bind_res (BalanceNoLock R w1)
               (\<lambda>(R', w2). Inr (R', w2\<lparr>need_balance := False\<rparr>)) else Inr (R, w1)) = Inr (R', w')"
    using assms by (auto simp: prepare_groups_def)
  then have "is_exit_immediately w1 = is_exit_immediately w"
    by (auto simp: SortNoLock_def check_Inr_iff split: if_splits)
  then show "idle_task_queue (R' r) = idle_task_queue (R r)"
    and "is_exit_immediately w' = is_exit_immediately w"
    using b BalanceNoLock_keeps [of R w1 R'] by (auto split: if_splits)
qed

section \<open>GetNextTask\<close>

definition scan_start :: "clock \<Rightarrow> sys \<Rightarrow> runners \<Rightarrow> worker \<Rightarrow> scan" where
  "scan_start clk s R w =
     \<lparr>sc_runners = R, sc_clock = Suc (s_clock s), sc_idle = None,
      sc_min_wait = min_wait_time w, sc_next = next_task_time w\<rparr>"

text \<open>The state right after the scan.\<close>

definition scan_end :: "nat \<Rightarrow> sys \<Rightarrow> worker \<Rightarrow> scan \<Rightarrow> sys" where
  "scan_end me s w sc =
     (set_worker me (w\<lparr>min_wait_time := sc_min_wait sc, next_task_time := sc_next sc\<rparr>)
        (s\<lparr>s_clock := Suc (s_clock s)\<rparr>))\<lparr>s_runners := sc_runners sc, s_clock := sc_clock sc\<rparr>"

lemma GetNextTask_immediate:
  "immediate_task_queue (s_workers s me) = t # ts \<Longrightarrow>
     GetNextTask clk me s =
       Inr (t, set_worker me ((s_workers s me)\<lparr>immediate_task_queue := ts\<rparr>) s)"
  by (simp add: GetNextTask_def Let_def)

lemma GetNextTask_scan:
  "immediate_task_queue (s_workers s me) = [] \<Longrightarrow>
     GetNextTask clk me s =
       bind_res (prepare_groups (s_runners s) (s_workers s me)) (\<lambda>(R1, w1).
         bind_res (scan_groups clk (clk (s_clock s)) (running_groups w1) (scan_start clk s R1 w1))
           (\<lambda>(found, sc'). case found of
              Some (t, runner, g) \<Rightarrow>
                Inr (Some t, set_thread me
                  ((s_threads s me)\<lparr>curr_group := g, local_runner := Some runner\<rparr>) (scan_end me s w1 sc'))
            | None \<Rightarrow> Inr (after_scan me (sc_idle sc') (scan_end me s w1 sc'))))"
  unfolding GetNextTask_def scan_start_def scan_end_def Let_def Now_def
  by (auto simp: set_worker_def fun_eq_iff intro!: arg_cong [where f = "bind_res m" for m]
      split: option.split)

lemma GetNextTask_elim:
  assumes "GetNextTask clk me s = Inr (t, s')" and "immediate_task_queue (s_workers s me) = []"
  obtains R1 w1 found sc where "prepare_groups (s_runners s) (s_workers s me) = Inr (R1, w1)"
    and "scan_groups clk (clk (s_clock s)) (running_groups w1) (scan_start clk s R1 w1) = Inr (found, sc)"
    and "(case found of
            Some (x, runner, g) \<Rightarrow> t = Some x \<and> s' = set_thread me
              ((s_threads s me)\<lparr>curr_group := g, local_runner := Some runner\<rparr>) (scan_end me s w1 sc)
          | None \<Rightarrow> (t, s') = after_scan me (sc_idle sc) (scan_end me s w1 sc))"
  using assms
  by (auto simp: GetNextTask_scan bind_res_Inr_iff split: option.splits prod.splits)

lemma scan_end_simps [simp]:
  "s_runners (scan_end me s w sc) = sc_runners sc"
  "s_threads (scan_end me s w sc) = s_threads s"
  "s_waits (scan_end me s w sc) = s_waits s"
  "s_workers (scan_end me s w sc) me = w\<lparr>min_wait_time := sc_min_wait sc, next_task_time := sc_next sc\<rparr>"
  "other \<noteq> me \<Longrightarrow> s_workers (scan_end me s w sc) other = s_workers s other"
  by (simp_all add: scan_end_def set_worker_def)

lemma set_thread_simps [simp]:
  "s_runners (set_thread me th s) = s_runners s" "s_waits (set_thread me th s) = s_waits s"
  "s_workers (set_thread me th s) = s_workers s" "s_threads (set_thread me th s) me = th"
  "s_clock (set_thread me th s) = s_clock s" "s_notified (set_thread me th s) = s_notified s"
  by (simp_all add: set_thread_def)

lemma after_scan_keeps:
  assumes "after_scan me i s = (t, s')"
  shows "s_runners s' = s_runners s" and "s_workers s' = s_workers s"
    and "\<not> is_terminated (s_workers s me) \<Longrightarrow> t = None \<and> s' = s"
    and "s_waits s' = s_waits s \<or> s_waits s' = s_waits s @ [(me, min_wait_time (s_workers s me))]"
    and "s_threads s' = s_threads s"
    and "\<And>x. t = Some x \<Longrightarrow> \<exists>p c. task_unit x = Some (RunIdle c p)"
  using assms
  by (auto simp: after_scan_def Let_def Task_new_def split: if_splits option.splits)

text \<open>
  A call without immediate tasks takes nothing, or one task from the back runner of one group, which
  it records with its group; a terminated worker may take an idle task instead.
\<close>

definition took :: "sys \<Rightarrow> task option \<Rightarrow> sys \<Rightarrow> nat \<Rightarrow> bool" where
  "took s t s' me \<longleftrightarrow>
     (\<forall>r. pending_tasks (s_runners s' r) = pending_tasks (s_runners s r))
       \<and> (\<forall>x. t = Some x \<longrightarrow> is_terminated (s_workers s me) \<and> (\<exists>c p. task_unit x = Some (RunIdle c p)))
   \<or> (\<exists>x r g. t = Some x \<and> g \<in># groups_of (s_workers s me) \<and> g \<noteq> [] \<and> r = last g
       \<and> local_runner (s_threads s' me) = Some r \<and> curr_group (s_threads s' me) = g
       \<and> pending_tasks (s_runners s r) = add_mset (Some x) (pending_tasks (s_runners s' r))
       \<and> (\<forall>r'. r' \<noteq> r \<longrightarrow> pending_tasks (s_runners s' r') = pending_tasks (s_runners s r')))"

lemma GetNextTask_took:
  assumes "\<forall>r. tr_ok (s_runners s r)" and "GetNextTask clk me s = Inr (t, s')"
    and "immediate_task_queue (s_workers s me) = []"
  shows "took s t s' me" and "\<forall>r. tr_ok (s_runners s' r)"
proof -
  obtain R1 w1 found sc where prep: "prepare_groups (s_runners s) (s_workers s me) = Inr (R1, w1)"
    and scan: "scan_groups clk (clk (s_clock s)) (running_groups w1) (scan_start clk s R1 w1) = Inr (found, sc)"
    and res: "(case found of
            Some (x, runner, g) \<Rightarrow> t = Some x \<and> s' = set_thread me
              ((s_threads s me)\<lparr>curr_group := g, local_runner := Some runner\<rparr>) (scan_end me s w1 sc)
          | None \<Rightarrow> (t, s') = after_scan me (sc_idle sc) (scan_end me s w1 sc))"
    by (rule GetNextTask_elim [OF assms(2,3)])
  note p = prepare_groups_spec [OF prep]
  note same = same_tasksD [OF p(6)]
  have ok1: "\<forall>r. tr_ok (sc_runners (scan_start clk s R1 w1) r)"
    using assms(1) same(2) by (simp add: scan_start_def)
  note scanned = scan_groups_tasks [OF ok1 scan]
  have sr: "scan_result (s_runners s) found (sc_runners sc)"
  proof (rule scan_result_pending)
    show "\<forall>r. pending_tasks (R1 r) = pending_tasks (s_runners s r)" using same(1) by blast
    show "scan_result R1 found (sc_runners sc)" using scanned by (simp add: scan_start_def)
  qed
  show "took s t s' me" and "\<forall>r. tr_ok (s_runners s' r)"
  proof (atomize (full), cases found)
    case None
    then have after: "after_scan me (sc_idle sc) (scan_end me s w1 sc) = (t, s')" using res by simp
    have "\<forall>x. t = Some x \<longrightarrow> is_terminated (s_workers s me) \<and> (\<exists>c p. task_unit x = Some (RunIdle c p))"
      using after_scan_keeps(3,6) [OF after] p(3) by fastforce
    then show "took s t s' me \<and> (\<forall>r. tr_ok (s_runners s' r))"
      using sr None after_scan_keeps(1) [OF after] by (simp add: took_def scan_result_def)
  next
    case (Some f)
    obtain x r g where f: "f = (x, r, g)" by (cases f)
    then have s': "t = Some x" "s' = set_thread me
        ((s_threads s me)\<lparr>curr_group := g, local_runner := Some r\<rparr>) (scan_end me s w1 sc)"
      using Some res by simp_all
    have g: "g \<in> set (running_groups w1)" "g \<noteq> []" "r = last g" using scanned Some f by auto
    have "g \<in># groups_of (s_workers s me)"
      using g(1) unfolding p(2) [symmetric] by (simp add: groups_of_def)
    then show "took s t s' me \<and> (\<forall>r. tr_ok (s_runners s' r))"
      using sr Some f s' g by (auto simp: took_def scan_result_def)
  qed
qed

text \<open>
  The task comes from the first group, in the order of the preparation, whose back runner has one
  ready.
\<close>

lemma GetNextTask_first:
  assumes "\<forall>r. tr_ok (s_runners s r)" and "GetNextTask clk me s = Inr (Some t, s')"
    and "immediate_task_queue (s_workers s me) = []" and "\<not> is_terminated (s_workers s me)"
    and "distinct (concat (running_groups (s_workers s' me)))"
  shows "\<exists>as bs. running_groups (s_workers s' me) = as @ curr_group (s_threads s' me) # bs
      \<and> (\<forall>h \<in> set as. task_queue (s_runners s' (last h)) = [])"
    and "running_groups (s_workers s' me) =
      (if need_balance (s_workers s me) then pending_groups (s_workers s me) else [])
        @ sort_key (group_load (s_runners s)) (running_groups (s_workers s me))"
proof -
  obtain R1 w1 found sc where prep: "prepare_groups (s_runners s) (s_workers s me) = Inr (R1, w1)"
    and scan: "scan_groups clk (clk (s_clock s)) (running_groups w1) (scan_start clk s R1 w1) = Inr (found, sc)"
    and res: "(case found of
            Some (x, runner, g) \<Rightarrow> Some t = Some x \<and> s' = set_thread me
              ((s_threads s me)\<lparr>curr_group := g, local_runner := Some runner\<rparr>) (scan_end me s w1 sc)
          | None \<Rightarrow> (Some t, s') = after_scan me (sc_idle sc) (scan_end me s w1 sc))"
    by (rule GetNextTask_elim [OF assms(2,3)])
  note p = prepare_groups_spec [OF prep]
  have ok1: "\<forall>r. tr_ok (sc_runners (scan_start clk s R1 w1) r)"
    using assms(1) same_tasksD(2) [OF p(6)] by (simp add: scan_start_def)
  have "found \<noteq> None"
  proof
    assume "found = None"
    then have "after_scan me (sc_idle sc) (scan_end me s w1 sc) = (Some t, s')" using res by simp
    from after_scan_keeps(3) [OF this] show False using assms(4) p(3) by simp
  qed
  then obtain r g where f: "found = Some (t, r, g)"
    and s': "s' = set_thread me
        ((s_threads s me)\<lparr>curr_group := g, local_runner := Some r\<rparr>) (scan_end me s w1 sc)"
    using res by (cases found) auto
  then show "running_groups (s_workers s' me) =
      (if need_balance (s_workers s me) then pending_groups (s_workers s me) else [])
        @ sort_key (group_load (s_runners s)) (running_groups (s_workers s me))"
    using p(1) by simp
  show "\<exists>as bs. running_groups (s_workers s' me) = as @ curr_group (s_threads s' me) # bs
      \<and> (\<forall>h \<in> set as. task_queue (s_runners s' (last h)) = [])"
    using scan_groups_first [OF ok1 _ scan [unfolded f]] assms(5) s' by simp
qed

lemma after_scan_waits:
  assumes "after_scan me i s = (t, s')"
  shows "s_waits s' = s_waits s \<or>
    (\<exists>d. s_waits s' = s_waits s @ [(me, d)] \<and> WaitFor d (s_workers s' me) = NoWait)"
proof (cases "is_terminated (s_workers s me)")
  case False
  then show ?thesis using after_scan_keeps(3) [OF assms] by simp
next
  case True
  then have "WaitFor d (s_workers s' me) = NoWait" for d
    using after_scan_keeps(2) [OF assms] by (simp add: WaitFor_def)
  then show ?thesis using after_scan_keeps(4) [OF assms] by blast
qed

text \<open>No call ever blocks: a worker waits only once it is terminated, when \<open>WaitFor\<close> returns at once.\<close>

lemma GetNextTask_never_blocks:
  assumes "GetNextTask clk me s = Inr (t, s')"
  shows "s_waits s' = s_waits s \<or>
    (\<exists>d. s_waits s' = s_waits s @ [(me, d)] \<and> WaitFor d (s_workers s' me) = NoWait)"
proof (cases "immediate_task_queue (s_workers s me)")
  case (Cons u us)
  then show ?thesis using assms by (auto simp: GetNextTask_immediate set_worker_def)
next
  case Nil
  obtain R1 w1 found sc where
    res: "(case found of
            Some (x, runner, g) \<Rightarrow> t = Some x \<and> s' = set_thread me
              ((s_threads s me)\<lparr>curr_group := g, local_runner := Some runner\<rparr>) (scan_end me s w1 sc)
          | None \<Rightarrow> (t, s') = after_scan me (sc_idle sc) (scan_end me s w1 sc))"
    by (rule GetNextTask_elim [OF assms Nil])
  show ?thesis
  proof (cases found)
    case (Some f)
    then show ?thesis using res by (cases f) simp
  next
    case None
    then have after: "after_scan me (sc_idle sc) (scan_end me s w1 sc) = (t, s')" using res by simp
    show ?thesis using after_scan_waits [OF after] by simp
  qed
qed

lemma GetNextTask_terminated:
  assumes "GetNextTask clk me s = Inr (t, s')" and "is_terminated (s_workers s me)"
  shows "is_terminated (s_workers s' me)"
proof (cases "immediate_task_queue (s_workers s me)")
  case (Cons u us)
  then show ?thesis using assms by (auto simp: GetNextTask_immediate set_worker_def)
next
  case Nil
  obtain R1 w1 found sc where prep: "prepare_groups (s_runners s) (s_workers s me) = Inr (R1, w1)"
    and res: "(case found of
            Some (x, runner, g) \<Rightarrow> t = Some x \<and> s' = set_thread me
              ((s_threads s me)\<lparr>curr_group := g, local_runner := Some runner\<rparr>) (scan_end me s w1 sc)
          | None \<Rightarrow> (t, s') = after_scan me (sc_idle sc) (scan_end me s w1 sc))"
    by (rule GetNextTask_elim [OF assms(1) Nil])
  have "is_terminated w1" using prepare_groups_spec(3) [OF prep] assms(2) by simp
  then show ?thesis using res after_scan_keeps(2) [of me "sc_idle sc" "scan_end me s w1 sc" t s']
    by (cases found) auto
qed

end
