(* ===== verification/Fs_Worker_Progress.thy ===== *)
theory Fs_Worker_Progress
  imports Fs_Worker_Facts
begin

text \<open>
  When a worker makes progress and when it does not: the rounds of an idle worker, the idle tasks it
  drops, the faults an empty group leads to, the conditions under which a call returns, the time that
  is charged to the runners, and the draining of a terminated worker.
\<close>

section \<open>Idle workers\<close>

text \<open>
  A runner with nothing to run: no task, delayed or not.  A worker whose groups hold only such
  runners finds nothing.
\<close>

definition quiet :: "task_runner \<Rightarrow> bool" where
  "quiet r \<longleftrightarrow> task_queue r = [] \<and> delayed_task_queue r = []"

lemma GetNext_quiet: "quiet r \<Longrightarrow> GetNext now r = (None, r)"
  by (simp add: quiet_def GetNext_def popTaskFromDelayedQueueNoLock_def dq_top_def PopTask_def)

lemma scan_miss_quiet:
  assumes "quiet (sc_runners sc f)" and "td_ok (sc_min_wait sc)" and "idle_task_queue (sc_runners sc f) = []"
  shows "scan_miss now f sc = Inr sc"
proof -
  have idle: "PopIdleTask (sc_runners sc f) = (None, sc_runners sc f)"
    using assms(3) by (simp add: PopIdleTask_def)
  have wait: "GetNextTimeDelta now (sc_runners sc f) = Inr td_Max"
    using assms(1) by (simp add: GetNextTimeDelta_def quiet_def dq_top_def)
  have "\<not> td_Max < sc_min_wait sc" using td_Max_greatest [OF assms(2)] by simp
  then show ?thesis
    by (cases "sc_idle sc") (simp_all add: scan_miss_def idle wait fun_upd_idem)
qed

lemma scan_groups_quiet:
  assumes "\<forall>g \<in> set gs. g \<noteq> [] \<and> (\<forall>r \<in> set g. quiet (sc_runners sc r) \<and> idle_task_queue (sc_runners sc r) = [])"
    and "td_ok (sc_min_wait sc)"
  shows "scan_groups clk now gs sc = Inr (None, sc\<lparr>sc_clock := sc_clock sc + length gs\<rparr>)"
  using assms
proof (induction gs arbitrary: sc)
  case Nil
  then show ?case by simp
next
  case (Cons g gs)
  then have g: "g \<noteq> []" "quiet (sc_runners sc (last g))" "quiet (sc_runners sc (hd g))"
    "idle_task_queue (sc_runners sc (hd g)) = []" by auto
  let ?sc = "sc\<lparr>sc_clock := Suc (sc_clock sc)\<rparr>"
  have "scan_miss now (hd g) ?sc = Inr ?sc"
    by (rule scan_miss_quiet) (use g Cons.prems in simp_all)
  moreover have "scan_groups clk now gs ?sc = Inr (None, ?sc\<lparr>sc_clock := sc_clock ?sc + length gs\<rparr>)"
    by (rule Cons.IH) (use Cons.prems in simp_all)
  ultimately show ?case using g GetNext_quiet by (simp add: scan_groups_Cons Let_def)
qed

text \<open>Rounds of \<open>RunTask\<close>, as the loop of a worker that is not terminated makes them.\<close>

fun run_tasks :: "(nat \<Rightarrow> exec_code \<Rightarrow> sys \<Rightarrow> sys res) \<Rightarrow> clock \<Rightarrow> nat \<Rightarrow> nat \<Rightarrow> sys \<Rightarrow> sys res" where
  "run_tasks exec clk me 0 s = Inr s"
| "run_tasks exec clk me (Suc n) s = bind_res (RunTask exec clk me s) (\<lambda>(b, s'). run_tasks exec clk me n s')"

text \<open>
  Nothing to do, and nothing to arrange: no balance is due, and several groups are in the order of their loads, which
  fit their type.
\<close>

definition all_quiet :: "sys \<Rightarrow> nat \<Rightarrow> bool" where
  "all_quiet s me \<longleftrightarrow> (let w = s_workers s me; load = group_load (s_runners s) in
     \<not> is_terminated w \<and> immediate_task_queue w = [] \<and> \<not> need_balance w \<and> td_ok (min_wait_time w)
     \<and> (length (running_groups w) \<le> 1
          \<or> sorted (map load (running_groups w)) \<and> (\<forall>g \<in> set (running_groups w). in_i64 (load g)))
     \<and> (\<forall>g \<in> set (running_groups w). g \<noteq> []
          \<and> (\<forall>r \<in> set g. quiet (s_runners s r) \<and> idle_task_queue (s_runners s r) = [])))"

lemma prepare_groups_sorted:
  assumes "\<not> need_balance w" and "[] \<notin> set (running_groups w)"
    and "length (running_groups w) \<le> 1
      \<or> sorted (map (group_load R) (running_groups w)) \<and> (\<forall>g \<in> set (running_groups w). in_i64 (group_load R g))"
  shows "prepare_groups R w = Inr (R, w)"
proof (cases "length (running_groups w) > 1")
  case True
  have "sort_key (group_load R) (running_groups w) = running_groups w"
    using True assms(3) by (auto intro: sort_key_id_if_sorted)
  then have "SortNoLock R w = Inr w"
    using True assms(2,3) by (auto simp: SortNoLock_def list_ex_iff list_all_iff)
  then show ?thesis using True assms(1) by (simp add: prepare_groups_def)
qed (use assms(1) in \<open>simp add: prepare_groups_def\<close>)

lemma RunTask_quiet:
  assumes "all_quiet s me"
  shows "RunTask exec clk me s =
    Inr (True, s\<lparr>s_clock := s_clock s + 1 + length (running_groups (s_workers s me))\<rparr>)"
proof -
  let ?w = "s_workers s me"
  have prep: "prepare_groups (s_runners s) ?w = Inr (s_runners s, ?w)"
    using assms by (intro prepare_groups_sorted) (auto simp: all_quiet_def Let_def)
  have "scan_groups clk (clk (s_clock s)) (running_groups ?w) (scan_start clk s (s_runners s) ?w)
     = Inr (None, (scan_start clk s (s_runners s) ?w)
              \<lparr>sc_clock := sc_clock (scan_start clk s (s_runners s) ?w) + length (running_groups ?w)\<rparr>)"
    by (rule scan_groups_quiet) (use assms in \<open>auto simp: all_quiet_def Let_def scan_start_def\<close>)
  then have "GetNextTask clk me s =
      Inr (None, s\<lparr>s_clock := s_clock s + 1 + length (running_groups ?w)\<rparr>)"
    using assms prep
    by (simp add: GetNextTask_scan all_quiet_def Let_def scan_end_def scan_start_def set_worker_def
        after_scan_def)
  then show ?thesis using assms by (simp add: RunTask_def all_quiet_def Let_def)
qed

lemma run_tasks_quiet:
  "all_quiet s me \<Longrightarrow> run_tasks exec clk me n s =
     Inr (s\<lparr>s_clock := s_clock s + n * (1 + length (running_groups (s_workers s me)))\<rparr>)"
proof (induction n arbitrary: s)
  case 0
  then show ?case by simp
next
  case (Suc n)
  let ?s = "s\<lparr>s_clock := s_clock s + 1 + length (running_groups (s_workers s me))\<rparr>"
  have "all_quiet ?s me" using Suc.prems by (simp add: all_quiet_def)
  then show ?case using Suc.IH [of ?s] RunTask_quiet [OF Suc.prems] by (simp add: algebra_simps)
qed

lemma RunLoop_quiet:
  "all_quiet s me \<Longrightarrow> RunLoop exec clk me n s = None"
proof (induction n arbitrary: s)
  case 0
  then show ?case by simp
next
  case (Suc n)
  let ?s = "s\<lparr>s_clock := s_clock s + 1 + length (running_groups (s_workers s me))\<rparr>"
  have "all_quiet ?s me" using Suc.prems by (simp add: all_quiet_def)
  moreover have "\<not> is_terminated (s_workers s me)" using Suc.prems by (simp add: all_quiet_def Let_def)
  ultimately show ?case using Suc.IH [of ?s] RunTask_quiet [OF Suc.prems] by simp
qed

text \<open>An idle task of a worker that is not terminated is taken off its queue and never run.\<close>

lemma GetNextTask_drops_idle:
  assumes "immediate_task_queue (s_workers s me) = []" and "\<not> need_balance (s_workers s me)"
    and "running_groups (s_workers s me) = [[f]]" and "\<not> is_terminated (s_workers s me)"
    and "td_ok (min_wait_time (s_workers s me))"
    and "quiet (s_runners s f)" and "idle_task_queue (s_runners s f) = Some i # is"
  shows "\<exists>s'. GetNextTask clk me s = Inr (None, s') \<and> idle_task_queue (s_runners s' f) = is
    \<and> RunTask exec clk me s = Inr (True, s')"
proof -
  let ?w = "s_workers s me"
  have prep: "prepare_groups (s_runners s) ?w = Inr (s_runners s, ?w)"
    using assms by (simp add: prepare_groups_def)
  let ?f = "(s_runners s f)\<lparr>idle_task_queue := is\<rparr>"
  let ?R = "(s_runners s)(f := ?f)"
  have "scan_groups clk (clk (s_clock s)) [[f]] (scan_start clk s (s_runners s) ?w)
      = Inr (None, (scan_start clk s ?R ?w)\<lparr>sc_idle := Some i, sc_clock := Suc (Suc (s_clock s))\<rparr>)"
    using assms(6,7) GetNext_quiet [OF assms(6)] leD [OF td_Max_greatest [OF assms(5)]]
    by (simp add: scan_groups_Cons scan_start_def scan_miss_def PopIdleTask_def GetNextTimeDelta_def
        quiet_def dq_top_def Let_def fun_upd_idem)
  then have g: "GetNextTask clk me s = Inr (None, scan_end me s ?w
      ((scan_start clk s ?R ?w)\<lparr>sc_idle := Some i, sc_clock := Suc (Suc (s_clock s))\<rparr>))"
    using assms prep by (simp add: GetNextTask_scan after_scan_def Let_def)
  then show ?thesis using assms(4)
    by (simp add: RunTask_def Let_def scan_start_def)
qed

section \<open>Faults and safety\<close>

text \<open>With an empty group among several, the next call aborts in the comparator.\<close>

lemma GetNextTask_empty_group:
  assumes "immediate_task_queue (s_workers s me) = []" and "length (running_groups (s_workers s me)) > 1"
    and "[] \<in> set (running_groups (s_workers s me))"
  shows "GetNextTask clk me s = Inl CheckFailed"
proof -
  have "list_ex (\<lambda>g. g = []) (running_groups (s_workers s me))"
    using assms(3) by (auto simp: list_ex_iff)
  then have "SortNoLock (s_runners s) (s_workers s me) = Inl CheckFailed"
    using assms(2) by (simp add: SortNoLock_def)
  then show ?thesis using assms by (simp add: GetNextTask_scan prepare_groups_def)
qed

lemma erase_in_groups_app:
  "(\<forall>g \<in> set as. \<forall>r \<in> set g. \<not> p r) \<Longrightarrow> p r \<Longrightarrow> erase_in_groups p (as @ (r # rs) # bs) = Some (as @ rs # bs)"
  by (induction as) (auto simp: list_ex_iff)

lemma UnBind_empties:
  assumes "running_groups w = as @ [r] # bs"
    and "\<forall>g \<in> set as. \<forall>q \<in> set g. GetId (R q) \<noteq> GetId (R r)"
  shows "UnBind R r w = w\<lparr>running_groups := as @ [] # bs\<rparr>"
  using assms erase_in_groups_app [of as "\<lambda>q. GetId (R q) = GetId (R r)" r "[]" bs]
  by (simp add: UnBind_def)

text \<open>
  Conditions under which a call returns: no empty group, loads that fit their type, and a clock and
  deadlines that are not negative (the steady clock counts from a point in the past).
\<close>

definition deadlines_ok :: "task_runner \<Rightarrow> bool" where
  "deadlines_ok r \<longleftrightarrow> (\<forall>e \<in> set (delayed_task_queue r). 0 \<le> ticks (fst e) \<and> tp_ok (fst e))"

definition clock_ok :: "clock \<Rightarrow> bool" where
  "clock_ok clk \<longleftrightarrow> (\<forall>n. 0 \<le> ticks (clk n) \<and> tp_ok (clk n))"

lemma GetNext_deadlines:
  assumes "tr_ok r" and "deadlines_ok r" and "GetNext now r = (t, r')"
  shows "deadlines_ok r'"
proof -
  obtain es q where g: "gather now r = r\<lparr>task_queue := task_queue r @ map snd es, delayed_task_queue := q\<rparr>"
    and es: "mset es = filter_mset (due now) (mset (delayed_task_queue r))"
    and q: "mset q = filter_mset (\<lambda>e. \<not> due now e) (mset (delayed_task_queue r))"
    by (rule gather_spec [OF assms(1), of now])
  have "set q \<subseteq> set (delayed_task_queue r)" using arg_cong [OF q, of set_mset] by auto
  moreover have "delayed_task_queue r' = q"
    using assms(3) by (auto simp: g GetNext_gather PopTask_def split: list.splits)
  ultimately show ?thesis using assms(2) by (auto simp: deadlines_ok_def)
qed

lemma scan_miss_returns:
  assumes "0 \<le> ticks now" and "tp_ok now" and "deadlines_ok (sc_runners sc f)" and "td_ok (sc_min_wait sc)"
  shows "\<exists>sc'. scan_miss now f sc = Inr sc' \<and> td_ok (sc_min_wait sc')"
proof -
  obtain i f' where pop: "PopIdleTask (sc_runners sc f) = (i, f')"
    by (cases "PopIdleTask (sc_runners sc f)")
  define sc2 where "sc2 = (case sc_idle sc of Some _ \<Rightarrow> sc
     | None \<Rightarrow> let (i, f') = PopIdleTask (sc_runners sc f)
               in sc\<lparr>sc_runners := (sc_runners sc)(f := f'), sc_idle := i\<rparr>)"
  have sc2: "delayed_task_queue (sc_runners sc2 f) = delayed_task_queue (sc_runners sc f)"
    "sc_min_wait sc2 = sc_min_wait sc"
    using PopIdleTask_tasks [OF pop] by (simp_all add: sc2_def pop split: option.split)
  have eq: "scan_miss now f sc = bind_res (GetNextTimeDelta now (sc_runners sc2 f)) (\<lambda>d.
      if sc_min_wait sc2 > d then bind_res (tp_plus now d) (\<lambda>n.
        Inr (sc2\<lparr>sc_min_wait := d, sc_next := n\<rparr>)) else Inr sc2)"
    by (simp only: scan_miss_def sc2_def Let_def)
  show ?thesis
  proof (cases "delayed_task_queue (sc_runners sc f)")
    case Nil
    then have "GetNextTimeDelta now (sc_runners sc2 f) = Inr td_Max"
      using sc2 by (simp add: GetNextTimeDelta_def dq_top_def)
    then show ?thesis using eq sc2 assms(4) leD [OF td_Max_greatest [OF assms(4)]] by simp
  next
    case (Cons e es)
    then have d: "0 \<le> ticks (fst e)" "tp_ok (fst e)" using assms(3) by (simp_all add: deadlines_ok_def)
    then have r: "in_i64 (ticks (fst e) - ticks now)"
      using assms(1,2) by (simp add: tp_ok_def in_i64_def)
    then have "GetNextTimeDelta now (sc_runners sc2 f) = Inr (TimeDelta (ticks (fst e) - ticks now))"
      using sc2 Cons by (cases e) (simp add: GetNextTimeDelta_def dq_top_def tp_diff_def td_FromNanoseconds_def)
    moreover have "tp_plus now (TimeDelta (ticks (fst e) - ticks now)) = Inr (fst e)"
      using d by (simp add: tp_plus_Inr_iff tp_ok_def)
    ultimately show ?thesis using eq sc2 assms(4) r by (simp add: td_ok_def)
  qed
qed

lemma scan_groups_returns:
  assumes "[] \<notin> set gs" and "clock_ok clk" and "0 \<le> ticks now" and "tp_ok now"
    and "\<forall>r. tr_ok (sc_runners sc r) \<and> deadlines_ok (sc_runners sc r)" and "td_ok (sc_min_wait sc)"
  shows "returns (scan_groups clk now gs sc)"
  using assms(1,5,6)
proof (induction gs arbitrary: sc)
  case Nil
  then show ?case by simp
next
  case (Cons g gs)
  obtain t r' where gn: "GetNext (clk (sc_clock sc)) (sc_runners sc (last g)) = (t, r')"
    by (cases "GetNext (clk (sc_clock sc)) (sc_runners sc (last g))")
  define sc1 where
    "sc1 = sc\<lparr>sc_runners := (sc_runners sc)(last g := r'), sc_clock := Suc (sc_clock sc)\<rparr>"
  have ok1: "\<forall>r. tr_ok (sc_runners sc1 r) \<and> deadlines_ok (sc_runners sc1 r)"
    using Cons.prems(2) tr_ok_GetNext [OF _ gn] GetNext_deadlines [OF _ _ gn] by (simp add: sc1_def)
  obtain sc2 where m: "scan_miss now (hd g) sc1 = Inr sc2" and w: "td_ok (sc_min_wait sc2)"
    using scan_miss_returns [OF assms(3,4), of sc1 "hd g"] ok1 Cons.prems(3) by (auto simp: sc1_def)
  have "same_tasks (sc_runners sc1) (sc_runners sc2)" using scan_miss_spec [OF m] by simp
  then have "\<forall>r. tr_ok (sc_runners sc2 r) \<and> deadlines_ok (sc_runners sc2 r)"
    using ok1 same_tasksD(2,4) by (simp add: deadlines_ok_def)
  then have "returns (scan_groups clk now gs sc2)" using Cons.IH Cons.prems(1) w by simp
  then show ?case using Cons.prems(1) gn m
    by (cases t) (auto simp: scan_groups_Cons sc1_def)
qed

lemma prepare_groups_returns:
  assumes "no_empty_group w" and "\<forall>g \<in> set (running_groups w). in_i64 (group_load R g)"
  shows "\<exists>R' w'. prepare_groups R w = Inr (R', w')"
proof -
  let ?w = "w\<lparr>running_groups := sort_key (group_load R) (running_groups w)\<rparr>"
  have "\<exists>w1. (if length (running_groups w) > 1 then SortNoLock R w else Inr w) = Inr w1
      \<and> [] \<notin> set (running_groups w1)"
    using assms by (auto simp: SortNoLock_def no_empty_group_def list_all_iff list_ex_iff)
  then obtain w1 where w1: "(if length (running_groups w) > 1 then SortNoLock R w else Inr w) = Inr w1"
    and ne: "[] \<notin> set (running_groups w1)" by blast
  have "returns (BalanceNoLock R w1)"
  proof (cases "running_groups w1")
    case (Cons g gs)
    then show ?thesis using ne by (cases g) (auto simp: BalanceNoLock_def)
  qed (simp add: BalanceNoLock_def)
  then show ?thesis using w1 by (auto simp: prepare_groups_def returns_def)
qed

lemma GetNextTask_ok:
  assumes "no_empty_group (s_workers s me)"
    and "\<forall>g \<in> set (running_groups (s_workers s me)). in_i64 (group_load (s_runners s) g)"
    and "td_ok (min_wait_time (s_workers s me))" and "clock_ok clk"
    and "\<forall>r. tr_ok (s_runners s r) \<and> deadlines_ok (s_runners s r)"
  shows "returns (GetNextTask clk me s)"
proof (cases "immediate_task_queue (s_workers s me)")
  case (Cons t ts)
  then show ?thesis by (simp add: GetNextTask_immediate)
next
  case Nil
  obtain R1 w1 where prep: "prepare_groups (s_runners s) (s_workers s me) = Inr (R1, w1)"
    using prepare_groups_returns [OF assms(1,2)] by blast
  note p = prepare_groups_spec [OF prep]
  have "set (running_groups w1) \<subseteq> set (running_groups (s_workers s me)) \<union> set (pending_groups (s_workers s me))"
    using p(1) by auto
  then have "[] \<notin> set (running_groups w1)" using assms(1) by (auto simp: no_empty_group_def)
  moreover have "\<forall>r. tr_ok (R1 r) \<and> deadlines_ok (R1 r)"
    using assms(5) same_tasksD(2,4) [OF p(6)] by (simp add: deadlines_ok_def)
  moreover have "0 \<le> ticks (clk (s_clock s))" "tp_ok (clk (s_clock s))"
    using assms(4) by (simp_all add: clock_ok_def)
  ultimately have "returns (scan_groups clk (clk (s_clock s)) (running_groups w1) (scan_start clk s R1 w1))"
    using assms(3,4) p(5) by (intro scan_groups_returns) (simp_all add: scan_start_def)
  then show ?thesis using Nil prep
    by (auto simp: GetNextTask_scan returns_def split: option.split)
qed

section \<open>Accounting\<close>

text \<open>Each runner of the current group is charged the time from \<open>begin\<close> to a reading of its own.\<close>

lemma bill_group_spec:
  "bill_group clk begin g s = Inr s' \<Longrightarrow> distinct g \<Longrightarrow>
     s_clock s' = s_clock s + length g
     \<and> (\<forall>i < length g. time_used (s_runners s' (g ! i)) =
          TimeDelta (delta (time_used (s_runners s (g ! i))) + (ticks (clk (s_clock s + i)) - ticks begin)))
     \<and> (\<forall>r. r \<notin> set g \<longrightarrow> s_runners s' r = s_runners s r)"
proof (induction g arbitrary: s)
  case Nil
  then show ?case by simp
next
  case (Cons r g)
  let ?now = "clk (s_clock s)"
  define t where "t = TimeDelta (delta (time_used (s_runners s r)) + (ticks ?now - ticks begin))"
  define s1 where "s1 = set_runner r ((s_runners s r)\<lparr>time_used := t\<rparr>) (s\<lparr>s_clock := Suc (s_clock s)\<rparr>)"
  have "bill_group clk begin g s1 = Inr s'"
    using Cons.prems(1)
    by (auto simp: Now_def Let_def bind_res_Inr_iff tp_diff_Inr_iff AddTime_def td_plus_Inr_iff s1_def t_def)
  from Cons.IH [OF this] Cons.prems(2) have IH: "s_clock s' = s_clock s1 + length g"
    "\<forall>i < length g. time_used (s_runners s' (g ! i)) =
          TimeDelta (delta (time_used (s_runners s1 (g ! i))) + (ticks (clk (s_clock s1 + i)) - ticks begin))"
    "\<forall>q. q \<notin> set g \<longrightarrow> s_runners s' q = s_runners s1 q" by simp_all
  have s1: "s_clock s1 = Suc (s_clock s)" "s_runners s1 = (s_runners s)(r := (s_runners s r)\<lparr>time_used := t\<rparr>)"
    by (simp_all add: s1_def set_runner_def)
  have "time_used (s_runners s' ((r # g) ! i)) =
      TimeDelta (delta (time_used (s_runners s ((r # g) ! i))) + (ticks (clk (s_clock s + i)) - ticks begin))"
    if "i < length (r # g)" for i
  proof (cases i)
    case 0
    then show ?thesis using IH(3) Cons.prems(2) s1 by (simp add: t_def)
  next
    case (Suc j)
    then have "g ! j \<noteq> r" using that Cons.prems(2) by auto
    then show ?thesis using IH(2) that Suc s1 by simp
  qed
  then show ?case using IH s1 by simp
qed

section \<open>Draining\<close>

text \<open>
  A terminated worker that must not exit immediately runs what is left.  \<open>work\<close> counts it; every round
  that goes on takes something away, so the loop ends unless the tasks themselves post new ones.
\<close>

definition work :: "task_runner \<Rightarrow> nat" where
  "work r = size (pending_tasks r) + length (idle_task_queue r)"

definition members :: "worker \<Rightarrow> nat set" where
  "members w = \<Union> (set ` set_mset (groups_of w))"

definition total_work :: "nat \<Rightarrow> sys \<Rightarrow> nat" where
  "total_work me s = length (immediate_task_queue (s_workers s me))
     + (\<Sum>r \<in> members (s_workers s me). work (s_runners s r))"

lemma finite_members [simp]: "finite (members w)"
  by (simp add: members_def)

lemma GetNext_work:
  assumes "tr_ok r" and "GetNext now r = (t, r')"
  shows "work r' = (if t = None then work r else work r - 1)" and "t \<noteq> None \<Longrightarrow> work r' < work r"
proof -
  have "idle_task_queue (gather now r) = idle_task_queue r"
    using gather_spec [OF assms(1), of now] by (metis task_runner.select_convs(2) task_runner.surjective task_runner.update_convs(1,3))
  then have i: "idle_task_queue r' = idle_task_queue r"
    using assms(2) by (auto simp: GetNext_gather PopTask_def split: list.splits)
  then show "work r' = (if t = None then work r else work r - 1)" and "t \<noteq> None \<Longrightarrow> work r' < work r"
    using GetNext_pending [OF assms] by (auto simp: work_def)
qed

lemma scan_miss_work:
  assumes "scan_miss now f sc = Inr sc'"
  shows "work (sc_runners sc' r) \<le> work (sc_runners sc r)"
    and "sc_idle sc = None \<Longrightarrow> sc_idle sc' \<noteq> None \<Longrightarrow> work (sc_runners sc' f) < work (sc_runners sc f)"
proof -
  obtain i f' where pop: "PopIdleTask (sc_runners sc f) = (i, f')"
    by (cases "PopIdleTask (sc_runners sc f)")
  then have f': "work f' \<le> work (sc_runners sc f)" "i \<noteq> None \<Longrightarrow> work f' < work (sc_runners sc f)"
    by (auto simp: PopIdleTask_def work_def pending_tasks_def split: list.splits)
  define sc2 where "sc2 = (case sc_idle sc of Some _ \<Rightarrow> sc
     | None \<Rightarrow> let (i, f') = PopIdleTask (sc_runners sc f)
               in sc\<lparr>sc_runners := (sc_runners sc)(f := f'), sc_idle := i\<rparr>)"
  have sc2: "sc_runners sc' = sc_runners sc2 \<and> sc_idle sc' = sc_idle sc2"
    using assms by (auto simp: scan_miss_def sc2_def Let_def bind_res_Inr_iff split: if_splits)
  have "sc_idle sc = None \<Longrightarrow> sc2 = sc\<lparr>sc_runners := (sc_runners sc)(f := f'), sc_idle := i\<rparr>"
    and "sc_idle sc \<noteq> None \<Longrightarrow> sc2 = sc"
    using pop by (auto simp: sc2_def)
  then show "work (sc_runners sc' r) \<le> work (sc_runners sc r)"
    and "sc_idle sc = None \<Longrightarrow> sc_idle sc' \<noteq> None \<Longrightarrow> work (sc_runners sc' f) < work (sc_runners sc f)"
    using sc2 f' by (cases "sc_idle sc"; simp)+
qed

lemma scan_groups_work:
  "\<forall>r. tr_ok (sc_runners sc r) \<Longrightarrow> scan_groups clk now gs sc = Inr (found, sc') \<Longrightarrow>
     (\<forall>r. work (sc_runners sc' r) \<le> work (sc_runners sc r))
     \<and> (found \<noteq> None \<or> sc_idle sc = None \<and> sc_idle sc' \<noteq> None \<longrightarrow>
          (\<exists>g \<in> set gs. \<exists>r \<in> set g. work (sc_runners sc' r) < work (sc_runners sc r)))"
proof (induction gs arbitrary: sc)
  case Nil
  then show ?case by auto
next
  case (Cons g gs)
  have ne: "g \<noteq> []" using Cons.prems(2) by (auto simp: scan_groups_Cons)
  then have gl: "last g \<in> set g" "hd g \<in> set g" by simp_all
  obtain t r' where gn: "GetNext (clk (sc_clock sc)) (sc_runners sc (last g)) = (t, r')"
    by (cases "GetNext (clk (sc_clock sc)) (sc_runners sc (last g))")
  define sc1 where
    "sc1 = sc\<lparr>sc_runners := (sc_runners sc)(last g := r'), sc_clock := Suc (sc_clock sc)\<rparr>"
  have ok: "tr_ok (sc_runners sc (last g))" using Cons.prems(1) by simp
  have ok1: "\<forall>r. tr_ok (sc_runners sc1 r)"
    using Cons.prems(1) tr_ok_GetNext [OF ok gn] by (simp add: sc1_def)
  note w = GetNext_work [OF ok gn]
  have le1: "work (sc_runners sc1 r) \<le> work (sc_runners sc r)" for r using w by (simp add: sc1_def)
  show ?case
  proof (cases t)
    case (Some x)
    then have "found = Some (x, last g, g)" "sc' = sc1"
      using Cons.prems(2) gn ne by (simp_all add: scan_groups_Cons sc1_def)
    moreover have "work (sc_runners sc1 (last g)) < work (sc_runners sc (last g))"
      using w(2) Some by (simp add: sc1_def)
    ultimately show ?thesis using le1 gl(1) by auto
  next
    case None
    then obtain sc2 where m: "scan_miss now (hd g) sc1 = Inr sc2"
      and rest: "scan_groups clk now gs sc2 = Inr (found, sc')"
      using Cons.prems(2) gn ne by (auto simp: scan_groups_Cons sc1_def)
    have ok2: "\<forall>r. tr_ok (sc_runners sc2 r)"
      using ok1 scan_miss_spec [OF m] same_tasksD(2) by blast
    note IH = Cons.IH [OF ok2 rest]
    have le: "work (sc_runners sc' r) \<le> work (sc_runners sc2 r)"
      "work (sc_runners sc2 r) \<le> work (sc_runners sc r)" for r
      using IH scan_miss_work(1) [OF m] le1 order_trans by blast+
    have "\<exists>h \<in> set (g # gs). \<exists>r \<in> set h. work (sc_runners sc' r) < work (sc_runners sc r)"
      if "found \<noteq> None \<or> sc_idle sc = None \<and> sc_idle sc' \<noteq> None"
    proof (cases "sc_idle sc = None \<and> sc_idle sc2 \<noteq> None")
      case True
      then have "work (sc_runners sc2 (hd g)) < work (sc_runners sc1 (hd g))"
        using scan_miss_work(2) [OF m] by (simp add: sc1_def)
      then have "work (sc_runners sc' (hd g)) < work (sc_runners sc (hd g))"
        using le(1) le1 by (meson le_less_trans less_le_trans)
      then show ?thesis using gl(2) by auto
    next
      case False
      then have "found \<noteq> None \<or> sc_idle sc2 = None \<and> sc_idle sc' \<noteq> None"
        using that scan_miss_spec [OF m] by (auto simp: sc1_def)
      then obtain h r where "h \<in> set gs" "r \<in> set h" "work (sc_runners sc' r) < work (sc_runners sc2 r)"
        using IH by blast
      then show ?thesis using le(2) less_le_trans by fastforce
    qed
    then show ?thesis using le order_trans by blast
  qed
qed

lemma GetNextTask_work:
  assumes "\<forall>r. tr_ok (s_runners s r)" and "is_terminated (s_workers s me)"
    and "GetNextTask clk me s = Inr (Some t, s')"
  shows "total_work me s' < total_work me s" and "is_terminated (s_workers s' me)"
    and "is_exit_immediately (s_workers s' me) = is_exit_immediately (s_workers s me)"
    and "\<forall>r. tr_ok (s_runners s' r)"
proof -
  have "total_work me s' < total_work me s \<and> is_terminated (s_workers s' me) \<and> (\<forall>r. tr_ok (s_runners s' r))
      \<and> is_exit_immediately (s_workers s' me) = is_exit_immediately (s_workers s me)"
  proof (cases "immediate_task_queue (s_workers s me)")
    case (Cons u us)
    then have "s' = set_worker me ((s_workers s me)\<lparr>immediate_task_queue := us\<rparr>) s"
      using assms(3) by (simp add: GetNextTask_immediate)
    then show ?thesis using Cons assms
      by (simp add: total_work_def set_worker_def members_def groups_of_def)
  next
    case Nil
    obtain R1 w1 found sc where prep: "prepare_groups (s_runners s) (s_workers s me) = Inr (R1, w1)"
      and scan: "scan_groups clk (clk (s_clock s)) (running_groups w1) (scan_start clk s R1 w1) = Inr (found, sc)"
      and res: "(case found of
              Some (x, runner, g) \<Rightarrow> Some t = Some x \<and> s' = set_thread me
                ((s_threads s me)\<lparr>curr_group := g, local_runner := Some runner\<rparr>) (scan_end me s w1 sc)
            | None \<Rightarrow> (Some t, s') = after_scan me (sc_idle sc) (scan_end me s w1 sc))"
      by (rule GetNextTask_elim [OF assms(3) Nil])
    note p = prepare_groups_spec [OF prep]
    have idle1: "idle_task_queue (R1 r) = idle_task_queue (s_runners s r)" for r
      using prepare_groups_keeps(1) [OF prep] .
    have ok1: "\<forall>r. tr_ok (sc_runners (scan_start clk s R1 w1) r)"
      using assms(1) same_tasksD(2) [OF p(6)] by (simp add: scan_start_def)
    have work1: "work (R1 r) = work (s_runners s r)" for r
      using idle1 same_tasksD(1) [OF p(6)] by (simp add: work_def)
    note sw = scan_groups_work [OF ok1 scan]
    have s': "s_runners s' = sc_runners sc \<and> s_workers s' me =
        w1\<lparr>min_wait_time := sc_min_wait sc, next_task_time := sc_next sc\<rparr>
        \<and> (found \<noteq> None \<or> sc_idle sc \<noteq> None)"
    proof (cases found)
      case (Some f)
      then show ?thesis using res by (cases f) simp
    next
      case None
      then have after: "after_scan me (sc_idle sc) (scan_end me s w1 sc) = (Some t, s')" using res by simp
      then have "sc_idle sc \<noteq> None"
        by (auto simp: after_scan_def Let_def split: if_splits option.splits)
      then show ?thesis using after_scan_keeps(1,2) [OF after] by simp
    qed
    then obtain g r where g: "g \<in> set (running_groups w1)" "r \<in> set g"
      and less: "work (s_runners s' r) < work (s_runners s r)"
      using sw work1 by (auto simp: scan_start_def)
    have m: "members (s_workers s' me) = members (s_workers s me)"
      using s' p(2) by (simp add: members_def groups_of_def)
    have "g \<in># groups_of (s_workers s me)"
      using g(1) unfolding p(2) [symmetric] by (simp add: groups_of_def)
    then have "r \<in> members (s_workers s me)" using g(2) by (auto simp: members_def)
    then have "(\<Sum>r \<in> members (s_workers s me). work (s_runners s' r))
        < (\<Sum>r \<in> members (s_workers s me). work (s_runners s r))"
      using less sw s' work1
      by (intro sum_strict_mono_ex1) (auto simp: scan_start_def)
    moreover have "\<forall>r. tr_ok (s_runners s' r)" by (rule GetNextTask_took(2) [OF assms(1,3) Nil])
    moreover have "is_exit_immediately w1 = is_exit_immediately (s_workers s me)"
      using prepare_groups_keeps(2) [OF prep] .
    ultimately show ?thesis using s' m p assms(2) Nil by (simp add: total_work_def)
  qed
  then show "total_work me s' < total_work me s" and "is_terminated (s_workers s' me)"
    and "is_exit_immediately (s_workers s' me) = is_exit_immediately (s_workers s me)"
    and "\<forall>r. tr_ok (s_runners s' r)" by blast+
qed

text \<open>Charging time does not touch the queues.\<close>

lemma bill_group_keeps:
  "bill_group clk begin g s = Inr s' \<Longrightarrow> s_workers s' = s_workers s
     \<and> work (s_runners s' r) = work (s_runners s r) \<and> tr_ok (s_runners s' r) = tr_ok (s_runners s r)"
proof (induction g arbitrary: s)
  case Nil
  then show ?case by simp
next
  case (Cons q g)
  then obtain d tr where t: "AddTime d (s_runners s q) = Inr tr"
    and b: "bill_group clk begin g (set_runner q tr (s\<lparr>s_clock := Suc (s_clock s)\<rparr>)) = Inr s'"
    by (auto simp: Now_def Let_def)
  have "work tr = work (s_runners s q)" "tr_ok tr = tr_ok (s_runners s q)"
    using t by (auto simp: AddTime_def work_def pending_tasks_def tr_ok_def)
  then show ?case using Cons.IH [OF b] by (auto simp: set_runner_def)
qed

definition posts_nothing :: "(nat \<Rightarrow> exec_code \<Rightarrow> sys \<Rightarrow> sys res) \<Rightarrow> bool" where
  "posts_nothing exec \<longleftrightarrow> (\<forall>me c s s'. exec me c s = Inr s' \<longrightarrow>
     s_workers s' = s_workers s \<and> s_runners s' = s_runners s)"

lemma RunTask_work:
  assumes "posts_nothing exec" and "\<forall>r. tr_ok (s_runners s r)" and "is_terminated (s_workers s me)"
    and "RunTask exec clk me s = Inr (True, s')"
  shows "total_work me s' < total_work me s \<and> is_terminated (s_workers s' me) \<and> (\<forall>r. tr_ok (s_runners s' r))
    \<and> is_exit_immediately (s_workers s' me) = is_exit_immediately (s_workers s me)"
proof -
  obtain t s1 where g: "GetNextTask clk me s = Inr (t, s1)"
    using assms(4) by (auto simp: RunTask_def)
  have t: "t \<noteq> None"
  proof
    assume "t = None"
    then have "\<not> is_terminated (s_workers s1 me)" using assms(4) g by (auto simp: RunTask_def)
    moreover have "is_terminated (s_workers s1 me)" by (rule GetNextTask_terminated [OF g assms(3)])
    ultimately show False by simp
  qed
  then obtain x where x: "t = Some x" by blast
  note w = GetNextTask_work [OF assms(2,3) g [unfolded x]]
  define s2 where "s2 = set_running me True (s1\<lparr>s_clock := Suc (s_clock s1)\<rparr>)"
  obtain s3 where run: "Task_Run (exec me) x s2 = Inr s3"
    and bill: "bill_group clk (clk (s_clock s1)) (curr_group (s_threads (set_running me False s3) me))
       (set_running me False s3) = Inr s'"
    using assms(4) g x by (auto simp: RunTask_def Now_def Let_def s2_def)
  have "s_workers s3 = s_workers s2 \<and> s_runners s3 = s_runners s2"
    using run assms(1) by (auto simp: Task_Run_def posts_nothing_def split: option.splits)
  then have "s_workers s3 = s_workers s1 \<and> s_runners s3 = s_runners s1"
    by (simp add: s2_def set_running_def)
  then show ?thesis using bill_group_keeps [OF bill] w
    by (simp add: total_work_def set_running_def)
qed

lemma RunLoop_drains:
  "posts_nothing exec \<Longrightarrow> \<forall>r. tr_ok (s_runners s r) \<Longrightarrow> is_terminated (s_workers s me) \<Longrightarrow>
   \<not> is_exit_immediately (s_workers s me) \<Longrightarrow> total_work me s < fuel \<Longrightarrow>
     RunLoop exec clk me fuel s \<noteq> None"
proof (induction fuel arbitrary: s)
  case 0
  then show ?case by simp
next
  case (Suc fuel)
  show ?case
  proof (cases "RunTask exec clk me s")
    case (Inl f)
    then show ?thesis using Suc.prems by simp
  next
    case (Inr r)
    obtain again s' where r: "r = (again, s')" by (cases r)
    show ?thesis
    proof (cases again)
      case False
      then show ?thesis using Inr r Suc.prems by simp
    next
      case True
      have w: "total_work me s' < total_work me s \<and> is_terminated (s_workers s' me) \<and> (\<forall>r. tr_ok (s_runners s' r))
        \<and> is_exit_immediately (s_workers s' me) = is_exit_immediately (s_workers s me)"
        using RunTask_work [OF Suc.prems(1-3)] Inr r True by simp
      then have "RunLoop exec clk me fuel s' \<noteq> None"
        using Suc.prems by (intro Suc.IH) auto
      then show ?thesis using Inr r True Suc.prems(4) by simp
    qed
  qed
qed

end
