(* ===== verification/Fs_Worker_Rounds.thy ===== *)
theory Fs_Worker_Rounds
  imports Fs_Worker_Progress
begin

text \<open>
  Whole rounds of a worker: how far the times that runners have used can grow in a round, when charging them does not
  overflow, who is charged from when to when, and that a terminated worker drains its queues without a fault.
\<close>

section \<open>Times of runners\<close>

definition times_within :: "int \<Rightarrow> runners \<Rightarrow> bool" where
  "times_within B R \<longleftrightarrow> (\<forall>r. \<bar>delta (time_used (R r))\<bar> \<le> B)"

definition clock_within :: "int \<Rightarrow> clock \<Rightarrow> bool" where
  "clock_within H clk \<longleftrightarrow> (\<forall>n. 0 \<le> ticks (clk n) \<and> ticks (clk n) \<le> H)"

lemma clock_within_ok: "clock_within H clk \<Longrightarrow> H < 2 ^ 63 \<Longrightarrow> clock_ok clk"
  unfolding clock_within_def clock_ok_def tp_ok_def in_i64_def
  by (intro allI) (metis le_less_trans neg_le_0_iff_le order_trans zero_le_numeral zero_le_power)

lemma times_within_mono: "times_within B R \<Longrightarrow> B \<le> C \<Longrightarrow> times_within C R"
  by (auto simp: times_within_def intro: order_trans)

text \<open>Looking for a task charges nobody, and keeps the priorities.\<close>

definition same_charge :: "runners \<Rightarrow> runners \<Rightarrow> bool" where
  "same_charge R R' \<longleftrightarrow> (\<forall>r. time_used (R' r) = time_used (R r) \<and> priority (R' r) = priority (R r))"

lemma same_charge_refl [simp]: "same_charge R R"
  by (simp add: same_charge_def)

lemma same_charge_trans: "same_charge R R' \<Longrightarrow> same_charge R' R'' \<Longrightarrow> same_charge R R''"
  by (simp add: same_charge_def)

lemma same_charge_upd:
  "time_used tr = time_used (R r) \<Longrightarrow> priority tr = priority (R r) \<Longrightarrow> same_charge R (R(r := tr))"
  by (simp add: same_charge_def)

lemma GetNext_charge:
  assumes "tr_ok r" and "GetNext now r = (t, r')"
  shows "time_used r' = time_used r \<and> priority r' = priority r"
proof -
  have "time_used (gather now r) = time_used r \<and> priority (gather now r) = priority r"
    by (rule gather_spec [OF assms(1), of now]) simp
  then show ?thesis using assms(2) by (auto simp: GetNext_gather PopTask_def split: list.splits)
qed

lemma scan_miss_charge:
  assumes "scan_miss now f sc = Inr sc'"
  shows "same_charge (sc_runners sc) (sc_runners sc')"
proof -
  obtain i f' where pop: "PopIdleTask (sc_runners sc f) = (i, f')" by (cases "PopIdleTask (sc_runners sc f)")
  then have "time_used f' = time_used (sc_runners sc f) \<and> priority f' = priority (sc_runners sc f)"
    by (auto simp: PopIdleTask_def split: list.splits)
  then show ?thesis
    using assms pop by (auto simp: scan_miss_def same_charge_def Let_def split: option.splits if_splits)
qed

lemma scan_groups_charge:
  "\<forall>r. tr_ok (sc_runners sc r) \<Longrightarrow> scan_groups clk now gs sc = Inr (found, sc') \<Longrightarrow>
     same_charge (sc_runners sc) (sc_runners sc')"
proof (induction gs arbitrary: sc)
  case Nil
  then show ?case by simp
next
  case (Cons g gs)
  obtain t r' where g: "GetNext (clk (sc_clock sc)) (sc_runners sc (last g)) = (t, r')"
    by (cases "GetNext (clk (sc_clock sc)) (sc_runners sc (last g))")
  define sc1 where "sc1 = sc\<lparr>sc_runners := (sc_runners sc)(last g := r'), sc_clock := Suc (sc_clock sc)\<rparr>"
  have ok1: "\<forall>r. tr_ok (sc_runners sc1 r)" using Cons.prems(1) tr_ok_GetNext [OF _ g] by (simp add: sc1_def)
  have c1: "same_charge (sc_runners sc) (sc_runners sc1)"
    using Cons.prems(1) GetNext_charge [OF _ g] by (simp add: sc1_def same_charge_upd)
  have run: "(case t of Some x \<Rightarrow> Inr (Some (x, last g, g), sc1)
      | None \<Rightarrow> bind_res (scan_miss now (hd g) sc1) (scan_groups clk now gs)) = Inr (found, sc')"
    using Cons.prems(2) unfolding sc1_def by (simp add: scan_groups_Cons g Let_def split: if_splits)
  show ?case
  proof (cases t)
    case (Some x)
    then show ?thesis using run c1 by auto
  next
    case None
    then obtain sc2 where m: "scan_miss now (hd g) sc1 = Inr sc2" and rest: "scan_groups clk now gs sc2 = Inr (found, sc')"
      using run by auto
    have "\<forall>r. tr_ok (sc_runners sc2 r)" using ok1 same_tasksD(2) scan_miss_spec [OF m] by blast
    then show ?thesis
      using Cons.IH [OF _ rest] scan_miss_charge [OF m] c1 same_charge_trans by blast
  qed
qed

text \<open>A balance gives newly bound groups the time of another runner, or none.\<close>

lemma prepare_groups_times:
  assumes "prepare_groups R w = Inr (R', w')" and "times_within B R"
  shows "times_within B R' \<and> (\<forall>r. priority (R' r) = priority (R r))"
proof -
  have "\<bar>delta (time_used (R 0))\<bar> \<le> B" using assms(2) by (simp add: times_within_def)
  then have "0 \<le> B" by linarith
  then show ?thesis
    using assms
    by (auto simp: prepare_groups_def BalanceNoLock_def set_times_apply SetTime_def times_within_def GetTime_def
        td_const_defs split: if_splits list.splits)
qed

lemma GetNextTask_times:
  assumes "\<forall>r. tr_ok (s_runners s r)" and "GetNextTask clk me s = Inr (t, s')" and "times_within B (s_runners s)"
  shows "times_within B (s_runners s') \<and> (\<forall>r. priority (s_runners s' r) = priority (s_runners s r))"
proof (cases "immediate_task_queue (s_workers s me)")
  case (Cons u us)
  then show ?thesis using assms(2,3) by (auto simp: GetNextTask_immediate set_worker_def)
next
  case Nil
  obtain R1 w1 found sc where prep: "prepare_groups (s_runners s) (s_workers s me) = Inr (R1, w1)"
    and scan: "scan_groups clk (clk (s_clock s)) (running_groups w1) (scan_start clk s R1 w1) = Inr (found, sc)"
    and res: "(case found of
            Some (x, runner, g) \<Rightarrow> t = Some x \<and> s' = set_thread me
              ((s_threads s me)\<lparr>curr_group := g, local_runner := Some runner\<rparr>) (scan_end me s w1 sc)
          | None \<Rightarrow> (t, s') = after_scan me (sc_idle sc) (scan_end me s w1 sc))"
    by (rule GetNextTask_elim [OF assms(2) Nil])
  have s': "s_runners s' = sc_runners sc"
    using res after_scan_keeps(1) [of me "sc_idle sc" "scan_end me s w1 sc" t s']
    by (auto split: option.splits prod.splits)
  have "\<forall>r. tr_ok (sc_runners (scan_start clk s R1 w1) r)"
    using assms(1) same_tasksD(2) [OF prepare_groups_spec(6) [OF prep]] by (simp add: scan_start_def)
  from scan_groups_charge [OF this scan] prepare_groups_times [OF prep assms(3)]
  show ?thesis by (simp add: s' same_charge_def scan_start_def times_within_def)
qed

section \<open>Charging\<close>

lemma bill_group_returns:
  assumes "distinct g" and "\<forall>r \<in> set g. \<bar>delta (time_used (s_runners s r))\<bar> \<le> B"
    and "times_within (B + H) (s_runners s)" and "clock_within H clk"
    and "0 \<le> ticks begin" and "ticks begin \<le> H" and "B + H < 2 ^ 63" and "0 \<le> B"
  shows "\<exists>s'. bill_group clk begin g s = Inr s' \<and> times_within (B + H) (s_runners s')
    \<and> (\<forall>r. priority (s_runners s' r) = priority (s_runners s r)) \<and> s_threads s' = s_threads s
    \<and> s_workers s' = s_workers s"
  using assms(1-3)
proof (induction g arbitrary: s)
  case Nil
  then show ?case by simp
next
  case (Cons r g)
  let ?now = "clk (s_clock s)"
  let ?d = "TimeDelta (ticks ?now - ticks begin)"
  let ?t = "TimeDelta (delta (time_used (s_runners s r)) + (ticks ?now - ticks begin))"
  have now: "0 \<le> ticks ?now" "ticks ?now \<le> H" using assms(4) by (simp_all add: clock_within_def)
  have old: "\<bar>delta (time_used (s_runners s r))\<bar> \<le> B" using Cons.prems(2) by simp
  have d: "tp_diff ?now begin = Inr ?d"
    using now assms(5-8) by (simp add: tp_diff_Inr_iff in_i64_def)
  have le: "\<bar>delta ?t\<bar> \<le> B + H" using now old assms(5,6) by auto
  define tr where "tr = (s_runners s r)\<lparr>time_used := ?t\<rparr>"
  have a: "AddTime ?d (s_runners s r) = Inr tr"
    using le assms(7) by (auto simp: AddTime_def td_plus_def td_FromNanoseconds_def i64_def in_i64_def tr_def)
  let ?s = "set_runner r tr (s\<lparr>s_clock := Suc (s_clock s)\<rparr>)"
  have b: "bill_group clk begin (r # g) s = bill_group clk begin g ?s"
    using d a by (simp add: Now_def set_runner_def)
  have "times_within (B + H) (s_runners ?s)"
    using Cons.prems(3) le by (simp add: times_within_def set_runner_def tr_def)
  moreover have "\<forall>q \<in> set g. \<bar>delta (time_used (s_runners ?s q))\<bar> \<le> B"
    using Cons.prems(1,2) by (auto simp: set_runner_def)
  ultimately obtain s' where s': "bill_group clk begin g ?s = Inr s'" "times_within (B + H) (s_runners s')"
    "\<forall>q. priority (s_runners s' q) = priority (s_runners ?s q)" "s_threads s' = s_threads ?s"
    "s_workers s' = s_workers ?s"
    using Cons.IH [of ?s] Cons.prems(1) by auto
  then show ?case unfolding b by (auto simp: set_runner_def tr_def)
qed

text \<open>
  A round that runs a task: the task comes from the back runner of a group; when it has run, each runner of that group
  is charged the time from the reading of the clock before the task to a reading of its own.
\<close>

definition keeps_group :: "(nat \<Rightarrow> exec_code \<Rightarrow> sys \<Rightarrow> sys res) \<Rightarrow> bool" where
  "keeps_group exec \<longleftrightarrow> (\<forall>me c s s'. exec me c s = Inr s' \<longrightarrow>
     curr_group (s_threads s' me) = curr_group (s_threads s me))"

lemma Task_Run_group:
  "keeps_group exec \<Longrightarrow> Task_Run (exec me) t s = Inr s' \<Longrightarrow> curr_group (s_threads s' me) = curr_group (s_threads s me)"
  by (auto simp: Task_Run_def keeps_group_def split: option.splits)

lemma bill_group_threads: "bill_group clk begin g s = Inr s' \<Longrightarrow> s_threads s' = s_threads s"
  by (induction g arbitrary: s) (auto simp: Now_def set_runner_def)

lemma RunTask_charges:
  assumes "RunTask exec clk me s = Inr (b, s')" and "GetNextTask clk me s = Inr (Some t, s1)"
    and "immediate_task_queue (s_workers s me) = []" and "\<not> is_terminated (s_workers s me)"
    and "\<forall>r. tr_ok (s_runners s r)" and "\<forall>g \<in># groups_of (s_workers s me). distinct g" and "keeps_group exec"
  shows "\<exists>s3 g. Task_Run (exec me) t (set_running me True (snd (Now clk s1))) = Inr s3
    \<and> g \<in># groups_of (s_workers s me)
    \<and> pending_tasks (s_runners s (last g)) = add_mset (Some t) (pending_tasks (s_runners s1 (last g)))
    \<and> (\<forall>i < length g. time_used (s_runners s' (g ! i)) =
         TimeDelta (delta (time_used (s_runners s3 (g ! i))) + (ticks (clk (s_clock s3 + i)) - ticks (clk (s_clock s1)))))
    \<and> (\<forall>r. r \<notin> set g \<longrightarrow> s_runners s' r = s_runners s3 r)
    \<and> \<not> is_task_running (s_threads s' me)"
proof -
  let ?s2 = "set_running me True (snd (Now clk s1))"
  obtain s3 where run: "Task_Run (exec me) t ?s2 = Inr s3"
    and bill: "bill_group clk (clk (s_clock s1)) (curr_group (s_threads (set_running me False s3) me))
       (set_running me False s3) = Inr s'"
    using assms(1,2) by (auto simp: RunTask_def Now_def Let_def)
  have "took s (Some t) s1 me" by (rule GetNextTask_took(1) [OF assms(5,2,3)])
  then obtain g where g: "g \<in># groups_of (s_workers s me)" "curr_group (s_threads s1 me) = g"
    "pending_tasks (s_runners s (last g)) = add_mset (Some t) (pending_tasks (s_runners s1 (last g)))"
    using assms(4) by (auto simp: took_def)
  have "curr_group (s_threads s3 me) = g"
    using Task_Run_group [OF assms(7) run] g(2) by (simp add: set_running_def Now_def)
  then have b: "bill_group clk (clk (s_clock s1)) g (set_running me False s3) = Inr s'"
    using bill by (simp add: set_running_def)
  have "distinct g" using assms(6) g(1) by blast
  from bill_group_spec [OF b this] have
    "(\<forall>i < length g. time_used (s_runners s' (g ! i)) =
         TimeDelta (delta (time_used (s_runners s3 (g ! i))) + (ticks (clk (s_clock s3 + i)) - ticks (clk (s_clock s1)))))
    \<and> (\<forall>r. r \<notin> set g \<longrightarrow> s_runners s' r = s_runners s3 r)" by (simp add: set_running_def)
  moreover have "\<not> is_task_running (s_threads s' me)"
    using bill_group_threads [OF b] by (simp add: set_running_def)
  ultimately show ?thesis using run g by blast
qed

section \<open>Rounds that return\<close>

lemma scan_miss_calm:
  assumes "scan_miss now f sc = Inr sc'"
  shows "deadlines_ok (sc_runners sc' r) = deadlines_ok (sc_runners sc r)"
    and "td_ok (sc_min_wait sc) \<Longrightarrow> td_ok (sc_min_wait sc')"
proof -
  show "deadlines_ok (sc_runners sc' r) = deadlines_ok (sc_runners sc r)"
    using same_tasksD(4) [of "sc_runners sc" "sc_runners sc'" r] scan_miss_spec [OF assms] by (simp add: deadlines_ok_def)
  have "td_ok d" if "GetNextTimeDelta now x = Inr d" for x d
    using that td_op_ok(4) by (auto simp: GetNextTimeDelta_def split: option.splits)
  then show "td_ok (sc_min_wait sc')" if "td_ok (sc_min_wait sc)"
    using assms that by (auto simp: scan_miss_def Let_def bind_res_Inr_iff split: option.splits prod.splits if_splits)
qed

lemma scan_groups_calm:
  "\<forall>r. tr_ok (sc_runners sc r) \<and> deadlines_ok (sc_runners sc r) \<Longrightarrow> td_ok (sc_min_wait sc) \<Longrightarrow>
   scan_groups clk now gs sc = Inr (found, sc') \<Longrightarrow>
     (\<forall>r. deadlines_ok (sc_runners sc' r)) \<and> td_ok (sc_min_wait sc')
     \<and> ((\<exists>g \<in> set gs. task_queue (sc_runners sc (last g)) \<noteq> []) \<longrightarrow> found \<noteq> None)"
proof (induction gs arbitrary: sc)
  case Nil
  then show ?case by simp
next
  case (Cons g gs)
  obtain t r' where gn: "GetNext (clk (sc_clock sc)) (sc_runners sc (last g)) = (t, r')"
    by (cases "GetNext (clk (sc_clock sc)) (sc_runners sc (last g))")
  define sc1 where "sc1 = sc\<lparr>sc_runners := (sc_runners sc)(last g := r'), sc_clock := Suc (sc_clock sc)\<rparr>"
  have ok1: "\<forall>r. tr_ok (sc_runners sc1 r) \<and> deadlines_ok (sc_runners sc1 r)" "td_ok (sc_min_wait sc1)"
    using Cons.prems(1,2) tr_ok_GetNext [OF _ gn] GetNext_deadlines [OF _ _ gn] by (simp_all add: sc1_def)
  have run: "(case t of Some x \<Rightarrow> Inr (Some (x, last g, g), sc1)
      | None \<Rightarrow> bind_res (scan_miss now (hd g) sc1) (scan_groups clk now gs)) = Inr (found, sc')"
    using Cons.prems(3) unfolding sc1_def by (simp add: scan_groups_Cons gn Let_def split: if_splits)
  show ?case
  proof (cases t)
    case (Some x)
    then show ?thesis using run ok1 by auto
  next
    case None
    then obtain sc2 where m: "scan_miss now (hd g) sc1 = Inr sc2" and rest: "scan_groups clk now gs sc2 = Inr (found, sc')"
      using run by auto
    have s2: "same_tasks (sc_runners sc1) (sc_runners sc2)" using scan_miss_spec [OF m] by simp
    have q: "task_queue (sc_runners sc (last g)) = []"
    proof -
      have "task_queue (gather (clk (sc_clock sc)) (sc_runners sc (last g))) = []"
        using gn None gather_pending(2) Cons.prems(1) PopTask_pending(1) [of _ None r'] by (simp add: GetNext_gather)
      moreover have "tr_ok (sc_runners sc (last g))" using Cons.prems(1) by simp
      then obtain es :: "(time_point \<times> task option) list" and q where "gather (clk (sc_clock sc)) (sc_runners sc (last g)) = (sc_runners sc (last g))
          \<lparr>task_queue := task_queue (sc_runners sc (last g)) @ map snd es, delayed_task_queue := q\<rparr>"
        by (rule gather_spec [of _ "clk (sc_clock sc)"]) blast
      ultimately show ?thesis by simp
    qed
    have "task_queue (sc_runners sc2 (last h)) = task_queue (sc_runners sc (last h))" if "last h \<noteq> last g" for h
      using same_tasksD(3) [OF s2] that by (simp add: sc1_def)
    then have "\<exists>h \<in> set gs. task_queue (sc_runners sc2 (last h)) \<noteq> []"
      if "\<exists>h \<in> set (g # gs). task_queue (sc_runners sc (last h)) \<noteq> []"
      using that q by (metis set_ConsD)
    moreover have "\<forall>r. tr_ok (sc_runners sc2 r) \<and> deadlines_ok (sc_runners sc2 r)" "td_ok (sc_min_wait sc2)"
      using ok1 same_tasksD(2) [OF s2] scan_miss_calm [OF m] by simp_all
    ultimately show ?thesis using Cons.IH [OF _ _ rest] by blast
  qed
qed


section \<open>Draining without a fault\<close>

text \<open>A scan that finds nothing leaves the back runners with an empty queue.\<close>

lemma scan_groups_none:
  "\<forall>r. tr_ok (sc_runners sc r) \<Longrightarrow> scan_groups clk now gs sc = Inr (None, sc') \<Longrightarrow>
     (\<forall>g \<in> set gs. task_queue (sc_runners sc' (last g)) = [])
     \<and> (\<forall>r. task_queue (sc_runners sc r) = [] \<longrightarrow> task_queue (sc_runners sc' r) = [])"
proof (induction gs arbitrary: sc)
  case Nil
  then show ?case by simp
next
  case (Cons g gs)
  obtain t r' where gn: "GetNext (clk (sc_clock sc)) (sc_runners sc (last g)) = (t, r')"
    by (cases "GetNext (clk (sc_clock sc)) (sc_runners sc (last g))")
  define sc1 where "sc1 = sc\<lparr>sc_runners := (sc_runners sc)(last g := r'), sc_clock := Suc (sc_clock sc)\<rparr>"
  have run: "(case t of Some x \<Rightarrow> Inr (Some (x, last g, g), sc1)
      | None \<Rightarrow> bind_res (scan_miss now (hd g) sc1) (scan_groups clk now gs)) = Inr (None, sc')"
    using Cons.prems(2) unfolding sc1_def by (simp add: scan_groups_Cons gn Let_def split: if_splits)
  then have t: "t = None" by (cases t) auto
  obtain sc2 where m: "scan_miss now (hd g) sc1 = Inr sc2" and rest: "scan_groups clk now gs sc2 = Inr (None, sc')"
    using run t by auto
  have ok: "tr_ok (sc_runners sc (last g))" using Cons.prems(1) by simp
  have ok1: "\<forall>r. tr_ok (sc_runners sc1 r)"
    using Cons.prems(1) tr_ok_GetNext [OF ok gn] by (simp add: sc1_def)
  have q: "task_queue r' = []" using GetNext_None_queue [OF ok] gn t by simp
  have s2: "same_tasks (sc_runners sc1) (sc_runners sc2)" using scan_miss_spec [OF m] by simp
  have "task_queue (sc_runners sc2 r) = []" if "task_queue (sc_runners sc r) = [] \<or> r = last g" for r
    using that q same_tasksD(3) [OF s2, of r] by (auto simp: sc1_def)
  moreover have "\<forall>r. tr_ok (sc_runners sc2 r)" using ok1 same_tasksD(2) [OF s2] by simp
  ultimately show ?case using Cons.IH [OF _ rest] by simp
qed

text \<open>
  What must hold of a worker that drains: it is terminated, the groups and deadlines are in order, no null task waits,
  and the runners have used no more than \<open>B\<close>.
\<close>

definition drainable :: "int \<Rightarrow> nat \<Rightarrow> sys \<Rightarrow> bool" where
  "drainable B me s \<longleftrightarrow> (let w = s_workers s me in
     is_terminated w \<and> \<not> is_exit_immediately w \<and> None \<notin> set (immediate_task_queue w) \<and> td_ok (min_wait_time w)
     \<and> (\<forall>g \<in># groups_of w. g \<noteq> [] \<and> distinct g) \<and> distinct (curr_group (s_threads s me))
     \<and> (\<forall>r. tr_ok (s_runners s r) \<and> deadlines_ok (s_runners s r)) \<and> times_within B (s_runners s))"

lemma GetNextTask_drainable:
  assumes d: "drainable B me s" and g: "GetNextTask clk me s = Inr (t, s')"
  shows "drainable B me s'"
    and "t = None \<Longrightarrow> immediate_task_queue (s_workers s' me) = []
      \<and> (\<forall>g \<in> set (running_groups (s_workers s' me)). task_queue (s_runners s' (last g)) = [])"
proof -
  note parts = d [unfolded drainable_def Let_def]
  have trs: "\<forall>r. tr_ok (s_runners s r)" using parts by blast
  have "drainable B me s' \<and> (t = None \<longrightarrow> immediate_task_queue (s_workers s' me) = []
      \<and> (\<forall>g \<in> set (running_groups (s_workers s' me)). task_queue (s_runners s' (last g)) = []))"
  proof (cases "immediate_task_queue (s_workers s me)")
    case (Cons u us)
    then have s': "t = u" "s' = set_worker me ((s_workers s me)\<lparr>immediate_task_queue := us\<rparr>) s"
      using g by (simp_all add: GetNextTask_immediate)
    moreover have "u \<noteq> None" "None \<notin> set us" using parts Cons by (cases u; simp)+
    ultimately show ?thesis using parts by (auto simp: drainable_def set_worker_def groups_of_def)
  next
    case Nil
    obtain R1 w1 found sc where prep: "prepare_groups (s_runners s) (s_workers s me) = Inr (R1, w1)"
      and scan: "scan_groups clk (clk (s_clock s)) (running_groups w1) (scan_start clk s R1 w1) = Inr (found, sc)"
      and res: "(case found of
              Some (x, runner, g) \<Rightarrow> t = Some x \<and> s' = set_thread me
                ((s_threads s me)\<lparr>curr_group := g, local_runner := Some runner\<rparr>) (scan_end me s w1 sc)
            | None \<Rightarrow> (t, s') = after_scan me (sc_idle sc) (scan_end me s w1 sc))"
      by (rule GetNextTask_elim [OF g Nil])
    have s': "s_runners s' = sc_runners sc" "s_workers s' = s_workers (scan_end me s w1 sc)"
      using res after_scan_keeps(1,2) [of me "sc_idle sc" "scan_end me s w1 sc" t s']
      by (auto split: option.splits prod.splits)
    note p = prepare_groups_spec [OF prep] and same = same_tasksD [OF prepare_groups_spec(6) [OF prep]]
    have st: "\<forall>r. tr_ok (sc_runners (scan_start clk s R1 w1) r) \<and> deadlines_ok (sc_runners (scan_start clk s R1 w1) r)"
      "td_ok (sc_min_wait (scan_start clk s R1 w1))"
      using parts same(2,4) p(5) by (simp_all add: scan_start_def deadlines_ok_def)
    note sc = scan_groups_calm [OF st scan]
    have "distinct (curr_group (s_threads s' me))"
    proof (cases found)
      case None
      then have "(t, s') = after_scan me (sc_idle sc) (scan_end me s w1 sc)" using res by simp
      then show ?thesis using after_scan_keeps(5) [of me "sc_idle sc" "scan_end me s w1 sc" t s'] parts by simp
    next
      case (Some f)
      obtain x r h where f: "f = (x, r, h)" by (cases f)
      have "h \<in> set (running_groups w1)"
        using scan_groups_tasks [OF _ scan] st(1) Some f by auto
      then have "h \<in># groups_of (s_workers s me)" unfolding p(2) [symmetric] by (simp add: groups_of_def)
      then show ?thesis using res Some f parts by simp
    qed
    moreover have "\<forall>r. tr_ok (s_runners s' r)" by (rule GetNextTask_took(2) [OF trs g Nil])
    moreover have "times_within B (s_runners s')" using GetNextTask_times [OF trs g] parts by blast
    moreover have "groups_of (s_workers s' me) = groups_of (s_workers s me)"
      using p(2) s'(2) by (simp add: groups_of_def)
    moreover have "is_exit_immediately w1 = is_exit_immediately (s_workers s me)" by (rule prepare_groups_keeps(2) [OF prep])
    ultimately have "drainable B me s'" unfolding drainable_def Let_def
      using parts sc p(3,4) Nil s' by simp
    moreover have "(\<forall>g \<in> set (running_groups (s_workers s' me)). task_queue (s_runners s' (last g)) = [])
        \<and> immediate_task_queue (s_workers s' me) = []" if "t = None"
    proof -
      have "found = None" using res that by (cases found) auto
      moreover have "\<forall>r. tr_ok (sc_runners (scan_start clk s R1 w1) r)" using st(1) by blast
      ultimately show ?thesis using scan_groups_none [of "scan_start clk s R1 w1"] scan s' p(4) Nil by simp
    qed
    ultimately show ?thesis by blast
  qed
  then show "drainable B me s'"
    and "t = None \<Longrightarrow> immediate_task_queue (s_workers s' me) = []
      \<and> (\<forall>g \<in> set (running_groups (s_workers s' me)). task_queue (s_runners s' (last g)) = [])" by blast+
qed

text \<open>The tasks that are left return, and leave workers, runners and thread-local variables alone.\<close>

definition harmless :: "(nat \<Rightarrow> exec_code \<Rightarrow> sys \<Rightarrow> sys res) \<Rightarrow> bool" where
  "harmless exec \<longleftrightarrow> (\<forall>me c s. \<exists>s'. exec me c s = Inr s' \<and> s_workers s' = s_workers s
     \<and> s_runners s' = s_runners s \<and> s_threads s' = s_threads s)"

lemma harmless_posts_nothing: "harmless exec \<Longrightarrow> posts_nothing exec"
  unfolding harmless_def posts_nothing_def by (metis sum.inject(2))

lemma Task_Run_harmless:
  "harmless exec \<Longrightarrow> \<exists>s'. Task_Run (exec me) t s = Inr s' \<and> s_workers s' = s_workers s
     \<and> s_runners s' = s_runners s \<and> s_threads s' = s_threads s"
  by (cases "task_unit t") (simp_all add: Task_Run_def harmless_def)

definition priorities_within :: "int \<Rightarrow> runners \<Rightarrow> bool" where
  "priorities_within P R \<longleftrightarrow> (\<forall>r. \<bar>GetPriority (R r)\<bar> \<le> P)"

lemma load_fits:
  assumes "times_within B R" and "priorities_within P R" and "P * B < 2 ^ 63"
  shows "in_i64 (group_load R g)"
proof -
  have a: "\<bar>GetPriority (R (hd g))\<bar> \<le> P" "\<bar>delta (GetTime (R (hd g)))\<bar> \<le> B"
    using assms(1,2) by (simp_all add: priorities_within_def times_within_def GetTime_def)
  have "\<bar>group_load R g\<bar> \<le> P * B"
    unfolding group_load_def td_ToNanoseconds_def abs_mult using a by (intro mult_mono) linarith+
  then show ?thesis using assms(3) by (auto simp: in_i64_def abs_le_iff)
qed

lemma bill_group_deadlines:
  "bill_group clk begin g s = Inr s' \<Longrightarrow> deadlines_ok (s_runners s' r) = deadlines_ok (s_runners s r)"
proof (induction g arbitrary: s)
  case (Cons q g)
  then obtain d tr where t: "AddTime d (s_runners s q) = Inr tr"
    and b: "bill_group clk begin g (set_runner q tr (s\<lparr>s_clock := Suc (s_clock s)\<rparr>)) = Inr s'"
    by (auto simp: Now_def)
  have "deadlines_ok tr = deadlines_ok (s_runners s q)" using t by (auto simp: AddTime_def deadlines_ok_def)
  then show ?case using Cons.IH [OF b] by (auto simp: set_runner_def)
qed simp

lemma RunTask_drainable:
  assumes ex: "harmless exec" and d: "drainable B me s" and p: "priorities_within P (s_runners s)"
    and clk: "clock_within H clk" and P: "1 \<le> P" and fits: "P * (B + H * int (total_work me s)) < 2 ^ 63" and H: "H < 2 ^ 63"
  obtains (runs) s' where "RunTask exec clk me s = Inr (True, s')" "drainable (B + H) me s'"
      "total_work me s' < total_work me s" "priorities_within P (s_runners s')"
  | (ends) s' where "RunTask exec clk me s = Inr (False, s')" "immediate_task_queue (s_workers s' me) = []"
      "\<forall>g \<in> set (running_groups (s_workers s' me)). task_queue (s_runners s' (last g)) = []"
proof -
  note parts = d [unfolded drainable_def Let_def]
  have trs: "\<forall>r. tr_ok (s_runners s r)" using parts by blast
  have "\<bar>delta (time_used (s_runners s 0))\<bar> \<le> B" using parts by (simp add: times_within_def)
  then have B0: "0 \<le> B" by linarith
  have "0 \<le> ticks (clk 0)" "ticks (clk 0) \<le> H" using clk by (simp_all add: clock_within_def)
  then have H0: "0 \<le> H" by linarith
  have le: "P * X < 2 ^ 63" if "X \<le> B + H * int (total_work me s)" for X
    using mult_left_mono [OF that, of P] P fits by linarith
  have "P * B < 2 ^ 63" by (rule le) (use H0 in simp)
  then have "\<forall>g \<in> set (running_groups (s_workers s me)). in_i64 (group_load (s_runners s) g)"
    using load_fits [OF _ p] parts by blast
  moreover have "no_empty_group (s_workers s me)" using parts by (auto simp: no_empty_group_def groups_of_def)
  ultimately have "returns (GetNextTask clk me s)"
    using parts clock_within_ok [OF clk H] by (intro GetNextTask_ok) simp_all
  then obtain t s1 where g: "GetNextTask clk me s = Inr (t, s1)" by (auto simp: returns_def)
  note d1 = GetNextTask_drainable [OF d g]
  note parts1 = d1(1) [unfolded drainable_def Let_def]
  show thesis
  proof (cases t)
    case None
    then have "RunTask exec clk me s = Inr (False, s1)" using g parts1 by (simp add: RunTask_def)
    then show ?thesis using d1(2) [OF None] by (elim conjE) (rule ends)
  next
    case (Some x)
    note w = GetNextTask_work [OF trs _ g [unfolded Some]]
    define s2 where "s2 = set_running me True (s1\<lparr>s_clock := Suc (s_clock s1)\<rparr>)"
    obtain s3 where run: "Task_Run (exec me) x s2 = Inr s3"
      and s3: "s_workers s3 = s_workers s1" "s_runners s3 = s_runners s1" "s_threads s3 = s_threads s2"
      using Task_Run_harmless [OF ex, of me x s2] by (auto simp: s2_def set_running_def)
    let ?s4 = "set_running me False s3" and ?g = "curr_group (s_threads s1 me)"
    have g4: "curr_group (s_threads ?s4 me) = ?g" using s3(3) by (simp add: set_running_def s2_def)
    have t1: "times_within B (s_runners s1)" "distinct ?g" using parts1 by blast+
    have "1 \<le> total_work me s" using w(1) parts by linarith
    then have "H * 1 \<le> H * int (total_work me s)" using H0 by (intro mult_left_mono) simp_all
    then have "P * (B + H) < 2 ^ 63" by (intro le) simp
    moreover have "1 * (B + H) \<le> P * (B + H)" using P B0 H0 by (intro mult_right_mono) simp_all
    ultimately have "B + H < 2 ^ 63" by simp
    moreover have "times_within (B + H) (s_runners ?s4)" "\<forall>r \<in> set ?g. \<bar>delta (time_used (s_runners ?s4 r))\<bar> \<le> B"
      using t1 s3(2) H0 by (auto simp: set_running_def times_within_def intro: add_increasing2)
    ultimately obtain s5 where b: "bill_group clk (clk (s_clock s1)) ?g ?s4 = Inr s5" "times_within (B + H) (s_runners s5)"
        "\<forall>r. priority (s_runners s5 r) = priority (s_runners ?s4 r)" "s_threads s5 = s_threads ?s4"
        "s_workers s5 = s_workers ?s4"
      using bill_group_returns [OF t1(2), of ?s4 B H clk "clk (s_clock s1)"] clk B0
      by (auto simp: clock_within_def)
    have r: "RunTask exec clk me s = Inr (True, s5)"
      using g Some run b(1) g4 by (simp add: RunTask_def Now_def Let_def s2_def)
    have s5: "s_workers s5 = s_workers s1" "distinct (curr_group (s_threads s5 me))"
      using b(4,5) s3 t1(2) g4 by (simp_all add: set_running_def)
    have "tr_ok (s_runners s5 r) \<and> deadlines_ok (s_runners s5 r)" for r
      using bill_group_keeps [OF b(1), of r] bill_group_deadlines [OF b(1), of r] parts1 s3(2) by (simp add: set_running_def)
    then have "drainable (B + H) me s5" using parts1 s5 b(2) by (simp add: drainable_def)
    moreover have "total_work me s5 < total_work me s"
      using RunTask_work [OF harmless_posts_nothing [OF ex] trs _ r] parts by blast
    moreover have "priorities_within P (s_runners s5)"
      using p b(3) s3(2) GetNextTask_times [OF trs g, of B] parts by (simp add: priorities_within_def GetPriority_def set_running_def)
    ultimately show ?thesis using r by (intro runs)
  qed
qed

lemma RunLoop_ends:
  assumes ex: "harmless exec" and clk: "clock_within H clk" and P: "1 \<le> P" and H: "H < 2 ^ 63"
  shows "drainable B me s \<Longrightarrow> priorities_within P (s_runners s) \<Longrightarrow> P * (B + H * int (total_work me s)) < 2 ^ 63 \<Longrightarrow>
    total_work me s < fuel \<Longrightarrow>
      \<exists>s'. RunLoop exec clk me fuel s = Some (Inr s') \<and> immediate_task_queue (s_workers s' me) = []
        \<and> (\<forall>g \<in> set (running_groups (s_workers s' me)). task_queue (s_runners s' (last g)) = [])"
proof (induction fuel arbitrary: s B)
  case 0
  then show ?case by simp
next
  case (Suc fuel)
  have nx: "\<not> is_exit_immediately (s_workers s me)" using Suc.prems(1) by (simp add: drainable_def Let_def)
  from ex Suc.prems(1,2) clk P Suc.prems(3) H show ?case
  proof (cases rule: RunTask_drainable)
    case (runs s')
    have "0 \<le> ticks (clk 0)" "ticks (clk 0) \<le> H" using clk by (simp_all add: clock_within_def)
    then have H0: "0 \<le> H" by linarith
    have "H * (1 + int (total_work me s')) \<le> H * int (total_work me s)"
      using runs(3) H0 by (intro mult_left_mono) simp_all
    then have "B + H + H * int (total_work me s') \<le> B + H * int (total_work me s)" by (simp add: algebra_simps)
    then have "P * (B + H + H * int (total_work me s')) \<le> P * (B + H * int (total_work me s))"
      using P by (intro mult_left_mono) simp_all
    then have fits: "P * (B + H + H * int (total_work me s')) < 2 ^ 63" using Suc.prems(3) by linarith
    have "total_work me s' < fuel" using runs(3) Suc.prems(4) by linarith
    from Suc.IH [OF runs(2,4) fits this] show ?thesis using nx runs(1) by simp
  next
    case (ends s')
    then show ?thesis using nx by simp
  qed
qed

end
