(* ===== verification/Fs_Worker_Manager.thy ===== *)
theory Fs_Worker_Manager
  imports Fs_Worker_Progress
begin

text \<open>
  \<open>include/footstone/worker_manager.h\<close> and \<open>src/footstone/worker_manager.cc\<close>.  A manager holds the
  addresses of its workers in order, an index and a size, both \<open>int\<close>.  The allocator is an input: an
  operation that creates objects gets the address of the first of a block of unused ones.  A
  \<open>shared_ptr\<close> to a worker is its address; the worker's thread starts with its own thread-local
  variables, and its rounds are operations of \<open>Fs_Worker_Loop\<close>.
\<close>

record manager =
  m_workers :: "nat list"
  m_index :: int
  m_size :: int

definition kDefaultSize :: int where
  "kDefaultSize = 3"

text \<open>\<open>workers_[i]\<close>.\<close>

definition worker_at :: "manager \<Rightarrow> int \<Rightarrow> nat res" where
  "worker_at m i =
     (if 0 \<le> i \<and> nat i < length (m_workers m) then Inr (m_workers m ! nat i) else Inl (UB OutOfRange))"

text \<open>The step of the index: \<open>index_ = size - 1 ? 0 : ++index_\<close>.\<close>

definition next_index :: "int \<Rightarrow> int \<Rightarrow> int res" where
  "next_index sz i = (if sz - 1 \<noteq> 0 then Inr 0 else i32 (i + 1))"

section \<open>Creation and termination of the workers\<close>

definition fresh_thread :: thread_locals where
  "fresh_thread =
     \<lparr>local_worker_id = 0, is_task_running = False, local_runner = None, curr_group = []\<rparr>"

text \<open>\<open>ThreadWorker::Start\<close>.\<close>

definition Start :: "nat \<Rightarrow> sys \<Rightarrow> sys" where
  "Start me s = set_thread me fresh_thread s"

definition new_worker :: "u32 \<Rightarrow> nat \<Rightarrow> sys \<Rightarrow> sys" where
  "new_worker indeterminate wk s =
     (set_worker wk (Worker_new indeterminate True '''') s)\<lparr>s_alive := (s_alive s)(wk := True)\<rparr>"

fun create_loop :: "(nat \<Rightarrow> u32) \<Rightarrow> nat \<Rightarrow> nat \<Rightarrow> manager \<times> sys \<Rightarrow> manager \<times> sys" where
  "create_loop mem fresh 0 (m, s) = (m, s)"
| "create_loop mem fresh (Suc n) (m, s) =
     create_loop mem (Suc fresh) n
       (m\<lparr>m_workers := m_workers m @ [fresh]\<rparr>, Start fresh (new_worker (mem fresh) fresh s))"

definition CreateWorkers :: "(nat \<Rightarrow> u32) \<Rightarrow> nat \<Rightarrow> int \<Rightarrow> manager \<times> sys \<Rightarrow> manager \<times> sys" where
  "CreateWorkers mem fresh n ms = create_loop mem fresh (nat n) ms"

definition WorkerManager_new :: "(nat \<Rightarrow> u32) \<Rightarrow> nat \<Rightarrow> int \<Rightarrow> sys \<Rightarrow> manager \<times> sys" where
  "WorkerManager_new mem fresh n s =
     CreateWorkers mem fresh n (\<lparr>m_workers = [], m_index = 0, m_size = n\<rparr>, s)"

definition Manager_Terminate :: "manager \<Rightarrow> sys \<Rightarrow> sys" where
  "Manager_Terminate m s = fold Terminate (m_workers m) s"

text \<open>The singleton \<open>instance_\<close>, created at the first call.\<close>

definition GetDefaultManager ::
    "(nat \<Rightarrow> u32) \<Rightarrow> nat \<Rightarrow> manager option \<times> sys \<Rightarrow> manager \<times> (manager option \<times> sys)" where
  "GetDefaultManager mem fresh ms =
     (case ms of
        (Some m, s) \<Rightarrow> (m, (Some m, s))
      | (None, s) \<Rightarrow> (let (m, s') = WorkerManager_new mem fresh kDefaultSize s in (m, (Some m, s'))))"

section \<open>Moving a runner's storage\<close>

text \<open>
  \<open>MoveTaskRunnerSpecificNoLock\<close> leaves a task at the old worker; run there it takes the two arrays
  and leaves a task at the new worker, which installs them.  The pointers it checks are never null
  here.  \<open>lib_exec\<close> is what the closures of the library do when they run; those of the client are the
  parameter \<open>user\<close>.
\<close>

definition MoveTaskRunnerSpecificNoLock :: "int \<Rightarrow> nat \<Rightarrow> nat \<Rightarrow> sys \<Rightarrow> sys" where
  "MoveTaskRunnerSpecificNoLock rid src dst s =
     (let (t, counter) = Task_new (s_task_counter s) (Some (TakeSpecific rid src dst))
      in (set_worker src (AddImmediateTask (Some t) (s_workers s src)) s)\<lparr>s_task_counter := counter\<rparr>)"

definition run_take :: "int \<Rightarrow> nat \<Rightarrow> nat \<Rightarrow> sys \<Rightarrow> sys res" where
  "run_take rid src dst s =
     check (s_alive s src)
       (let (ks, w1) = GetMovedSpecificKeys rid (s_workers s src);
            (ps, w2) = GetMovedSpecific rid w1;
            s1 = set_worker src w2 s
        in if s_alive s1 dst then
             (let (t, counter) = Task_new (s_task_counter s1) (Some (InstallSpecific rid dst ks ps))
              in Inr ((set_worker dst (AddImmediateTask (Some t) (s_workers s1 dst)) s1)
                   \<lparr>s_task_counter := counter\<rparr>))
           else Inr s1)"

definition run_install :: "int \<Rightarrow> nat \<Rightarrow> worker_key list \<Rightarrow> void_ptr list \<Rightarrow> sys \<Rightarrow> sys res" where
  "run_install rid dst ks ps s =
     (if s_alive s dst
      then Inr (set_worker dst (UpdateSpecific rid ps (UpdateSpecificKeys rid ks (s_workers s dst))) s)
      else Inr s)"

definition lib_exec ::
    "(nat \<Rightarrow> sys \<Rightarrow> sys res) \<Rightarrow> (idle_code \<Rightarrow> idle_cb_param \<Rightarrow> sys \<Rightarrow> sys res) \<Rightarrow> (nat \<Rightarrow> sys \<Rightarrow> sys res)
       \<Rightarrow> nat \<Rightarrow> exec_code \<Rightarrow> sys \<Rightarrow> sys res" where
  "lib_exec user idle timer me c s =
     (case c of
        UserCode n \<Rightarrow> user n s
      | RunIdle i param \<Rightarrow> IdleTask_Run idle i param s
      | TakeSpecific rid src dst \<Rightarrow> run_take rid src dst s
      | InstallSpecific rid dst ks ps \<Rightarrow> run_install rid dst ks ps s
      | TimerInvoke n \<Rightarrow> timer n s)"

section \<open>Runners\<close>

text \<open>\<open>Bind\<close> of one group: the worker's lists, the flag and the notification.\<close>

definition bind_at :: "nat \<Rightarrow> group \<Rightarrow> sys \<Rightarrow> sys res" where
  "bind_at wk g s =
     bind_res (Bind (s_runners s) g (s_workers s wk)) (\<lambda>w. Inr (notify wk (set_worker wk w s)))"

definition bind_list_at :: "nat \<Rightarrow> group list \<Rightarrow> sys \<Rightarrow> sys" where
  "bind_list_at wk gs s = notify wk (set_worker wk (Bind_list gs (s_workers s wk)) s)"

definition set_runner_worker :: "nat \<Rightarrow> nat \<Rightarrow> sys \<Rightarrow> sys" where
  "set_runner_worker r wk s = set_runner r ((s_runners s r)\<lparr>tr_worker := Some wk\<rparr>) s"

definition UpdateWorkerSpecific :: "nat \<Rightarrow> group \<Rightarrow> sys \<Rightarrow> sys" where
  "UpdateWorkerSpecific wk g s =
     fold (\<lambda>r s.
       let s1 = set_runner_worker r wk s;
           rid = GetId (s_runners s1 r);
           s2 = set_worker wk (UpdateSpecificKeys rid default_keys (s_workers s1 wk)) s1
       in set_worker wk (UpdateSpecific rid default_specific (s_workers s2 wk)) s2) g s"

definition AddTaskRunner :: "nat \<Rightarrow> manager \<times> sys \<Rightarrow> (manager \<times> sys) res" where
  "AddTaskRunner runner ms =
     (let (m, s) = ms in
      bind_res (worker_at m (m_index m)) (\<lambda>wk.
        let s1 = set_runner_worker runner wk s in
        bind_res (bind_at wk [runner] s1) (\<lambda>s2.
          let s3 = UpdateWorkerSpecific wk [runner] s2 in
          bind_res (next_index (m_size m) (m_index m)) (\<lambda>i. Inr (m\<lparr>m_index := i\<rparr>, s3)))))"

text \<open>
  \<open>CreateTaskRunner\<close>: the new runner is at the address \<open>fresh\<close>; \<open>counter\<close> is the global counter of
  runner ids.
\<close>

definition CreateTaskRunner ::
    "nat \<Rightarrow> u32 \<Rightarrow> u32 \<Rightarrow> u32 \<Rightarrow> bool \<Rightarrow> string \<Rightarrow> manager \<times> sys \<Rightarrow> (u32 \<times> manager \<times> sys) res" where
  "CreateTaskRunner fresh counter group_id prio is_schedulable name ms =
     (let (m, s) = ms;
          (tr, counter') = TaskRunner_new counter group_id prio is_schedulable name;
          s1 = set_runner fresh tr s
      in if \<not> is_schedulable then Inr (counter', m, s1)
         else if group_id \<noteq> kDefaultGroupId then
           (case find (\<lambda>wk. w_GetGroupId (s_workers s1 wk) = group_id) (m_workers m) of
              Some wk \<Rightarrow>
                bind_res (bind_at wk [fresh] (set_runner_worker fresh wk s1)) (\<lambda>s2. Inr (counter', m, s2))
            | None \<Rightarrow>
                bind_res (worker_at m (m_index m)) (\<lambda>wk.
                bind_res (next_index (m_size m) (m_index m)) (\<lambda>i.
                bind_res (bind_at wk [fresh] (set_runner_worker fresh wk s1)) (\<lambda>s2.
                  Inr (counter', m\<lparr>m_index := i\<rparr>, s2)))))
         else bind_res (AddTaskRunner fresh (m, s1)) (\<lambda>(m', s'). Inr (counter', m', s')))"

definition RemoveTaskRunner :: "nat \<Rightarrow> manager \<times> sys \<Rightarrow> sys" where
  "RemoveTaskRunner runner ms =
     (let (m, s) = ms
      in fold (\<lambda>wk s. set_worker wk (UnBind (s_runners s) runner (s_workers s wk)) s) (m_workers m) s)"

section \<open>Balance: more workers\<close>

text \<open>
  The first loop collects what each of the old workers gives away and records how many groups it
  keeps.  The sums are \<open>int32_t\<close>.
\<close>

fun collect_loop ::
    "runners \<Rightarrow> int list \<Rightarrow> manager \<Rightarrow> group list \<Rightarrow> int list \<Rightarrow> int \<Rightarrow> workers
       \<Rightarrow> (group list \<times> int list \<times> int \<times> workers) res" where
  "collect_loop R [] m groups cur tot W = Inr (groups, cur, tot, W)"
| "collect_loop R (i # is) m groups cur tot W =
     bind_res (worker_at m i) (\<lambda>wk.
     bind_res (i32 (tot + GetRunningGroupSize (W wk))) (\<lambda>tot'.
     bind_res (RetainActiveAndUnschedulable R (W wk)) (\<lambda>(gs, w').
       collect_loop R is m (groups @ gs) (cur[nat i := GetRunningGroupSize w']) tot' (W(wk := w')))))"

text \<open>Each runner of the groups a worker receives has its storage moved there, by tasks.\<close>

fun move_storage :: "nat \<Rightarrow> nat list \<Rightarrow> sys \<Rightarrow> sys res" where
  "move_storage dst [] s = Inr s"
| "move_storage dst (r # rs) s =
     (case lock_worker (s_alive s) (s_runners s r) of
        None \<Rightarrow> Inl CheckFailed
      | Some src \<Rightarrow> move_storage dst rs (MoveTaskRunnerSpecificNoLock (GetId (s_runners s r)) src dst s))"

text \<open>
  The second loop runs over \<open>size\<close> workers from \<open>index_\<close> on, modulo \<open>size\<close>.  The number of groups a
  worker still takes is compared with a \<open>size_t\<close>, so a negative number counts as a huge one.
\<close>

fun share_loop ::
    "int list \<Rightarrow> int \<Rightarrow> int \<Rightarrow> int list \<Rightarrow> manager \<Rightarrow> group list \<Rightarrow> sys \<Rightarrow> (group list \<times> sys) res" where
  "share_loop [] sz quota cur m groups s = Inr (groups, s)"
| "share_loop (i # is) sz quota cur m groups s =
     (let index = (if i \<ge> sz then i mod sz else i) in
      bind_res (worker_at m index) (\<lambda>wk.
      bind_res (i32 (quota - cur ! nat index)) (\<lambda>cnt.
        let (lst, rest) = (if to_size_t cnt < int (length groups)
                           then (take (nat cnt) groups, drop (nat cnt) groups)
                           else (groups, []))
        in bind_res (move_storage wk (concat lst) s) (\<lambda>s1.
             share_loop is sz quota cur m rest (bind_list_at wk lst s1)))))"

definition Balance_increase :: "int \<Rightarrow> manager \<times> sys \<Rightarrow> (manager \<times> sys) res" where
  "Balance_increase inc ms =
     (let (m, s) = ms in
      bind_res (i32 (m_size m + inc)) (\<lambda>sz.
      bind_res (collect_loop (s_runners s) [0..m_size m - 1] m [] (replicate (nat sz) 0) 0 (s_workers s))
        (\<lambda>(groups, cur, tot, W).
           let quota = tot sdiv sz;
               m1 = m\<lparr>m_index := m_size m\<rparr>
           in bind_res (i32 (m_index m1 + sz)) (\<lambda>stop.
              bind_res (share_loop [m_index m1..stop - 1] sz quota cur m1 groups (s\<lparr>s_workers := W\<rparr>))
                (\<lambda>(lost, s1). Inr (m1\<lparr>m_size := sz\<rparr>, s1))))))"

section \<open>Balance: fewer workers\<close>

text \<open>
  \<open>for (i = size_ - 1; i > 0 || reduce_size > 0; --i)\<close>: it goes down to 1 whatever is asked for, and
  below as long as workers are still to be emptied, to the index -1.
\<close>

function unbind_loop ::
    "runners \<Rightarrow> manager \<Rightarrow> int \<Rightarrow> int \<Rightarrow> group list \<Rightarrow> workers \<Rightarrow> (int \<times> group list \<times> workers) res" where
  "unbind_loop R m i reduce groups W =
     (if i > 0 \<or> reduce > 0 then
        bind_res (worker_at m i) (\<lambda>wk.
          if HasUnschedulableRunner R (W wk) then unbind_loop R m (i - 1) reduce groups W
          else (let (gs, w') = UnBind_all (W wk)
                in unbind_loop R m (i - 1) (reduce - 1) (groups @ gs) (W(wk := w'))))
      else Inr (reduce, groups, W))"
  by pat_completeness auto
termination
proof (relation "measure (\<lambda>(R, m, i, reduce, groups, W). nat (i + 1))", goal_cases)
  case 1
  show ?case by simp
next
  case (2 R m i reduce groups W wk)
  then show ?case by (auto simp: worker_at_def split: if_splits)
next
  case (3 R m i reduce groups W wk p gs w')
  then show ?case by (auto simp: worker_at_def split: if_splits)
qed

declare unbind_loop.simps [simp del]

fun retain_workers :: "runners \<Rightarrow> int list \<Rightarrow> manager \<Rightarrow> group list \<Rightarrow> workers \<Rightarrow> (group list \<times> workers) res" where
  "retain_workers R [] m groups W = Inr (groups, W)"
| "retain_workers R (i # is) m groups W =
     bind_res (worker_at m i) (\<lambda>wk.
     bind_res (RetainActiveAndUnschedulable R (W wk)) (\<lambda>(gs, w').
       retain_workers R is m (groups @ gs) (W(wk := w'))))"

text \<open>Here the storage of each runner is moved at once, by the thread that resizes.\<close>

fun adopt :: "nat \<Rightarrow> nat list \<Rightarrow> sys \<Rightarrow> sys" where
  "adopt wk [] s = s"
| "adopt wk (r # rs) s =
     (let rid = GetId (s_runners s r);
          s3 = (case lock_worker (s_alive s) (s_runners s r) of
                  None \<Rightarrow> s
                | Some orig \<Rightarrow>
                    let (ks, w1) = GetMovedSpecificKeys rid (s_workers s orig);
                        s1 = set_worker orig w1 s;
                        s1' = set_worker wk (UpdateSpecificKeys rid ks (s_workers s1 wk)) s1;
                        (ps, w2) = GetMovedSpecific rid (s_workers s1' orig);
                        s2 = set_worker orig w2 s1'
                    in set_worker wk (UpdateSpecific rid ps (s_workers s2 wk)) s2)
      in adopt wk rs (set_runner_worker r wk s3))"

fun deal_loop :: "group list \<Rightarrow> int \<Rightarrow> manager \<times> sys \<Rightarrow> (manager \<times> sys) res" where
  "deal_loop [] sz ms = Inr ms"
| "deal_loop (g # gs) sz (m, s) =
     bind_res (worker_at m (m_index m)) (\<lambda>wk.
     bind_res (bind_at wk g s) (\<lambda>s1.
       let s2 = adopt wk g s1 in
       bind_res (next_index sz (m_index m)) (\<lambda>i. deal_loop gs sz (m\<lparr>m_index := i\<rparr>, s2))))"

text \<open>
  \<open>debug\<close>: the build has \<open>TDF_BASE_DCHECK\<close>.  The last loop of the function starts at \<open>size_ - 1\<close>, where
  \<open>size_\<close> has just become \<open>size\<close>, and runs while the index is above \<open>size - 1\<close>.
\<close>

fun terminate_loop :: "int list \<Rightarrow> manager \<times> sys \<Rightarrow> (manager \<times> sys) res" where
  "terminate_loop [] ms = Inr ms"
| "terminate_loop (i # is) (m, s) =
     bind_res (worker_at m i) (\<lambda>wk.
       terminate_loop is (m\<lparr>m_workers := butlast (m_workers m)\<rparr>, Terminate wk s))"

definition Balance_decrease :: "bool \<Rightarrow> int \<Rightarrow> manager \<times> sys \<Rightarrow> (manager \<times> sys) res" where
  "Balance_decrease debug inc ms =
     (let (m, s) = ms in
      bind_res (i32 (m_size m + inc)) (\<lambda>sz.
      check (sz > 0)
        (bind_res (unbind_loop (s_runners s) m (m_size m - 1) (0 - inc) [] (s_workers s))
          (\<lambda>(reduce, groups, W).
            if debug \<and> reduce \<noteq> 0 then Inl CheckFailed
            else if reduce > 0 then Inr (m, s\<lparr>s_workers := W\<rparr>)
            else bind_res (retain_workers (s_runners s) [0..sz - 1] m groups W) (\<lambda>(groups', W').
              let m1 = (if m_index m \<ge> sz then m\<lparr>m_index := 0\<rparr> else m) in
              bind_res (deal_loop groups' sz (m1, s\<lparr>s_workers := W'\<rparr>)) (\<lambda>(m2, s2).
                let m3 = m2\<lparr>m_size := sz\<rparr>
                in terminate_loop (rev [sz..m_size m3 - 1]) (m3, s2)))))))"

definition Balance :: "bool \<Rightarrow> int \<Rightarrow> manager \<times> sys \<Rightarrow> (manager \<times> sys) res" where
  "Balance debug inc ms = (if inc > 0 then Balance_increase inc ms else Balance_decrease debug inc ms)"

definition Resize ::
    "bool \<Rightarrow> (nat \<Rightarrow> u32) \<Rightarrow> nat \<Rightarrow> int \<Rightarrow> manager \<times> sys \<Rightarrow> (manager \<times> sys) res" where
  "Resize debug mem fresh sz ms =
     (let (m, s) = ms in
      if sz = m_size m then Inr (m, s)
      else bind_res (i32 (sz - m_size m)) (\<lambda>d.
        Balance debug d (if sz > m_size m then CreateWorkers mem fresh d (m, s) else (m, s))))"

text \<open>\<open>AddWorker\<close> takes over a worker the client made.\<close>

definition AddWorker :: "bool \<Rightarrow> nat \<Rightarrow> manager \<times> sys \<Rightarrow> (manager \<times> sys) res" where
  "AddWorker debug wk ms =
     (let (m, s) = ms in Balance debug 1 (m\<lparr>m_workers := m_workers m @ [wk]\<rparr>, s))"

end
