(* ===== verification/Fs_Manager_Facts.thy ===== *)
theory Fs_Manager_Facts
  imports Fs_Worker_Manager
begin

text \<open>
  What the manager keeps and what it breaks.  The contract \<open>group_host\<close> says of a worker that what it
  releases it no longer holds, and what it accepts it holds in addition; from it follows that moving
  groups between workers neither loses nor duplicates one.  Both ways the manager empties a worker
  are interpretations of it.
\<close>

section \<open>Hosts of groups\<close>

definition held_by :: "('w \<Rightarrow> 'g multiset) \<Rightarrow> nat set \<Rightarrow> (nat \<Rightarrow> 'w) \<Rightarrow> 'g multiset" where
  "held_by held A W = (\<Sum>a \<in> A. held (W a))"

lemma held_by_upd:
  assumes "finite A" and "a \<in> A"
  shows "held_by held A (W(a := w)) + held (W a) = held_by held A W + held w"
proof -
  have "held_by held (A - {a}) (W(a := w)) = held_by held (A - {a}) W"
    unfolding held_by_def by (rule sum.cong) auto
  moreover have "held_by held A V = held (V a) + held_by held (A - {a}) V" for V
    using assms by (simp add: held_by_def sum.remove)
  ultimately show ?thesis by (metis (no_types) add.assoc add.commute fun_upd_same)
qed

locale group_host =
  fixes held :: "'w \<Rightarrow> 'g multiset"
    and release :: "'w \<Rightarrow> ('g list \<times> 'w) res"
    and accept :: "'g \<Rightarrow> 'w \<Rightarrow> 'w res"
  assumes held_release: "release w = Inr (gs, w') \<Longrightarrow> held w = mset gs + held w'"
    and held_accept: "accept g w = Inr w' \<Longrightarrow> held w' = add_mset g (held w)"
begin

lemma total_release:
  assumes "finite A" and "a \<in> A" and "release (W a) = Inr (gs, w')"
  shows "held_by held A W = mset gs + held_by held A (W(a := w'))"
  using held_by_upd [OF assms(1,2), of held W w'] held_release [OF assms(3)]
  by (metis add.assoc add.commute add_right_cancel)

lemma total_accept:
  assumes "finite A" and "a \<in> A" and "accept g (W a) = Inr w'"
  shows "held_by held A (W(a := w')) = add_mset g (held_by held A W)"
  using held_by_upd [OF assms(1,2), of held W w'] held_accept [OF assms(3)] by simp

text \<open>A move of what one host releases to another host keeps the total.\<close>

lemma move_keeps_total:
  assumes "finite A" and "a \<in> A" and "b \<in> A"
    and "release (W a) = Inr ([g], w')" and "accept g ((W(a := w')) b) = Inr w''"
  shows "held_by held A (W(a := w', b := w'')) = held_by held A W"
  using total_release [where W = W, OF assms(1,2,4)]
    total_accept [where W = "W(a := w')", OF assms(1,3,5)] by simp

end

lemma RetainActiveAndUnschedulable_Inr:
  assumes "RetainActiveAndUnschedulable R w = Inr (gs, w')"
  shows "gs = pending_groups w" and "w' = w\<lparr>pending_groups := []\<rparr>"
  using assms by (auto simp: RetainActiveAndUnschedulable_def retain_loop_eq split: if_splits)

interpretation unbind_host: group_host groups_of "\<lambda>w. Inr (UnBind_all w)" "Bind R" for R
proof
  show "groups_of w = mset gs + groups_of w'" if "Inr (UnBind_all w) = Inr (gs, w')" for w gs w'
    using that UnBind_all_groups by force
  show "groups_of w' = add_mset g (groups_of w)" if "Bind R g w = Inr w'" for g w w'
    by (rule Bind_groups [OF that])
qed

interpretation retain_host: group_host groups_of "RetainActiveAndUnschedulable R" "Bind R" for R
proof
  show "groups_of w = mset gs + groups_of w'" if "RetainActiveAndUnschedulable R w = Inr (gs, w')"
    for w gs w'
    using RetainActiveAndUnschedulable_Inr [OF that] by (simp add: groups_of_def)
  show "groups_of w' = add_mset g (groups_of w)" if "Bind R g w = Inr w'" for g w w'
    by (rule Bind_groups [OF that])
qed

text \<open>All groups of a manager's workers.\<close>

definition all_groups :: "manager \<Rightarrow> workers \<Rightarrow> group multiset" where
  "all_groups m W = held_by groups_of (set (m_workers m)) W"

lemma worker_at_in: "worker_at m i = Inr wk \<Longrightarrow> wk \<in> set (m_workers m)"
  by (auto simp: worker_at_def split: if_splits)

section \<open>Fewer workers\<close>

definition same_flags :: "worker \<Rightarrow> worker \<Rightarrow> bool" where
  "same_flags w w' \<longleftrightarrow> is_terminated w' = is_terminated w
     \<and> immediate_task_queue w' = immediate_task_queue w"

lemma same_flags_refl [simp]: "same_flags w w"
  by (simp add: same_flags_def)

lemma same_flags_trans: "same_flags a b \<Longrightarrow> same_flags b c \<Longrightarrow> same_flags a c"
  by (simp add: same_flags_def)

lemma unbind_loop_step:
  "i > 0 \<or> reduce > 0 \<Longrightarrow> unbind_loop R m i reduce groups W =
     bind_res (worker_at m i) (\<lambda>wk.
       if HasUnschedulableRunner R (W wk) then unbind_loop R m (i - 1) reduce groups W
       else (let (gs, w') = UnBind_all (W wk)
             in unbind_loop R m (i - 1) (reduce - 1) (groups @ gs) (W(wk := w'))))"
  by (subst unbind_loop.simps) simp

lemma unbind_loop_stop:
  "\<not> (i > 0 \<or> reduce > 0) \<Longrightarrow> unbind_loop R m i reduce groups W = Inr (reduce, groups, W)"
  by (subst unbind_loop.simps) simp

lemma unbind_loop_groups:
  "unbind_loop R m i reduce groups W = Inr (reduce', groups', W') \<Longrightarrow>
     mset groups' + all_groups m W' = mset groups + all_groups m W
     \<and> (\<forall>a. same_flags (W a) (W' a))"
proof (induction R m i reduce groups W rule: unbind_loop.induct)
  case (1 R m i reduce groups W)
  show ?case
  proof (cases "i > 0 \<or> reduce > 0")
    case False
    then show ?thesis using "1.prems" by (simp add: unbind_loop_stop [OF False])
  next
    case True
    then obtain wk where wk: "worker_at m i = Inr wk"
      using "1.prems" by (auto simp: unbind_loop_step [OF True])
    show ?thesis
    proof (cases "HasUnschedulableRunner R (W wk)")
      case h: True
      then have "unbind_loop R m (i - 1) reduce groups W = Inr (reduce', groups', W')"
        using "1.prems" wk h by (simp add: unbind_loop_step [OF True])
      then show ?thesis using "1.IH"(1) [OF True wk h] by simp
    next
      case h: False
      obtain gs w' where u: "UnBind_all (W wk) = (gs, w')" by (cases "UnBind_all (W wk)")
      then have rec: "unbind_loop R m (i - 1) (reduce - 1) (groups @ gs) (W(wk := w')) = Inr (reduce', groups', W')"
        using "1.prems" wk h u by (simp add: unbind_loop_step [OF True])
      have "mset groups' + all_groups m W' = mset (groups @ gs) + all_groups m (W(wk := w'))
          \<and> (\<forall>a. same_flags ((W(wk := w')) a) (W' a))"
        using "1.IH"(2) [OF True wk h u [symmetric] refl rec] .
      moreover have "all_groups m W = mset gs + all_groups m (W(wk := w'))"
        unfolding all_groups_def
        by (rule unbind_host.total_release) (use worker_at_in [OF wk] u in simp_all)
      moreover have "same_flags (W a) ((W(wk := w')) a)" for a
        using u by (auto simp: UnBind_all_def same_flags_def)
      ultimately show ?thesis using same_flags_trans [of "W a" "(W(wk := w')) a" "W' a" for a]
        by (metis add.assoc mset_append)
    qed
  qed
qed

text \<open>Leaving the loop means that nothing more has to be reduced.\<close>

lemma unbind_loop_reduce:
  "unbind_loop R m i reduce groups W = Inr (reduce', groups', W') \<Longrightarrow> reduce' \<le> 0"
proof (induction R m i reduce groups W rule: unbind_loop.induct)
  case (1 R m i reduce groups W)
  show ?case
  proof (cases "i > 0 \<or> reduce > 0")
    case False
    then show ?thesis using "1.prems" by (simp add: unbind_loop_stop [OF False])
  next
    case True
    then obtain wk where wk: "worker_at m i = Inr wk"
      using "1.prems" by (auto simp: unbind_loop_step [OF True])
    obtain gs w' where u: "UnBind_all (W wk) = (gs, w')" by (cases "UnBind_all (W wk)")
    show ?thesis
    proof (cases "HasUnschedulableRunner R (W wk)")
      case h: True
      then show ?thesis
        using "1.prems" wk by (intro "1.IH"(1) [OF True wk h]) (simp add: unbind_loop_step [OF True])
    next
      case h: False
      have "unbind_loop R m (i - 1) (reduce - 1) (groups @ gs) (W(wk := w')) = Inr (reduce', groups', W')"
        using "1.prems" wk h u by (simp add: unbind_loop_step [OF True])
      then show ?thesis by (rule "1.IH"(2) [OF True wk h u [symmetric] refl])
    qed
  qed
qed

text \<open>A worker that holds nothing holds nothing after the loop.\<close>

lemma unbind_loop_keeps_empty:
  "unbind_loop R m i reduce groups W = Inr (reduce', groups', W') \<Longrightarrow> groups_of (W a) = {#} \<Longrightarrow>
     groups_of (W' a) = {#}"
proof (induction R m i reduce groups W rule: unbind_loop.induct)
  case (1 R m i reduce groups W)
  show ?case
  proof (cases "i > 0 \<or> reduce > 0")
    case False
    then show ?thesis using "1.prems" by (simp add: unbind_loop_stop [OF False])
  next
    case True
    then obtain wk where wk: "worker_at m i = Inr wk"
      using "1.prems" by (auto simp: unbind_loop_step [OF True])
    obtain gs w' where u: "UnBind_all (W wk) = (gs, w')" by (cases "UnBind_all (W wk)")
    show ?thesis
    proof (cases "HasUnschedulableRunner R (W wk)")
      case h: True
      then show ?thesis
        using "1.prems" wk by (intro "1.IH"(1) [OF True wk h]) (simp_all add: unbind_loop_step [OF True])
    next
      case h: False
      have rec: "unbind_loop R m (i - 1) (reduce - 1) (groups @ gs) (W(wk := w')) = Inr (reduce', groups', W')"
        using "1.prems" wk h u by (simp add: unbind_loop_step [OF True])
      have "groups_of ((W(wk := w')) a) = {#}"
        using "1.prems"(2) UnBind_all_groups [OF u] by simp
      then show ?thesis by (rule "1.IH"(2) [OF True wk h u [symmetric] refl rec])
    qed
  qed
qed

lemma retain_workers_groups:
  "retain_workers R is m groups W = Inr (groups', W') \<Longrightarrow>
     mset groups' + all_groups m W' = mset groups + all_groups m W
     \<and> (\<forall>a. same_flags (W a) (W' a))"
proof (induction "is" arbitrary: groups W)
  case Nil
  then show ?case by simp
next
  case (Cons i "is")
  then obtain wk gs w' where wk: "worker_at m i = Inr wk"
    and r: "RetainActiveAndUnschedulable R (W wk) = Inr (gs, w')"
    and rest: "retain_workers R is m (groups @ gs) (W(wk := w')) = Inr (groups', W')" by auto
  have "all_groups m W = mset gs + all_groups m (W(wk := w'))"
    unfolding all_groups_def
    by (rule retain_host.total_release [where R = R]) (use worker_at_in [OF wk] r in simp_all)
  moreover have "same_flags (W a) ((W(wk := w')) a)" for a
    using RetainActiveAndUnschedulable_Inr [OF r] by (simp add: same_flags_def)
  moreover have "mset groups' + all_groups m W' = mset (groups @ gs) + all_groups m (W(wk := w'))"
    and "\<forall>a. same_flags ((W(wk := w')) a) (W' a)" using Cons.IH [OF rest] by blast+
  ultimately show ?case using same_flags_trans [of "W a" "(W(wk := w')) a" "W' a" for a]
    by (metis add.assoc mset_append)
qed

lemma groups_of_storage [simp]:
  "groups_of (snd (GetMovedSpecificKeys rid w)) = groups_of w"
  "groups_of (snd (GetMovedSpecific rid w)) = groups_of w"
  "groups_of (UpdateSpecificKeys rid ks w) = groups_of w"
  "groups_of (UpdateSpecific rid ps w) = groups_of w"
  by (auto simp: groups_of_def GetMovedSpecificKeys_def GetMovedSpecific_def UpdateSpecificKeys_def
      UpdateSpecific_def split: option.split)

lemma flags_storage [simp]:
  "same_flags w0 (snd (GetMovedSpecificKeys rid w)) = same_flags w0 w"
  "same_flags w0 (snd (GetMovedSpecific rid w)) = same_flags w0 w"
  "same_flags w0 (UpdateSpecificKeys rid ks w) = same_flags w0 w"
  "same_flags w0 (UpdateSpecific rid ps w) = same_flags w0 w"
  by (auto simp: same_flags_def GetMovedSpecificKeys_def GetMovedSpecific_def UpdateSpecificKeys_def
      UpdateSpecific_def split: option.split)

lemma set_runner_worker_simps [simp]:
  "s_workers (set_runner_worker r wk s) = s_workers s"
  "s_alive (set_runner_worker r wk s) = s_alive s"
  by (simp_all add: set_runner_worker_def set_runner_def)

text \<open>Adopting runners changes their storage and their worker, no group.\<close>

lemma adopt_keeps:
  "groups_of (s_workers (adopt wk rs s) a) = groups_of (s_workers s a)
   \<and> (same_flags (s_workers s a) (s_workers (adopt wk rs s) a)) \<and> s_alive (adopt wk rs s) = s_alive s"
proof (induction rs arbitrary: s)
  case Nil
  then show ?case by simp
next
  case (Cons r rs)
  obtain s3 where step: "adopt wk (r # rs) s = adopt wk rs (set_runner_worker r wk s3)"
    and keep: "groups_of (s_workers s3 a) = groups_of (s_workers s a)" "s_alive s3 = s_alive s"
      "same_flags (s_workers s a) (s_workers s3 a)"
  proof (cases "lock_worker (s_alive s) (s_runners s r)")
    case None
    then show ?thesis by (intro that [of s]) (simp_all add: Let_def)
  next
    case (Some orig)
    let ?rid = "GetId (s_runners s r)"
    obtain ks w1 where k: "GetMovedSpecificKeys ?rid (s_workers s orig) = (ks, w1)"
      by (cases "GetMovedSpecificKeys ?rid (s_workers s orig)")
    define s1 where "s1 = set_worker orig w1 s"
    define s1' where "s1' = set_worker wk (UpdateSpecificKeys ?rid ks (s_workers s1 wk)) s1"
    obtain ps w2 where p: "GetMovedSpecific ?rid (s_workers s1' orig) = (ps, w2)"
      by (cases "GetMovedSpecific ?rid (s_workers s1' orig)")
    define s2 where "s2 = set_worker orig w2 s1'"
    define s3 where "s3 = set_worker wk (UpdateSpecific ?rid ps (s_workers s2 wk)) s2"
    have w1: "groups_of w1 = groups_of (s_workers s orig)" "same_flags w0 w1 = same_flags w0 (s_workers s orig)"
      and w2: "groups_of w2 = groups_of (s_workers s1' orig)" "same_flags w0 w2 = same_flags w0 (s_workers s1' orig)"
      for w0
      using groups_of_storage(1) [of ?rid "s_workers s orig"] flags_storage(1) [of w0 ?rid "s_workers s orig"]
        groups_of_storage(2) [of ?rid "s_workers s1' orig"] flags_storage(2) [of w0 ?rid "s_workers s1' orig"]
      by (simp_all add: k p)
    show ?thesis
    proof (rule that [of s3])
      show "adopt wk (r # rs) s = adopt wk rs (set_runner_worker r wk s3)"
        using Some k p by (simp add: Let_def s1_def s1'_def s2_def s3_def)
      show "groups_of (s_workers s3 a) = groups_of (s_workers s a)"
        using w1(1) w2(1) by (simp add: s3_def s2_def s1'_def s1_def set_worker_def)
      show "s_alive s3 = s_alive s"
        by (simp add: s3_def s2_def s1'_def s1_def set_worker_def)
      show "same_flags (s_workers s a) (s_workers s3 a)"
        using w1(2) w2(2) by (simp add: s3_def s2_def s1'_def s1_def set_worker_def)
    qed
  qed
  then show ?case using Cons.IH [of "set_runner_worker r wk s3"]
    by (auto simp: same_flags_def)
qed

lemma bind_at_keeps:
  assumes "bind_at wk g s = Inr s'"
  shows "groups_of (s_workers s' wk) = add_mset g (groups_of (s_workers s wk))"
    and "\<And>a. a \<noteq> wk \<Longrightarrow> s_workers s' a = s_workers s a" and "s_alive s' = s_alive s"
    and "same_flags (s_workers s a) (s_workers s' a)" and "s_runners s' = s_runners s"
proof -
  obtain w where w: "Bind (s_runners s) g (s_workers s wk) = Inr w"
    and s': "s' = notify wk (set_worker wk w s)" using assms by (auto simp: bind_at_def)
  show "groups_of (s_workers s' wk) = add_mset g (groups_of (s_workers s wk))"
    using Bind_groups [OF w] s' by (simp add: notify_def set_worker_def)
  show "\<And>a. a \<noteq> wk \<Longrightarrow> s_workers s' a = s_workers s a" and "s_alive s' = s_alive s"
    and "s_runners s' = s_runners s"
    using s' by (simp_all add: notify_def set_worker_def)
  show "same_flags (s_workers s a) (s_workers s' a)"
    using w s' by (auto simp: notify_def set_worker_def same_flags_def Bind_def Let_def
        split: list.splits if_splits)
qed

lemma deal_loop_groups:
  "deal_loop gs sz (m, s) = Inr (m', s') \<Longrightarrow>
     all_groups m (s_workers s') = mset gs + all_groups m (s_workers s)
     \<and> m_workers m' = m_workers m \<and> s_alive s' = s_alive s
     \<and> (\<forall>a. same_flags (s_workers s a) (s_workers s' a))"
proof (induction gs arbitrary: m s)
  case Nil
  then show ?case by simp
next
  case (Cons g gs)
  then obtain wk s1 i where wk: "worker_at m (m_index m) = Inr wk" and b: "bind_at wk g s = Inr s1"
    and rest: "deal_loop gs sz (m\<lparr>m_index := i\<rparr>, adopt wk g s1) = Inr (m', s')"
    by (auto simp: Let_def)
  have "all_groups m (s_workers (adopt wk g s1)) = all_groups m (s_workers s1)"
    using adopt_keeps by (simp add: all_groups_def held_by_def)
  moreover have "all_groups m (s_workers s1) = add_mset g (all_groups m (s_workers s))"
  proof -
    have "s_workers s1 = (s_workers s)(wk := s_workers s1 wk)"
      using bind_at_keeps(2) [OF b] by auto
    then have "all_groups m (s_workers s1) + groups_of (s_workers s wk)
        = all_groups m (s_workers s) + groups_of (s_workers s1 wk)"
      unfolding all_groups_def
      using held_by_upd [of "set (m_workers m)" wk groups_of "s_workers s" "s_workers s1 wk"]
        worker_at_in [OF wk] by simp
    then show ?thesis using bind_at_keeps(1) [OF b] by simp
  qed
  ultimately show ?case
    using Cons.IH [OF rest] adopt_keeps [of wk g s1] bind_at_keeps(3,4) [OF b]
    by (auto simp: all_groups_def same_flags_def)
qed

lemma Balance_decrease_elim:
  assumes "Balance_decrease debug inc (m, s) = Inr (m', s')"
  obtains sz reduce groups W groups' W' m1 m2
  where "unbind_loop (s_runners s) m (m_size m - 1) (0 - inc) [] (s_workers s) = Inr (reduce, groups, W)"
    and "retain_workers (s_runners s) [0..sz - 1] m groups W = Inr (groups', W')"
    and "deal_loop groups' sz (m1, s\<lparr>s_workers := W'\<rparr>) = Inr (m2, s')"
    and "m_workers m1 = m_workers m" and "m' = m2\<lparr>m_size := sz\<rparr>"
proof -
  obtain sz reduce groups W where sz: "i32 (m_size m + inc) = Inr sz"
    and u: "unbind_loop (s_runners s) m (m_size m - 1) (0 - inc) [] (s_workers s) = Inr (reduce, groups, W)"
    and rest: "(if debug \<and> reduce \<noteq> 0 then Inl CheckFailed
            else if reduce > 0 then Inr (m, s\<lparr>s_workers := W\<rparr>)
            else bind_res (retain_workers (s_runners s) [0..sz - 1] m groups W) (\<lambda>(groups', W').
              let m1 = (if m_index m \<ge> sz then m\<lparr>m_index := 0\<rparr> else m) in
              bind_res (deal_loop groups' sz (m1, s\<lparr>s_workers := W'\<rparr>)) (\<lambda>(m2, s2).
                let m3 = m2\<lparr>m_size := sz\<rparr>
                in terminate_loop (rev [sz..m_size m3 - 1]) (m3, s2)))) = Inr (m', s')"
    using assms by (auto simp: Balance_decrease_def check_Inr_iff)
  have "\<not> reduce > 0" using unbind_loop_reduce [OF u] by simp
  then obtain groups' W' where rt: "retain_workers (s_runners s) [0..sz - 1] m groups W = Inr (groups', W')"
    and rest2: "(let m1 = (if m_index m \<ge> sz then m\<lparr>m_index := 0\<rparr> else m) in
              bind_res (deal_loop groups' sz (m1, s\<lparr>s_workers := W'\<rparr>)) (\<lambda>(m2, s2).
                let m3 = m2\<lparr>m_size := sz\<rparr>
                in terminate_loop (rev [sz..m_size m3 - 1]) (m3, s2))) = Inr (m', s')"
    using rest by (auto split: if_splits)
  define m1 where "m1 = (if m_index m \<ge> sz then m\<lparr>m_index := 0\<rparr> else m)"
  obtain m2 where d: "deal_loop groups' sz (m1, s\<lparr>s_workers := W'\<rparr>) = Inr (m2, s')"
    and m': "m' = m2\<lparr>m_size := sz\<rparr>"
    using rest2 by (auto simp: Let_def m1_def)
  have "m_workers m1 = m_workers m" by (simp add: m1_def)
  then show ?thesis using that u rt d m' by blast
qed

lemma Balance_decrease_groups:
  assumes "Balance_decrease debug inc (m, s) = Inr (m', s')"
  shows "all_groups m (s_workers s') = all_groups m (s_workers s)"
    and "m_workers m' = m_workers m" and "s_alive s' = s_alive s"
    and "is_terminated (s_workers s' a) = is_terminated (s_workers s a)"
proof -
  obtain sz reduce groups W groups' W' m1 m2
    where u: "unbind_loop (s_runners s) m (m_size m - 1) (0 - inc) [] (s_workers s) = Inr (reduce, groups, W)"
      and rt: "retain_workers (s_runners s) [0..sz - 1] m groups W = Inr (groups', W')"
      and d: "deal_loop groups' sz (m1, s\<lparr>s_workers := W'\<rparr>) = Inr (m2, s')"
      and ws: "m_workers m1 = m_workers m" and m': "m' = m2\<lparr>m_size := sz\<rparr>"
    by (rule Balance_decrease_elim [OF assms])
  have m1: "m_workers m1 = m_workers m" "all_groups m1 = all_groups m"
    using ws by (auto simp: all_groups_def fun_eq_iff)
  note dl = deal_loop_groups [OF d]
  show "all_groups m (s_workers s') = all_groups m (s_workers s)"
    using dl m1 retain_workers_groups [OF rt] unbind_loop_groups [OF u] by simp
  show "m_workers m' = m_workers m" and "s_alive s' = s_alive s" using dl m1 m' by simp_all
  show "is_terminated (s_workers s' a) = is_terminated (s_workers s a)"
    using dl retain_workers_groups [OF rt] unbind_loop_groups [OF u] by (simp add: same_flags_def)
qed

text \<open>
  With no unschedulable runner anywhere, the loop empties the workers from the last one down to the
  second, whatever the number asked for, as long as that number is not larger.
\<close>

lemma UnBind_all_schedulable: "UnBind_all w = (gs, w') \<Longrightarrow> \<not> HasUnschedulableRunner R w'"
  by (auto simp: UnBind_all_def HasUnschedulableRunner_def)

lemma unbind_loop_schedulable:
  "\<forall>a \<in> set (m_workers m). \<not> HasUnschedulableRunner R (W a) \<Longrightarrow> 0 \<le> i \<Longrightarrow>
   nat i < length (m_workers m) \<Longrightarrow> reduce \<le> i \<Longrightarrow>
     \<exists>groups' W'. unbind_loop R m i reduce groups W = Inr (reduce - i, groups', W')
       \<and> (\<forall>j. 0 < j \<and> j \<le> nat i \<longrightarrow> groups_of (W' (m_workers m ! j)) = {#})"
proof (induction "nat i" arbitrary: i reduce groups W)
  case 0
  then have "i = 0" "\<not> (i > 0 \<or> reduce > 0)" by auto
  then show ?case by (simp add: unbind_loop_stop)
next
  case (Suc n)
  then have i: "i > 0" "nat (i - 1) = n" by auto
  let ?wk = "m_workers m ! nat i"
  have wk: "worker_at m i = Inr ?wk" and mem: "?wk \<in> set (m_workers m)"
    using Suc.prems by (simp_all add: worker_at_def)
  obtain gs w' where u: "UnBind_all (W ?wk) = (gs, w')" by (cases "UnBind_all (W ?wk)")
  have step: "unbind_loop R m i reduce groups W
      = unbind_loop R m (i - 1) (reduce - 1) (groups @ gs) (W(?wk := w'))"
    using unbind_loop_step [of i reduce R m groups W] i wk u Suc.prems(1) mem by simp
  have "\<forall>a \<in> set (m_workers m). \<not> HasUnschedulableRunner R ((W(?wk := w')) a)"
    using Suc.prems(1) UnBind_all_schedulable [OF u] by simp
  then obtain groups' W' where IH:
    "unbind_loop R m (i - 1) (reduce - 1) (groups @ gs) (W(?wk := w'))
       = Inr (reduce - 1 - (i - 1), groups', W')"
    "\<forall>j. 0 < j \<and> j \<le> n \<longrightarrow> groups_of (W' (m_workers m ! j)) = {#}"
    using Suc.hyps(1) [of "i - 1" "W(?wk := w')" "reduce - 1" "groups @ gs"] i Suc.prems by fastforce
  have e: "groups_of (W' ?wk) = {#}"
    by (rule unbind_loop_keeps_empty [OF IH(1)]) (use UnBind_all_groups [OF u] in simp)
  have "groups_of (W' (m_workers m ! j)) = {#}" if "0 < j \<and> j \<le> nat i" for j
    using that IH(2) e Suc.hyps(2) by (cases "j = nat i") auto
  then show ?case using step IH(1) by auto
qed

lemma shrink_debug_aborts:
  assumes "\<forall>a \<in> set (m_workers m). \<not> HasUnschedulableRunner (s_runners s) (s_workers s a)"
    and "length (m_workers m) = nat (m_size m)" and "0 < k" and "k < m_size m - 1" and "in_i32 (m_size m)"
  shows "Balance_decrease True (- k) (m, s) = Inl CheckFailed"
proof -
  obtain gs W where "unbind_loop (s_runners s) m (m_size m - 1) k [] (s_workers s)
      = Inr (k - (m_size m - 1), gs, W)"
    using unbind_loop_schedulable [OF assms(1), of "m_size m - 1" k "[]"] assms by auto
  then show ?thesis using assms by (simp add: Balance_decrease_def i32_def in_i32_def)
qed

section \<open>More workers\<close>

lemma collect_loop_groups:
  "collect_loop R is m groups cur tot W = Inr (groups', cur', tot', W') \<Longrightarrow>
     mset groups' + all_groups m W' = mset groups + all_groups m W"
proof (induction "is" arbitrary: groups cur tot W)
  case Nil
  then show ?case by simp
next
  case (Cons i "is")
  then obtain wk gs w' where wk: "worker_at m i = Inr wk"
    and r: "RetainActiveAndUnschedulable R (W wk) = Inr (gs, w')"
    and rest: "collect_loop R is m (groups @ gs) (cur[nat i := GetRunningGroupSize w'])
        (tot + GetRunningGroupSize (W wk)) (W(wk := w')) = Inr (groups', cur', tot', W')" by auto
  have "all_groups m W = mset gs + all_groups m (W(wk := w'))"
    unfolding all_groups_def
    by (rule retain_host.total_release [where R = R]) (use worker_at_in [OF wk] r in simp_all)
  then show ?case using Cons.IH [OF rest] by (metis add.assoc mset_append)
qed

lemma set_worker_simps [simp]:
  "s_runners (set_worker wk w s) = s_runners s" "s_alive (set_worker wk w s) = s_alive s"
  "s_workers (set_worker wk w s) = (s_workers s)(wk := w)"
  by (simp_all add: set_worker_def)

lemma move_storage_keeps:
  "move_storage dst rs s = Inr s' \<Longrightarrow> groups_of (s_workers s' a) = groups_of (s_workers s a)
     \<and> s_runners s' = s_runners s"
proof (induction rs arbitrary: s)
  case Nil
  then show ?case by simp
next
  case (Cons r rs)
  then obtain src where src: "lock_worker (s_alive s) (s_runners s r) = Some src"
    and rest: "move_storage dst rs (MoveTaskRunnerSpecificNoLock (GetId (s_runners s r)) src dst s) = Inr s'"
    by (auto split: option.splits)
  show ?case using Cons.IH [OF rest]
    by (simp add: MoveTaskRunnerSpecificNoLock_def Task_new_def AddImmediateTask_def groups_of_def)
qed

lemma all_groups_bind_list:
  assumes "wk \<in> set (m_workers m)"
  shows "all_groups m (s_workers (bind_list_at wk gs s)) = mset gs + all_groups m (s_workers s)"
proof -
  have "all_groups m ((s_workers s)(wk := Bind_list gs (s_workers s wk))) + groups_of (s_workers s wk)
      = all_groups m (s_workers s) + (groups_of (s_workers s wk) + mset gs)"
    unfolding all_groups_def
    using held_by_upd [of "set (m_workers m)" wk groups_of "s_workers s" "Bind_list gs (s_workers s wk)"]
      assms by (simp add: Bind_list_groups)
  then show ?thesis by (simp add: bind_list_at_def notify_def add.commute)
qed

text \<open>What the loop over the workers does not give out is lost; the runners are not touched.\<close>

lemma share_loop_groups:
  "share_loop is sz quota cur m groups s = Inr (lost, s') \<Longrightarrow>
     mset lost + all_groups m (s_workers s') = mset groups + all_groups m (s_workers s)
     \<and> s_runners s' = s_runners s"
proof (induction "is" arbitrary: groups s)
  case Nil
  then show ?case by simp
next
  case (Cons i "is")
  obtain wk where wk: "worker_at m (if i \<ge> sz then i mod sz else i) = Inr wk"
    using Cons.prems by (auto simp: Let_def)
  define cnt where "cnt = quota - cur ! nat (if i \<ge> sz then i mod sz else i)"
  obtain lst rest where l: "(if to_size_t cnt < int (length groups)
      then (take (nat cnt) groups, drop (nat cnt) groups) else (groups, [])) = (lst, rest)"
    by (cases "to_size_t cnt < int (length groups)") auto
  have "bind_res (i32 cnt) (\<lambda>cnt.
      let (lst, rest) = (if to_size_t cnt < int (length groups)
                         then (take (nat cnt) groups, drop (nat cnt) groups) else (groups, []))
      in bind_res (move_storage wk (concat lst) s) (\<lambda>s1.
           share_loop is sz quota cur m rest (bind_list_at wk lst s1))) = Inr (lost, s')"
    using Cons.prems wk by (simp only: share_loop.simps Let_def bind_res_simps cnt_def)
  then obtain s1 where mv: "move_storage wk (concat lst) s = Inr s1"
    and rec: "share_loop is sz quota cur m rest (bind_list_at wk lst s1) = Inr (lost, s')"
    using l by (auto simp: bind_res_Inr_iff simp del: if_split)
  have "mset groups = mset lst + mset rest"
    using l by (auto split: if_splits) (metis append_take_drop_id mset_append)
  moreover have "all_groups m (s_workers s1) = all_groups m (s_workers s)"
    using move_storage_keeps [OF mv] by (simp add: all_groups_def held_by_def)
  moreover have "s_runners (bind_list_at wk lst s1) = s_runners s"
    using move_storage_keeps [OF mv] by (simp add: bind_list_at_def notify_def)
  ultimately show ?case
    using Cons.IH [OF rec] all_groups_bind_list [OF worker_at_in [OF wk], of lst s1] by simp
qed

lemma Balance_increase_groups:
  assumes "Balance_increase inc (m, s) = Inr (m', s')"
  shows "\<exists>lost. mset lost + all_groups m (s_workers s') = all_groups m (s_workers s)"
    and "s_runners s' = s_runners s" and "m_workers m' = m_workers m"
proof -
  obtain sz groups cur tot W stop lost where
    c: "collect_loop (s_runners s) [0..m_size m - 1] m [] (replicate (nat sz) 0) 0 (s_workers s)
       = Inr (groups, cur, tot, W)"
    and sh: "share_loop [m_size m..stop - 1] sz (tot sdiv sz) cur (m\<lparr>m_index := m_size m\<rparr>) groups
       (s\<lparr>s_workers := W\<rparr>) = Inr (lost, s')" and m': "m' = m\<lparr>m_index := m_size m, m_size := sz\<rparr>"
    using assms by (auto simp: Balance_increase_def Let_def)
  have "all_groups (m\<lparr>m_index := m_size m\<rparr>) = all_groups m" by (simp add: all_groups_def fun_eq_iff)
  then show "\<exists>lost. mset lost + all_groups m (s_workers s') = all_groups m (s_workers s)"
    using collect_loop_groups [OF c] share_loop_groups [OF sh] by (auto intro!: exI [of _ lost])
  show "s_runners s' = s_runners s" and "m_workers m' = m_workers m"
    using share_loop_groups [OF sh] m' by simp_all
qed

text \<open>
  Before the workers have taken over their groups every worker has 0 running groups, the quota is 0
  and no group is given back.
\<close>

lemma collect_loop_pending_only:
  "\<forall>a \<in> set (m_workers m). running_groups (W a) = [] \<Longrightarrow>
   \<forall>i \<in> set is. 0 \<le> i \<and> nat i < length (m_workers m) \<Longrightarrow>
     \<exists>gs W'. collect_loop R is m groups (replicate n 0) 0 W = Inr (gs, replicate n 0, 0, W')
       \<and> (\<forall>i \<in> set is. groups_of (W' (m_workers m ! nat i)) = {#})
       \<and> (\<forall>a. groups_of (W a) = {#} \<longrightarrow> groups_of (W' a) = {#})"
proof (induction "is" arbitrary: groups W)
  case Nil
  then show ?case by simp
next
  case (Cons i "is")
  let ?wk = "m_workers m ! nat i"
  have wk: "worker_at m i = Inr ?wk" and mem: "?wk \<in> set (m_workers m)"
    using Cons.prems(2) by (simp_all add: worker_at_def)
  let ?w' = "(W ?wk)\<lparr>pending_groups := []\<rparr>"
  have run: "running_groups (W ?wk) = []" using Cons.prems(1) mem by blast
  have r: "RetainActiveAndUnschedulable R (W ?wk) = Inr (pending_groups (W ?wk), ?w')"
    using run by (simp add: RetainActiveAndUnschedulable_def)
  have cur: "(replicate n 0)[nat i := 0] = replicate n (0 :: int)"
    by (metis list_update_beyond list_update_id length_replicate linorder_not_le nth_replicate)
  have step: "collect_loop R (i # is) m groups (replicate n 0) 0 W
      = collect_loop R is m (groups @ pending_groups (W ?wk)) (replicate n 0) 0 (W(?wk := ?w'))"
    using wk run r cur by (simp add: GetRunningGroupSize_def in_i32_def)
  have e: "groups_of ?w' = {#}" using run by (simp add: groups_of_def)
  have run': "\<forall>a \<in> set (m_workers m). running_groups ((W(?wk := ?w')) a) = []"
    using Cons.prems(1) run by simp
  have ix': "\<forall>i \<in> set is. 0 \<le> i \<and> nat i < length (m_workers m)" using Cons.prems(2) by simp
  obtain gs W' where IH:
    "collect_loop R is m (groups @ pending_groups (W ?wk)) (replicate n 0) 0 (W(?wk := ?w'))
       = Inr (gs, replicate n 0, 0, W')"
    "\<forall>i \<in> set is. groups_of (W' (m_workers m ! nat i)) = {#}"
    "\<forall>a. groups_of ((W(?wk := ?w')) a) = {#} \<longrightarrow> groups_of (W' a) = {#}"
    using Cons.IH [OF run' ix', of "groups @ pending_groups (W ?wk)"] by blast
  then show ?case using step e by (intro exI [of _ gs] exI [of _ W']) auto
qed

lemma share_loop_no_quota:
  "0 < sz \<Longrightarrow> nat sz \<le> length (m_workers m) \<Longrightarrow> \<forall>i \<in> set is. 0 \<le> i \<Longrightarrow>
     \<exists>s'. share_loop is sz 0 (replicate (nat sz) 0) m groups s = Inr (groups, s')
       \<and> (\<forall>a. groups_of (s_workers s' a) = groups_of (s_workers s a))"
proof (induction "is" arbitrary: s)
  case Nil
  then show ?case by simp
next
  case (Cons i "is")
  let ?ix = "if i \<ge> sz then i mod sz else i"
  have ix: "0 \<le> ?ix" "?ix < sz" using Cons.prems by auto
  then have lt: "nat ?ix < nat sz" by (simp add: nat_less_eq_zless)
  then have wk: "worker_at m ?ix = Inr (m_workers m ! nat ?ix)"
    using ix Cons.prems(2) by (simp only: worker_at_def) (simp del: if_split)
  have cur: "replicate (nat sz) (0 :: int) ! nat ?ix = 0" using lt by (simp only: nth_replicate)
  let ?s1 = "bind_list_at (m_workers m ! nat ?ix) [] s"
  have split: "(if to_size_t 0 < int (length groups) then (take (nat 0) groups, drop (nat 0) groups)
      else (groups, [])) = ([], groups)"
    by (cases groups) (auto simp: to_size_t_def)
  have z: "i32 (0 - 0) = Inr 0" by (simp add: in_i32_def)
  have "share_loop (i # is) sz 0 (replicate (nat sz) 0) m groups s
      = share_loop is sz 0 (replicate (nat sz) 0) m groups ?s1"
    by (simp only: share_loop.simps Let_def wk bind_res_simps cur z split prod.case) simp
  moreover have "groups_of (s_workers ?s1 a) = groups_of (s_workers s a)" for a
    by (simp add: bind_list_at_def notify_def Bind_list_def groups_of_def)
  ultimately show ?case using Cons.IH [of ?s1] Cons.prems by auto
qed

lemma Balance_increase_loses:
  assumes "\<forall>a \<in> set (m_workers m). running_groups (s_workers s a) = []"
    and "0 \<le> m_size m" and "0 < inc" and "m_size m + inc \<le> int (length (m_workers m))"
    and "2 * m_size m + inc < 2 ^ 31"
  shows "\<exists>m' s'. Balance_increase inc (m, s) = Inr (m', s')
    \<and> (\<forall>j < nat (m_size m). groups_of (s_workers s' (m_workers m ! j)) = {#})"
proof -
  let ?sz = "m_size m + inc"
  have sz: "i32 ?sz = Inr ?sz" "i32 (m_size m + ?sz) = Inr (m_size m + ?sz)"
    using assms by (simp_all add: in_i32_def)
  have ix: "\<forall>i \<in> set [0..m_size m - 1]. 0 \<le> i \<and> nat i < length (m_workers m)"
    using assms(3,4) by auto
  obtain gs W where c: "collect_loop (s_runners s) [0..m_size m - 1] m [] (replicate (nat ?sz) 0) 0 (s_workers s)
       = Inr (gs, replicate (nat ?sz) 0, 0, W)"
    and e: "\<forall>i \<in> set [0..m_size m - 1]. groups_of (W (m_workers m ! nat i)) = {#}"
    using collect_loop_pending_only [OF assms(1) ix] by blast
  have len: "nat ?sz \<le> length (m_workers (m\<lparr>m_index := m_size m\<rparr>))"
    and pos: "0 < ?sz" and ge: "\<forall>i \<in> set [m_size m..m_size m + ?sz - 1]. 0 \<le> i"
    using assms(2-4) by (auto simp: nat_le_iff)
  obtain s' where sh: "share_loop [m_size m..m_size m + ?sz - 1] ?sz 0 (replicate (nat ?sz) 0)
      (m\<lparr>m_index := m_size m\<rparr>) gs (s\<lparr>s_workers := W\<rparr>) = Inr (gs, s')"
    and k: "\<forall>a. groups_of (s_workers s' a) = groups_of (W a)"
    using share_loop_no_quota [OF pos len ge, of gs "s\<lparr>s_workers := W\<rparr>"] by auto
  have q: "0 sdiv ?sz = 0" by (simp add: signed_divide_int_def)
  have "groups_of (s_workers s' (m_workers m ! j)) = {#}" if "j < nat (m_size m)" for j
    using bspec [OF e, of "int j"] k that by simp
  moreover have "Balance_increase inc (m, s) = Inr (m\<lparr>m_index := m_size m, m_size := ?sz\<rparr>, s')"
    using sz c sh q by (simp add: Balance_increase_def Let_def)
  ultimately show ?thesis by blast
qed

section \<open>New runners\<close>

fun create_defaults :: "nat \<Rightarrow> nat \<Rightarrow> u32 \<Rightarrow> manager \<times> sys \<Rightarrow> (manager \<times> sys) res" where
  "create_defaults 0 fresh counter ms = Inr ms"
| "create_defaults (Suc n) fresh counter ms =
     bind_res (CreateTaskRunner fresh counter kDefaultGroupId 1 True '''' ms) (\<lambda>(c, m, s).
       create_defaults n (Suc fresh) c (m, s))"

lemma CreateTaskRunner_default:
  assumes "m_workers m \<noteq> []" and "m_index m = 0" and "next_index (m_size m) 0 = Inr i"
  shows "\<exists>s'. CreateTaskRunner fresh c kDefaultGroupId p True n (m, s) = Inr (c + 1, m\<lparr>m_index := i\<rparr>, s')
    \<and> tr_worker (s_runners s' fresh) = Some (hd (m_workers m))
    \<and> (\<forall>r. r \<noteq> fresh \<longrightarrow> s_runners s' r = s_runners s r)
    \<and> pending_groups (s_workers s' (hd (m_workers m)))
        = pending_groups (s_workers s (hd (m_workers m))) @ [[fresh]]"
  using assms
  by (cases "m_workers m") (auto simp: CreateTaskRunner_def TaskRunner_new_def AddTaskRunner_def
      worker_at_def bind_at_def Bind_def notify_def set_runner_worker_def set_runner_def
      UpdateWorkerSpecific_def UpdateSpecific_def UpdateSpecificKeys_def Let_def kDefaultGroupId_def
      tr_GetGroupId_def)

lemma create_defaults_first_worker:
  "m_workers m \<noteq> [] \<Longrightarrow> m_index m = 0 \<Longrightarrow> m_size m \<noteq> 1 \<Longrightarrow>
     \<exists>s'. create_defaults n fresh c (m, s) = Inr (m, s')
       \<and> (\<forall>r. fresh \<le> r \<and> r < fresh + n \<longrightarrow> tr_worker (s_runners s' r) = Some (hd (m_workers m)))
       \<and> (\<forall>r. r < fresh \<longrightarrow> s_runners s' r = s_runners s r)"
proof (induction n arbitrary: fresh c s)
  case 0
  then show ?case by auto
next
  case (Suc n)
  have m: "m\<lparr>m_index := 0\<rparr> = m" using Suc.prems(2) by simp
  have "next_index (m_size m) 0 = Inr 0" using Suc.prems(3) by (simp add: next_index_def)
  from CreateTaskRunner_default [OF Suc.prems(1,2) this, of fresh c 1 "''''" s]
  obtain s1 where s1: "CreateTaskRunner fresh c kDefaultGroupId 1 True '''' (m, s) = Inr (c + 1, m, s1)"
    "tr_worker (s_runners s1 fresh) = Some (hd (m_workers m))"
    "\<forall>r. r \<noteq> fresh \<longrightarrow> s_runners s1 r = s_runners s r"
    using m by auto
  obtain s' where s': "create_defaults n (Suc fresh) (c + 1) (m, s1) = Inr (m, s')"
    "\<forall>r. Suc fresh \<le> r \<and> r < Suc fresh + n \<longrightarrow> tr_worker (s_runners s' r) = Some (hd (m_workers m))"
    "\<forall>r. r < Suc fresh \<longrightarrow> s_runners s' r = s_runners s1 r"
    using Suc.IH [OF Suc.prems] by blast
  have "tr_worker (s_runners s' r) = Some (hd (m_workers m))" if "fresh \<le> r" "r < fresh + Suc n" for r
    using that s'(2,3) s1(2) by (cases "r = fresh") auto
  then show ?case using s1 s' by simp
qed

text \<open>With one worker the index runs away: the second runner is out of range.\<close>

lemma create_defaults_single:
  assumes "m_workers m = [wk]" and "m_index m = 0" and "m_size m = 1"
  shows "create_defaults (Suc (Suc n)) fresh c (m, s) = Inl (UB OutOfRange)"
proof -
  have "next_index (m_size m) 0 = Inr 1" using assms(3) by (simp add: next_index_def in_i32_def)
  from CreateTaskRunner_default [OF _ assms(2) this, of fresh c 1 "''''" s] assms(1)
  obtain s1 where s1: "CreateTaskRunner fresh c kDefaultGroupId 1 True '''' (m, s)
      = Inr (c + 1, m\<lparr>m_index := 1\<rparr>, s1)" by auto
  have "CreateTaskRunner (Suc fresh) (c + 1) kDefaultGroupId 1 True '''' (m\<lparr>m_index := 1\<rparr>, s1)
      = Inl (UB OutOfRange)"
    using assms(1) by (simp add: CreateTaskRunner_def TaskRunner_new_def AddTaskRunner_def worker_at_def Let_def)
  then show ?thesis using s1 by simp
qed

text \<open>Runners with the same group id, other than the default, share a worker.\<close>

definition group_worker :: "u32 \<Rightarrow> manager \<Rightarrow> sys \<Rightarrow> nat option" where
  "group_worker g m s = find (\<lambda>wk. w_GetGroupId (s_workers s wk) = g) (m_workers m)"

lemma find_only:
  "find P xs = None \<or> find P xs = Some w \<Longrightarrow> w \<in> set xs \<Longrightarrow> (\<And>a. a \<noteq> w \<Longrightarrow> Q a = P a) \<Longrightarrow> Q w \<Longrightarrow>
     find Q xs = Some w"
  by (induction xs) (auto split: if_splits)

lemma bind_at_group_worker:
  assumes "bind_at wk [r] s = Inr s'" and "tr_GetGroupId (s_runners s r) = g" and "g \<noteq> kDefaultGroupId"
    and "wk \<in> set (m_workers m)" and "group_worker g m s = None \<or> group_worker g m s = Some wk"
  shows "group_worker g m s' = Some wk" and "s_runners s' = s_runners s"
proof -
  have s': "w_GetGroupId (s_workers s' wk) = g" "\<And>a. a \<noteq> wk \<Longrightarrow> s_workers s' a = s_workers s a"
    using assms(1-3) by (auto simp: bind_at_def Bind_def Let_def w_GetGroupId_def notify_def)
  show "group_worker g m s' = Some wk"
    unfolding group_worker_def
    by (rule find_only [OF assms(5) [unfolded group_worker_def] assms(4)]) (use s' in simp_all)
  show "s_runners s' = s_runners s" by (rule bind_at_keeps(5) [OF assms(1)])
qed

lemma CreateTaskRunner_group:
  assumes "CreateTaskRunner fresh c g p True n (m, s) = Inr (c', m', s')" and "g \<noteq> kDefaultGroupId"
  obtains wk where "tr_worker (s_runners s' fresh) = Some wk" and "group_worker g m s' = Some wk"
    and "group_worker g m s = None \<or> group_worker g m s = Some wk" and "m_workers m' = m_workers m"
    and "\<And>r. r \<noteq> fresh \<Longrightarrow> s_runners s' r = s_runners s r"
proof -
  define s1 where "s1 = set_runner fresh (fst (TaskRunner_new c g p True n)) s"
  have g1: "group_worker g m s1 = group_worker g m s"
    by (simp add: group_worker_def s1_def set_runner_def)
  have gid: "tr_GetGroupId (s_runners (set_runner_worker fresh wk s1) fresh) = g" for wk
    by (simp add: set_runner_worker_def set_runner_def s1_def TaskRunner_new_def tr_GetGroupId_def)
  have gw: "group_worker g m (set_runner_worker fresh wk s1) = group_worker g m s" for wk
    using g1 by (simp add: group_worker_def)
  have "\<exists>wk. bind_at wk [fresh] (set_runner_worker fresh wk s1) = Inr s' \<and> wk \<in> set (m_workers m)
      \<and> (group_worker g m s = None \<or> group_worker g m s = Some wk) \<and> m_workers m' = m_workers m"
  proof (cases "group_worker g m s")
    case (Some wk)
    then have "find (\<lambda>wk. w_GetGroupId (s_workers s1 wk) = g) (m_workers m) = Some wk"
      using g1 by (simp add: group_worker_def)
    then have "bind_at wk [fresh] (set_runner_worker fresh wk s1) = Inr s' \<and> m' = m"
      using assms by (auto simp: CreateTaskRunner_def Let_def split_beta s1_def)
    moreover have "wk \<in> set (m_workers m)"
      using Some by (auto simp: group_worker_def find_Some_iff)
    ultimately show ?thesis using Some by auto
  next
    case None
    then have "find (\<lambda>wk. w_GetGroupId (s_workers s1 wk) = g) (m_workers m) = None"
      using g1 by (simp add: group_worker_def)
    then obtain wk i where "worker_at m (m_index m) = Inr wk" "m' = m\<lparr>m_index := i\<rparr>"
      "bind_at wk [fresh] (set_runner_worker fresh wk s1) = Inr s'"
      using assms by (auto simp: CreateTaskRunner_def Let_def split_beta s1_def)
    then show ?thesis using None worker_at_in by auto
  qed
  then obtain wk where b: "bind_at wk [fresh] (set_runner_worker fresh wk s1) = Inr s'"
    and wk: "wk \<in> set (m_workers m)" "group_worker g m s = None \<or> group_worker g m s = Some wk"
      "m_workers m' = m_workers m" by blast
  note bg = bind_at_group_worker [OF b gid assms(2) wk(1)] gw wk(2)
  show ?thesis
  proof (rule that [of wk])
    show "group_worker g m s' = Some wk" using bg by simp
    show "tr_worker (s_runners s' fresh) = Some wk"
      using bind_at_keeps(5) [OF b] by (simp add: set_runner_worker_def set_runner_def)
    show "r \<noteq> fresh \<Longrightarrow> s_runners s' r = s_runners s r" for r
      using bind_at_keeps(5) [OF b] by (simp add: set_runner_worker_def set_runner_def s1_def)
  qed (use wk in simp_all)
qed

section \<open>Storage follows its runner\<close>

text \<open>
  The task left at the old worker and the task it leaves at the new one move both arrays.
\<close>

lemma run_take_install:
  assumes "s_alive s src" and "s_alive s dst" and "src \<noteq> dst"
    and "specific_ok (s_workers s src)" and "specific_ok (s_workers s dst)"
    and "smap_find (worker_key_map (s_workers s src)) rid = Some ks"
    and "smap_find (specific_map (s_workers s src)) rid = Some ps"
  shows "\<exists>s1 t s2. run_take rid src dst s = Inr s1
    \<and> immediate_task_queue (s_workers s1 dst) = immediate_task_queue (s_workers s dst) @ [Some t]
    \<and> task_unit t = Some (InstallSpecific rid dst ks ps)
    \<and> run_install rid dst ks ps s1 = Inr s2
    \<and> smap_find (worker_key_map (s_workers s2 src)) rid = None
    \<and> smap_find (specific_map (s_workers s2 src)) rid = None
    \<and> smap_find (worker_key_map (s_workers s2 dst)) rid = Some ks
    \<and> smap_find (specific_map (s_workers s2 dst)) rid = Some ps"
  using assms
  by (auto simp: run_take_def run_install_def GetMovedSpecificKeys_def GetMovedSpecific_def
      UpdateSpecific_def UpdateSpecificKeys_def Task_new_def AddImmediateTask_def specific_ok_def
      smap.lookup_upd smap.lookup_del Let_def)

section \<open>Removing a runner\<close>

lemma UnBind_runners:
  assumes "\<forall>q \<in># runners_of w. GetId (R q) = GetId (R r) \<longrightarrow> q = r"
  shows "runners_of (UnBind R r w) = runners_of w - {#r#}"
proof -
  let ?p = "\<lambda>q. GetId (R q) = GetId (R r)"
  have mem: "q \<in># runners_of w" if "g \<in> set (running_groups w) \<union> set (pending_groups w)" "q \<in> set g" for g q
    using that by (auto simp: runners_of_def set_mset_sum_list)
  show ?thesis
  proof (cases "erase_in_groups ?p (running_groups w)")
    case (Some gs)
    obtain q where "?p q" "sum_list (map mset (running_groups w)) = add_mset q (sum_list (map mset gs))"
      using erase_in_groups_mset [OF Some] by blast
    then show ?thesis using Some assms by (auto simp: UnBind_def runners_of_def)
  next
    case none: None
    show ?thesis
    proof (cases "erase_in_groups ?p (pending_groups w)")
      case (Some gs)
      obtain q where "?p q" "sum_list (map mset (pending_groups w)) = add_mset q (sum_list (map mset gs))"
        using erase_in_groups_mset [OF Some] by blast
      then show ?thesis using Some none assms by (auto simp: UnBind_def runners_of_def)
    next
      case None
      then have "r \<notin># runners_of w"
        using none by (auto simp: erase_in_groups_None runners_of_def set_mset_sum_list)
      then show ?thesis using None none by (simp add: UnBind_def)
    qed
  qed
qed

lemma RemoveTaskRunner_runners:
  assumes "distinct (m_workers m)" and "a \<in> set (m_workers m)"
    and "\<forall>q \<in># runners_of (s_workers s a). GetId (s_runners s q) = GetId (s_runners s r) \<longrightarrow> q = r"
  shows "runners_of (s_workers (RemoveTaskRunner r (m, s)) a) = runners_of (s_workers s a) - {#r#}"
proof -
  let ?f = "\<lambda>wk s. set_worker wk (UnBind (s_runners s) r (s_workers s wk)) s"
  have "distinct ws \<Longrightarrow> s_runners (fold ?f ws s) = s_runners s
      \<and> s_workers (fold ?f ws s) a =
          (if a \<in> set ws then UnBind (s_runners s) r (s_workers s a) else s_workers s a)" for ws s
    by (induction ws arbitrary: s) auto
  then show ?thesis using assms UnBind_runners [OF assms(3)] by (simp add: RemoveTaskRunner_def)
qed

end
