(* ===== verification/Fs_Timers.thy ===== *)
theory Fs_Timers
  imports Fs_Manager_Facts
begin

text \<open>
  \<open>include/footstone/base_timer.h\<close>, \<open>one_shot_timer.h\<close>, \<open>repeating_timer.h\<close>, \<open>idle_timer.h\<close> and their
  sources.  A timer posts a task that holds a weak pointer to it (\<open>TimerInvoke\<close>); when the task runs
  it calls \<open>OnScheduledTaskInvoked\<close>.  The two virtual methods of \<open>BaseTimer\<close> are the parameters
  \<open>run_user\<close> and \<open>on_stop\<close> of its operations, given by each of the three classes.  \<open>OneShotTimer\<close>
  declares a \<open>user_task_\<close> of its own; a timer uses only one of the two, the field \<open>ti_user_task\<close>.
\<close>

record timer =
  ti_runner :: "nat option"
  ti_user_task :: "task option"
  ti_delay :: time_delta
  is_running :: bool
  desired_run_time :: time_point
  scheduled_run_time :: time_point
  ti_idle :: "nat option"

text \<open>
  The state around the timers: the scheduler, the timers and which of them exist, which runners
  exist, and the objects \<open>std::make_shared<IdleTask>\<close> has made, each owned by one timer.
\<close>

record tsys =
  t_sys :: sys
  t_timers :: "nat \<Rightarrow> timer"
  t_alive :: "nat \<Rightarrow> bool"
  t_runner_alive :: "nat \<Rightarrow> bool"
  t_idle_objs :: "nat \<Rightarrow> idle_task option"
  t_next_obj :: nat
  t_idle_counter :: u32

text \<open>The constructors leave \<open>is_running_\<close> as the memory was.\<close>

definition BaseTimer_new :: "bool \<Rightarrow> nat option \<Rightarrow> timer" where
  "BaseTimer_new indeterminate runner =
     \<lparr>ti_runner = runner, ti_user_task = None, ti_delay = td_default, is_running = indeterminate,
      desired_run_time = tp_default, scheduled_run_time = tp_default, ti_idle = None\<rparr>"

definition set_timer :: "nat \<Rightarrow> timer \<Rightarrow> tsys \<Rightarrow> tsys" where
  "set_timer n t s = s\<lparr>t_timers := (t_timers s)(n := t)\<rparr>"

definition t_Now :: "clock \<Rightarrow> tsys \<Rightarrow> time_point \<times> tsys" where
  "t_Now clk s = (case Now clk (t_sys s) of (now, y) \<Rightarrow> (now, s\<lparr>t_sys := y\<rparr>))"

definition BindTaskRunner :: "nat \<Rightarrow> nat option \<Rightarrow> tsys \<Rightarrow> tsys" where
  "BindTaskRunner n runner s = set_timer n ((t_timers s n)\<lparr>ti_runner := runner\<rparr>) s"

definition IsRunning :: "nat \<Rightarrow> tsys \<Rightarrow> bool" where
  "IsRunning n s = is_running (t_timers s n)"

definition lock_runner :: "nat \<Rightarrow> tsys \<Rightarrow> nat option" where
  "lock_runner n s =
     (case ti_runner (t_timers s n) of
        Some r \<Rightarrow> if t_runner_alive s r then Some r else None
      | None \<Rightarrow> None)"

text \<open>A post to a runner: the runner's queue and the notification of its worker.\<close>

definition post_result :: "nat \<Rightarrow> (nat \<times> task_runner) res \<Rightarrow> sys \<Rightarrow> sys res" where
  "post_result r m y = bind_res m (\<lambda>(wk, tr). Inr (notify wk (set_runner r tr y)))"

section \<open>BaseTimer\<close>

definition Stop :: "(nat \<Rightarrow> tsys \<Rightarrow> tsys) \<Rightarrow> nat \<Rightarrow> tsys \<Rightarrow> tsys" where
  "Stop on_stop n s = on_stop n (set_timer n ((t_timers s n)\<lparr>is_running := False\<rparr>) s)"

definition ScheduleNewTask :: "clock \<Rightarrow> nat \<Rightarrow> time_delta \<Rightarrow> tsys \<Rightarrow> tsys res" where
  "ScheduleNewTask clk n delay s =
     (case lock_runner n s of
        None \<Rightarrow> Inr s
      | Some r \<Rightarrow>
          let s0 = set_timer n ((t_timers s n)\<lparr>is_running := True\<rparr>) s;
              (t, counter) = Task_new (s_task_counter (t_sys s0)) (Some (TimerInvoke n));
              y0 = (t_sys s0)\<lparr>s_task_counter := counter\<rparr>
          in if delay > td_Zero then
               (let (now, y1) = Now clk y0 in
                bind_res (post_result r (PostDelayedTask (s_alive y1) now (Some t) delay (s_runners y1 r)) y1) (\<lambda>y2.
                let (now2, y3) = Now clk y2 in
                bind_res (tp_plus now2 delay) (\<lambda>p.
                  Inr (set_timer n ((t_timers s0 n)\<lparr>scheduled_run_time := p, desired_run_time := p\<rparr>)
                    (s0\<lparr>t_sys := y3\<rparr>)))))
             else
               bind_res (post_result r (PostTask (s_alive y0) (Some t) (s_runners y0 r)) y0) (\<lambda>y2.
               let (now2, y3) = Now clk y2 in
                 Inr (set_timer n ((t_timers s0 n)\<lparr>scheduled_run_time := now2, desired_run_time := now2\<rparr>)
                   (s0\<lparr>t_sys := y3\<rparr>))))"

definition OnScheduledTaskInvoked ::
    "(nat \<Rightarrow> tsys \<Rightarrow> tsys res) \<Rightarrow> clock \<Rightarrow> nat \<Rightarrow> tsys \<Rightarrow> tsys res" where
  "OnScheduledTaskInvoked run_user clk n s =
     (let t = t_timers s n in
      if \<not> is_running t then Inr s
      else if desired_run_time t > scheduled_run_time t then
        (let (now, s1) = t_Now clk s in
         if desired_run_time t > now
         then bind_res (tp_diff (desired_run_time t) now) (\<lambda>d. ScheduleNewTask clk n d s1)
         else run_user n s1)
      else run_user n s)"

text \<open>The task a timer posts; \<open>lock()\<close> of its weak pointer succeeds while the timer exists.\<close>

definition invoke_timer :: "(nat \<Rightarrow> tsys \<Rightarrow> tsys res) \<Rightarrow> clock \<Rightarrow> nat \<Rightarrow> tsys \<Rightarrow> tsys res" where
  "invoke_timer run_user clk n s =
     (if \<not> t_alive s n then Inr s else OnScheduledTaskInvoked run_user clk n s)"

definition Reset :: "clock \<Rightarrow> nat \<Rightarrow> tsys \<Rightarrow> tsys res" where
  "Reset clk n s =
     (let t = t_timers s n;
          (now, s1) = t_Now clk s
      in if scheduled_run_time t < now then ScheduleNewTask clk n (ti_delay t) s1
         else
           let (now2, s2) = t_Now clk s1 in
           bind_res (if ti_delay t > td_Zero then tp_plus now2 (ti_delay t) else Inr now2) (\<lambda>p.
             let s3 = set_timer n (t\<lparr>desired_run_time := p\<rparr>) s2 in
             if p \<ge> scheduled_run_time t
             then Inr (set_timer n ((t_timers s3 n)\<lparr>is_running := True\<rparr>) s3)
             else ScheduleNewTask clk n (ti_delay t) s3))"

definition StartInternal :: "clock \<Rightarrow> nat \<Rightarrow> time_delta \<Rightarrow> tsys \<Rightarrow> tsys res" where
  "StartInternal clk n delay s = Reset clk n (set_timer n ((t_timers s n)\<lparr>ti_delay := delay\<rparr>) s)"

section \<open>OneShotTimer\<close>

definition OneShot_OnStop :: "nat \<Rightarrow> tsys \<Rightarrow> tsys" where
  "OneShot_OnStop n s = set_timer n ((t_timers s n)\<lparr>ti_user_task := None\<rparr>) s"

text \<open>
  The task is moved out before \<open>Stop\<close>; a null one fails the debug check, and is dereferenced in a
  build without it.
\<close>

definition OneShot_RunUserTask ::
    "bool \<Rightarrow> (exec_code \<Rightarrow> tsys \<Rightarrow> tsys res) \<Rightarrow> nat \<Rightarrow> tsys \<Rightarrow> tsys res" where
  "OneShot_RunUserTask debug exec n s =
     (let task = ti_user_task (t_timers s n);
          s1 = set_timer n ((t_timers s n)\<lparr>ti_user_task := None\<rparr>) s;
          s2 = Stop OneShot_OnStop n s1
      in case task of
           None \<Rightarrow> Inl (if debug then CheckFailed else UB NullDeref)
         | Some t \<Rightarrow> Task_Run exec t s2)"

definition OneShot_Start :: "clock \<Rightarrow> nat \<Rightarrow> task option \<Rightarrow> time_delta \<Rightarrow> tsys \<Rightarrow> tsys res" where
  "OneShot_Start clk n user_task delay s =
     StartInternal clk n delay (set_timer n ((t_timers s n)\<lparr>ti_user_task := user_task\<rparr>) s)"

definition OneShot_FireNow ::
    "bool \<Rightarrow> (exec_code \<Rightarrow> tsys \<Rightarrow> tsys res) \<Rightarrow> nat \<Rightarrow> tsys \<Rightarrow> tsys res" where
  "OneShot_FireNow debug exec n s =
     (if debug \<and> \<not> IsRunning n s then Inl CheckFailed else OneShot_RunUserTask debug exec n s)"

section \<open>RepeatingTimer\<close>

definition Repeating_OnStop :: "nat \<Rightarrow> tsys \<Rightarrow> tsys" where
  "Repeating_OnStop n s = s"

text \<open>\<open>task\<close> is a reference to \<open>user_task_\<close>, read after the next task has been scheduled.\<close>

definition Repeating_RunUserTask ::
    "(exec_code \<Rightarrow> tsys \<Rightarrow> tsys res) \<Rightarrow> clock \<Rightarrow> nat \<Rightarrow> tsys \<Rightarrow> tsys res" where
  "Repeating_RunUserTask exec clk n s =
     bind_res (ScheduleNewTask clk n (ti_delay (t_timers s n)) s) (\<lambda>s1.
       case ti_user_task (t_timers s1 n) of
         None \<Rightarrow> Inl (UB NullDeref)
       | Some t \<Rightarrow> Task_Run exec t s1)"

definition Repeating_Start :: "clock \<Rightarrow> nat \<Rightarrow> task option \<Rightarrow> time_delta \<Rightarrow> tsys \<Rightarrow> tsys res" where
  "Repeating_Start clk n user_task delay s =
     StartInternal clk n delay (set_timer n ((t_timers s n)\<lparr>ti_user_task := user_task\<rparr>) s)"

section \<open>IdleTimer\<close>

text \<open>Giving up the idle task: its object dies, because the timer is its only owner.\<close>

definition drop_idle :: "nat \<Rightarrow> tsys \<Rightarrow> tsys" where
  "drop_idle n s =
     (case ti_idle (t_timers s n) of
        None \<Rightarrow> s
      | Some i \<Rightarrow> set_timer n ((t_timers s n)\<lparr>ti_idle := None\<rparr>)
                    (s\<lparr>t_idle_objs := (t_idle_objs s)(i := None)\<rparr>))"

definition Idle_OnStop :: "nat \<Rightarrow> tsys \<Rightarrow> tsys" where
  "Idle_OnStop n s = drop_idle n s"

text \<open>\<open>idle_task_ = std::make_shared<IdleTask>(idle_task->GetUnit())\<close>.\<close>

definition own_idle :: "nat \<Rightarrow> idle_task \<Rightarrow> tsys \<Rightarrow> nat \<times> tsys" where
  "own_idle n idle s =
     (let s1 = drop_idle n s;
          i = t_next_obj s1;
          (it, counter) = IdleTask_new (t_idle_counter s1) (IdleTask_GetUnit idle)
      in (i, set_timer n ((t_timers s1 n)\<lparr>ti_idle := Some i\<rparr>)
               (s1\<lparr>t_idle_objs := (t_idle_objs s1)(i \<mapsto> it), t_next_obj := Suc i, t_idle_counter := counter\<rparr>)))"

definition post_idle :: "nat \<Rightarrow> idle_task \<Rightarrow> tsys \<Rightarrow> tsys res" where
  "post_idle r it s =
     bind_res (post_result r (PostIdleTask (s_alive (t_sys s)) (Some it) (s_runners (t_sys s) r)) (t_sys s))
       (\<lambda>y. Inr (s\<lparr>t_sys := y\<rparr>))"

definition Idle_Start_timeout ::
    "bool \<Rightarrow> clock \<Rightarrow> nat \<Rightarrow> idle_task option \<Rightarrow> time_delta \<Rightarrow> tsys \<Rightarrow> tsys res" where
  "Idle_Start_timeout debug clk n idle timeout s =
     (if debug \<and> \<not> timeout > td_Zero then Inl CheckFailed
      else case (lock_runner n s, idle) of
             (None, idle) \<Rightarrow>
               if debug then Inl CheckFailed else Inl (UB NullDeref)
           | (Some r, None) \<Rightarrow> Inl (UB NullDeref)
           | (Some r, Some it) \<Rightarrow>
               let (i, s1) = own_idle n it s;
                   (closure, counter) = IdleTask_new (t_idle_counter s1) (Some (TimerIdle i))
               in bind_res (post_idle r closure (s1\<lparr>t_idle_counter := counter\<rparr>)) (\<lambda>s2.
                    StartInternal clk n timeout s2))"

definition Idle_Start :: "bool \<Rightarrow> nat \<Rightarrow> idle_task option \<Rightarrow> tsys \<Rightarrow> tsys res" where
  "Idle_Start debug n idle s =
     (case (lock_runner n s, idle) of
        (None, idle) \<Rightarrow> if debug then Inl CheckFailed else Inl (UB NullDeref)
      | (Some r, None) \<Rightarrow> Inl (UB NullDeref)
      | (Some r, Some it) \<Rightarrow> let (i, s1) = own_idle n it s in post_idle r it s1)"

text \<open>The closure in the runner's idle queue.\<close>

definition run_timer_idle ::
    "(idle_code \<Rightarrow> idle_cb_param \<Rightarrow> tsys \<Rightarrow> tsys res) \<Rightarrow> nat \<Rightarrow> idle_cb_param \<Rightarrow> tsys \<Rightarrow> tsys res" where
  "run_timer_idle exec i param s =
     (case t_idle_objs s i of None \<Rightarrow> Inr s | Some it \<Rightarrow> IdleTask_Run exec it param s)"

definition timeout_param :: idle_cb_param where
  "timeout_param = \<lparr>did_time_out = True, res_time = td_Zero\<rparr>"

definition Idle_RunUserTask ::
    "(idle_code \<Rightarrow> idle_cb_param \<Rightarrow> tsys \<Rightarrow> tsys res) \<Rightarrow> nat \<Rightarrow> tsys \<Rightarrow> tsys res" where
  "Idle_RunUserTask exec n s =
     (case ti_idle (t_timers s n) of
        None \<Rightarrow> Inr s
      | Some i \<Rightarrow>
          (case t_idle_objs s i of
             None \<Rightarrow> Inl (UB NullDeref)
           | Some it \<Rightarrow>
               bind_res (IdleTask_Run exec it timeout_param s) (\<lambda>s1. Inr (Stop Idle_OnStop n s1))))"

end
