(* ===== verification/Fs_Timer_Facts.thy ===== *)
theory Fs_Timer_Facts
  imports Fs_Timers
begin

text \<open>
  What the timers promise.  The contract \<open>timer_class\<close> says what \<open>BaseTimer\<close> needs of the virtual method
  \<open>OnStop\<close>; its consequences hold for the three classes through their interpretations.  Then what each
  class does: a one-shot timer fires once, a repeating timer posts itself again, an idle timer can run
  its task twice, and which starts post a second invocation.
\<close>

lemma set_timer_simps [simp]:
  "t_timers (set_timer n t s) n = t" "m \<noteq> n \<Longrightarrow> t_timers (set_timer n t s) m = t_timers s m"
  "t_sys (set_timer n t s) = t_sys s" "t_alive (set_timer n t s) = t_alive s"
  "t_runner_alive (set_timer n t s) = t_runner_alive s" "t_idle_objs (set_timer n t s) = t_idle_objs s"
  by (simp_all add: set_timer_def)

lemma t_Now_simps [simp]:
  "fst (t_Now clk s) = clk (s_clock (t_sys s))"
  "t_timers (snd (t_Now clk s)) = t_timers s"
  "s_runners (t_sys (snd (t_Now clk s))) = s_runners (t_sys s)"
  "s_clock (t_sys (snd (t_Now clk s))) = Suc (s_clock (t_sys s))"
  "lock_runner n (snd (t_Now clk s)) = lock_runner n s"
  by (simp_all add: t_Now_def Now_def lock_runner_def split_beta split: option.split)

lemma lock_runner_Some_iff:
  "lock_runner n s = Some r \<longleftrightarrow> ti_runner (t_timers s n) = Some r \<and> t_runner_alive s r"
  by (auto simp: lock_runner_def split: option.splits if_splits)

section \<open>What BaseTimer needs\<close>

locale timer_class =
  fixes run_user :: "nat \<Rightarrow> tsys \<Rightarrow> tsys res"
    and on_stop :: "nat \<Rightarrow> tsys \<Rightarrow> tsys"
  assumes on_stop_running: "is_running (t_timers (on_stop n s) n) = is_running (t_timers s n)"
    and on_stop_sys: "t_sys (on_stop n s) = t_sys s"
begin

text \<open>An invocation after \<open>Stop\<close> does nothing, and \<open>Stop\<close> itself leaves the queues alone.\<close>

lemma stop_cancels:
  "invoke_timer run_user clk n (Stop on_stop n s) = Inr (Stop on_stop n s)"
  "t_sys (Stop on_stop n s) = t_sys s"
  by (simp_all add: invoke_timer_def OnScheduledTaskInvoked_def Stop_def on_stop_running on_stop_sys Let_def)

text \<open>An invocation before the desired time runs nothing: it is scheduled again for the rest.\<close>

lemma invoked_early:
  assumes "t_alive s n" and "is_running (t_timers s n)"
    and "scheduled_run_time (t_timers s n) < desired_run_time (t_timers s n)"
    and "clk (s_clock (t_sys s)) < desired_run_time (t_timers s n)"
    and "tp_diff (desired_run_time (t_timers s n)) (clk (s_clock (t_sys s))) = Inr d"
  shows "invoke_timer run_user clk n s = ScheduleNewTask clk n d (snd (t_Now clk s))"
  using assms by (simp add: invoke_timer_def OnScheduledTaskInvoked_def Let_def split_beta)

end

interpretation one_shot: timer_class "OneShot_RunUserTask debug exec" OneShot_OnStop for debug exec
  by unfold_locales (simp_all add: OneShot_OnStop_def)

interpretation repeating: timer_class "Repeating_RunUserTask exec clk" Repeating_OnStop for exec clk
  by unfold_locales (simp_all add: Repeating_OnStop_def)

interpretation idle_timer: timer_class "Idle_RunUserTask exec" Idle_OnStop for exec
  by unfold_locales (simp_all add: Idle_OnStop_def drop_idle_def split: option.split)

section \<open>Scheduling\<close>

definition invokes :: "nat \<Rightarrow> task option \<Rightarrow> bool" where
  "invokes n x \<longleftrightarrow> (\<exists>t. x = Some t \<and> task_unit t = Some (TimerInvoke n))"

text \<open>How many tasks of the runner \<open>r\<close> will invoke the timer.\<close>

definition pending_invocations :: "nat \<Rightarrow> nat \<Rightarrow> tsys \<Rightarrow> nat" where
  "pending_invocations n r s = size (filter_mset (invokes n) (pending_tasks (s_runners (t_sys s) r)))"

lemma post_result_Inr_iff:
  "post_result r m y = Inr y' \<longleftrightarrow> (\<exists>wk tr. m = Inr (wk, tr) \<and> y' = notify wk (set_runner r tr y))"
  by (auto simp: post_result_def bind_res_Inr_iff)

lemma ScheduleNewTask_posts:
  assumes "lock_runner n s = Some r" and "ScheduleNewTask clk n d s = Inr s'"
  shows "pending_invocations n r s' = Suc (pending_invocations n r s)"
    and "is_running (t_timers s' n)" and "ti_user_task (t_timers s' n) = ti_user_task (t_timers s n)"
    and "desired_run_time (t_timers s' n) = scheduled_run_time (t_timers s' n)"
    and "d > td_Zero \<Longrightarrow> \<exists>t. task_unit t = Some (TimerInvoke n)
      \<and> mset (delayed_task_queue (s_runners (t_sys s') r))
          = add_mset (TimePoint (ticks (clk (s_clock (t_sys s))) + delta d), Some t)
              (mset (delayed_task_queue (s_runners (t_sys s) r)))"
proof -
  have "pending_invocations n r s' = Suc (pending_invocations n r s)
      \<and> is_running (t_timers s' n) \<and> ti_user_task (t_timers s' n) = ti_user_task (t_timers s n)
      \<and> desired_run_time (t_timers s' n) = scheduled_run_time (t_timers s' n)
      \<and> (d > td_Zero \<longrightarrow> (\<exists>t. task_unit t = Some (TimerInvoke n)
        \<and> mset (delayed_task_queue (s_runners (t_sys s') r))
            = add_mset (TimePoint (ticks (clk (s_clock (t_sys s))) + delta d), Some t)
                (mset (delayed_task_queue (s_runners (t_sys s) r)))))"
  proof (cases "d > td_Zero")
    case True
    then show ?thesis using assms
      by (auto simp: ScheduleNewTask_def Let_def Now_def Task_new_def post_result_Inr_iff
          PostDelayedTask_Inr_iff tp_plus_Inr_iff pending_invocations_def pending_tasks_def invokes_def
          notify_def set_runner_def dq.entries_push)
  next
    case False
    then show ?thesis using assms
      by (auto simp: ScheduleNewTask_def Let_def Now_def Task_new_def post_result_Inr_iff
          PostTask_Inr_iff pending_invocations_def pending_tasks_def invokes_def
          notify_def set_runner_def)
  qed
  then show "pending_invocations n r s' = Suc (pending_invocations n r s)"
    and "is_running (t_timers s' n)" and "ti_user_task (t_timers s' n) = ti_user_task (t_timers s n)"
    and "desired_run_time (t_timers s' n) = scheduled_run_time (t_timers s' n)"
    and "d > td_Zero \<Longrightarrow> \<exists>t. task_unit t = Some (TimerInvoke n)
      \<and> mset (delayed_task_queue (s_runners (t_sys s') r))
          = add_mset (TimePoint (ticks (clk (s_clock (t_sys s))) + delta d), Some t)
              (mset (delayed_task_queue (s_runners (t_sys s) r)))"
    by blast+
qed

text \<open>
  \<open>Reset\<close> posts an invocation when none is scheduled for the future, or when the one scheduled comes
  too late; otherwise it leaves the one that is there.  The one that comes too late stays queued.
\<close>

lemma Reset_posts:
  assumes "lock_runner n s = Some r" and "Reset clk n s = Inr s'"
    and "td_Zero < ti_delay (t_timers s n)"
  shows "pending_invocations n r s' =
      (if scheduled_run_time (t_timers s n) < clk (s_clock (t_sys s))
         \<or> ticks (clk (Suc (s_clock (t_sys s)))) + delta (ti_delay (t_timers s n))
             < ticks (scheduled_run_time (t_timers s n))
       then Suc (pending_invocations n r s) else pending_invocations n r s)"
    and "is_running (t_timers s' n)"
proof -
  let ?t = "t_timers s n" and ?now = "clk (s_clock (t_sys s))" and ?now2 = "clk (Suc (s_clock (t_sys s)))"
  define s1 where "s1 = snd (t_Now clk s)"
  define s2 where "s2 = snd (t_Now clk s1)"
  have n1: "t_Now clk s = (?now, s1)" by (simp add: s1_def prod_eq_iff)
  have n2: "t_Now clk s1 = (?now2, s2)" by (simp add: s2_def s1_def prod_eq_iff)
  have p: "pending_invocations n r s1 = pending_invocations n r s"
    "pending_invocations n r s2 = pending_invocations n r s"
    by (simp_all add: pending_invocations_def s1_def s2_def)
  show "pending_invocations n r s' =
      (if scheduled_run_time ?t < ?now
         \<or> ticks ?now2 + delta (ti_delay ?t) < ticks (scheduled_run_time ?t)
       then Suc (pending_invocations n r s) else pending_invocations n r s)"
    and "is_running (t_timers s' n)"
  proof (atomize (full), cases "scheduled_run_time ?t < ?now")
    case True
    then have "ScheduleNewTask clk n (ti_delay ?t) s1 = Inr s'"
      using assms(2) by (simp add: Reset_def Let_def n1)
    moreover have "lock_runner n s1 = Some r" using assms(1) by (simp add: s1_def)
    ultimately show "pending_invocations n r s' =
        (if scheduled_run_time ?t < ?now
           \<or> ticks ?now2 + delta (ti_delay ?t) < ticks (scheduled_run_time ?t)
         then Suc (pending_invocations n r s) else pending_invocations n r s)
        \<and> is_running (t_timers s' n)"
      using ScheduleNewTask_posts(1,2) [of n s1 r clk] True p by auto
  next
    case False
    let ?p = "TimePoint (ticks ?now2 + delta (ti_delay ?t))"
    define s3 where "s3 = set_timer n (?t\<lparr>desired_run_time := ?p\<rparr>) s2"
    have r: "(if ?p \<ge> scheduled_run_time ?t
        then Inr (set_timer n ((t_timers s3 n)\<lparr>is_running := True\<rparr>) s3)
        else ScheduleNewTask clk n (ti_delay ?t) s3) = Inr s'"
      using assms(2,3) False by (auto simp: Reset_def Let_def n1 n2 tp_plus_Inr_iff s3_def)
    have l: "lock_runner n s3 = Some r" and q: "pending_invocations n r s3 = pending_invocations n r s"
      using assms(1) p by (simp_all add: s3_def s2_def s1_def lock_runner_Some_iff
          pending_invocations_def t_Now_def Now_def set_timer_def)
    show "pending_invocations n r s' =
        (if scheduled_run_time ?t < ?now
           \<or> ticks ?now2 + delta (ti_delay ?t) < ticks (scheduled_run_time ?t)
         then Suc (pending_invocations n r s) else pending_invocations n r s)
        \<and> is_running (t_timers s' n)"
    proof (cases "?p \<ge> scheduled_run_time ?t")
      case True
      then show ?thesis using r q False
        by (auto simp: tp_order_defs pending_invocations_def)
    next
      case late: False
      then have "ScheduleNewTask clk n (ti_delay ?t) s3 = Inr s'" using r by simp
      then show ?thesis using ScheduleNewTask_posts(1,2) [OF l] q late
        by (simp add: tp_order_defs)
    qed
  qed
qed

lemma StartInternal_posts:
  assumes "lock_runner n s = Some r" and "StartInternal clk n d s = Inr s'" and "td_Zero < d"
  shows "pending_invocations n r s' =
      (if scheduled_run_time (t_timers s n) < clk (s_clock (t_sys s))
         \<or> ticks (clk (Suc (s_clock (t_sys s)))) + delta d < ticks (scheduled_run_time (t_timers s n))
       then Suc (pending_invocations n r s) else pending_invocations n r s)"
    and "is_running (t_timers s' n)"
proof -
  let ?s = "set_timer n ((t_timers s n)\<lparr>ti_delay := d\<rparr>) s"
  have "lock_runner n ?s = Some r"
    using assms(1) by (simp add: lock_runner_Some_iff)
  from Reset_posts [OF this assms(2) [unfolded StartInternal_def]] assms(3)
  show "pending_invocations n r s' =
      (if scheduled_run_time (t_timers s n) < clk (s_clock (t_sys s))
         \<or> ticks (clk (Suc (s_clock (t_sys s)))) + delta d < ticks (scheduled_run_time (t_timers s n))
       then Suc (pending_invocations n r s) else pending_invocations n r s)"
    and "is_running (t_timers s' n)"
    by (simp_all add: pending_invocations_def)
qed

section \<open>The three classes\<close>

definition keeps_timer :: "nat \<Rightarrow> ('c \<Rightarrow> tsys \<Rightarrow> tsys res) \<Rightarrow> bool" where
  "keeps_timer n exec \<longleftrightarrow> (\<forall>c s s'. exec c s = Inr s' \<longrightarrow> t_timers s' n = t_timers s n
     \<and> t_alive s' n = t_alive s n \<and> t_idle_objs s' = t_idle_objs s)"

lemma one_shot_once:
  assumes "t_alive s n" and "is_running (t_timers s n)" and "ti_user_task (t_timers s n) = Some t"
    and "\<not> scheduled_run_time (t_timers s n) < desired_run_time (t_timers s n)"
    and "keeps_timer n exec"
  shows "\<exists>s1. \<not> is_running (t_timers s1 n) \<and> ti_user_task (t_timers s1 n) = None \<and> t_sys s1 = t_sys s
      \<and> invoke_timer (OneShot_RunUserTask debug exec) clk n s = Task_Run exec t s1"
    and "invoke_timer (OneShot_RunUserTask debug exec) clk n s = Inr s' \<Longrightarrow>
      invoke_timer (OneShot_RunUserTask debug' exec') clk' n s' = Inr s'"
proof -
  define s1 where "s1 = Stop OneShot_OnStop n (set_timer n ((t_timers s n)\<lparr>ti_user_task := None\<rparr>) s)"
  have run: "invoke_timer (OneShot_RunUserTask debug exec) clk n s = Task_Run exec t s1"
    using assms by (simp add: invoke_timer_def OnScheduledTaskInvoked_def OneShot_RunUserTask_def s1_def Let_def)
  have s1: "\<not> is_running (t_timers s1 n)" "ti_user_task (t_timers s1 n) = None" "t_sys s1 = t_sys s"
    by (simp_all add: s1_def Stop_def OneShot_OnStop_def)
  show "\<exists>s1. \<not> is_running (t_timers s1 n) \<and> ti_user_task (t_timers s1 n) = None \<and> t_sys s1 = t_sys s
      \<and> invoke_timer (OneShot_RunUserTask debug exec) clk n s = Task_Run exec t s1"
    using run s1 by blast
  assume "invoke_timer (OneShot_RunUserTask debug exec) clk n s = Inr s'"
  then have "Task_Run exec t s1 = Inr s'" using run by simp
  then have "\<not> is_running (t_timers s' n)"
    using assms(5) s1 by (auto simp: Task_Run_def keeps_timer_def split: option.splits)
  then show "invoke_timer (OneShot_RunUserTask debug' exec') clk' n s' = Inr s'"
    by (simp add: invoke_timer_def OnScheduledTaskInvoked_def Let_def)
qed

text \<open>
  A start whose scheduled time has passed posts a new invocation and does not look for an old one.  The task of
  whichever invocation comes first runs at once, because the scheduled and the desired time are the same.
\<close>

lemma ScheduleNewTask_time:
  assumes "lock_runner n s = Some r" and "ScheduleNewTask clk n d s = Inr s'" and "td_Zero < d"
  shows "desired_run_time (t_timers s' n) = TimePoint (ticks (clk (Suc (s_clock (t_sys s)))) + delta d)"
    and "t_alive s' = t_alive s"
  using assms
  by (auto simp: ScheduleNewTask_def Let_def Now_def Task_new_def post_result_Inr_iff tp_plus_Inr_iff
      notify_def set_runner_def set_timer_def)

lemma OneShot_restart:
  assumes "t_alive s n" and "lock_runner n s = Some r" and "td_Zero < d"
    and "scheduled_run_time (t_timers s n) < clk (s_clock (t_sys s))"
    and "OneShot_Start clk n (Some t) d s = Inr s1"
  shows "pending_invocations n r s1 = Suc (pending_invocations n r s)"
    and "desired_run_time (t_timers s1 n) = TimePoint (ticks (clk (s_clock (t_sys s) + 2)) + delta d)"
    and "\<exists>s2. t_sys s2 = t_sys s1 \<and> (\<forall>clk'. invoke_timer (OneShot_RunUserTask debug exec) clk' n s1 = Task_Run exec t s2)"
proof -
  define s0 where "s0 = snd (t_Now clk (set_timer n ((t_timers s n)\<lparr>ti_user_task := Some t, ti_delay := d\<rparr>) s))"
  have sched: "ScheduleNewTask clk n d s0 = Inr s1"
    using assms(4,5)
    by (simp add: OneShot_Start_def StartInternal_def Reset_def Let_def split_beta s0_def set_timer_def)
  have s0: "lock_runner n s0 = Some r" "ti_user_task (t_timers s0 n) = Some t" "t_alive s0 = t_alive s"
    "s_clock (t_sys s0) = Suc (s_clock (t_sys s))" "pending_invocations n r s0 = pending_invocations n r s"
    using assms(2) by (simp_all add: s0_def lock_runner_Some_iff pending_invocations_def t_Now_def Now_def)
  note posts = ScheduleNewTask_posts [OF s0(1) sched] and time = ScheduleNewTask_time [OF s0(1) sched assms(3)]
  show "pending_invocations n r s1 = Suc (pending_invocations n r s)" using posts(1) s0(5) by simp
  show "desired_run_time (t_timers s1 n) = TimePoint (ticks (clk (s_clock (t_sys s) + 2)) + delta d)"
    using time(1) s0(4) by simp
  have "\<not> scheduled_run_time (t_timers s1 n) < desired_run_time (t_timers s1 n)"
    using posts(4) by (simp add: tp_order_defs)
  then have "invoke_timer (OneShot_RunUserTask debug exec) clk' n s1 = Task_Run exec t
      (Stop OneShot_OnStop n (set_timer n ((t_timers s1 n)\<lparr>ti_user_task := None\<rparr>) s1))" for clk'
    using posts(2,3) time(2) s0(2,3) assms(1)
    by (simp add: invoke_timer_def OnScheduledTaskInvoked_def OneShot_RunUserTask_def Let_def)
  then show "\<exists>s2. t_sys s2 = t_sys s1 \<and> (\<forall>clk'. invoke_timer (OneShot_RunUserTask debug exec) clk' n s1 = Task_Run exec t s2)"
    by (intro exI conjI allI) (simp_all add: Stop_def OneShot_OnStop_def)
qed

text \<open>A repeating timer posts its next invocation before it runs the task, and stays running.\<close>

lemma repeating_again:
  assumes "t_alive s n" and "is_running (t_timers s n)" and "ti_user_task (t_timers s n) = Some t"
    and "\<not> scheduled_run_time (t_timers s n) < desired_run_time (t_timers s n)"
    and "lock_runner n s = Some r"
    and "invoke_timer (Repeating_RunUserTask exec clk) clk n s = Inr s'"
    and "td_Zero < ti_delay (t_timers s n)"
  shows "\<exists>s1 x. Task_Run exec t s1 = Inr s' \<and> is_running (t_timers s1 n)
    \<and> task_unit x = Some (TimerInvoke n)
    \<and> mset (delayed_task_queue (s_runners (t_sys s1) r))
        = add_mset (TimePoint (ticks (clk (s_clock (t_sys s))) + delta (ti_delay (t_timers s n))), Some x)
            (mset (delayed_task_queue (s_runners (t_sys s) r)))"
proof -
  obtain s1 where s1: "ScheduleNewTask clk n (ti_delay (t_timers s n)) s = Inr s1"
    and run: "(case ti_user_task (t_timers s1 n) of None \<Rightarrow> Inl (UB NullDeref)
       | Some t \<Rightarrow> Task_Run exec t s1) = Inr s'"
    using assms by (auto simp: invoke_timer_def OnScheduledTaskInvoked_def Repeating_RunUserTask_def Let_def)
  note p = ScheduleNewTask_posts [OF assms(5) s1]
  have "Task_Run exec t s1 = Inr s'" using run p(3) assms(3) by simp
  then show ?thesis using p(2) p(5) [OF assms(7)] by blast
qed

text \<open>
  The idle closure leaves the timer running with its task; so the timeout runs the task again.
  After the timeout has run it, the closure finds nothing.
\<close>

lemma idle_closure_then_timeout:
  assumes "ti_idle (t_timers s n) = Some i" and "t_idle_objs s i = Some it"
    and "keeps_timer n (\<lambda>(c, p). exec c p)"
    and "run_timer_idle exec i p s = Inr s1"
  shows "Idle_RunUserTask exec n s1
    = bind_res (IdleTask_Run exec it timeout_param s1) (\<lambda>s2. Inr (Stop Idle_OnStop n s2))"
proof -
  have "t_timers s1 n = t_timers s n \<and> t_idle_objs s1 = t_idle_objs s"
    using assms by (auto simp: run_timer_idle_def IdleTask_Run_def keeps_timer_def split: option.splits)
  then show ?thesis using assms(1,2) by (simp add: Idle_RunUserTask_def)
qed

lemma timeout_then_idle_closure:
  assumes "ti_idle (t_timers s n) = Some i" and "t_idle_objs s i = Some it"
    and "keeps_timer n (\<lambda>(c, p). exec c p)"
    and "Idle_RunUserTask exec n s = Inr s1"
  shows "run_timer_idle exec' i p s1 = Inr s1" and "\<not> is_running (t_timers s1 n)"
proof -
  obtain s2 where r: "IdleTask_Run exec it timeout_param s = Inr s2" and s1: "s1 = Stop Idle_OnStop n s2"
    using assms by (auto simp: Idle_RunUserTask_def)
  have "t_timers s2 n = t_timers s n"
    using r assms(3) by (auto simp: IdleTask_Run_def keeps_timer_def split: option.splits)
  then show "run_timer_idle exec' i p s1 = Inr s1" and "\<not> is_running (t_timers s1 n)"
    using assms(1) s1 by (simp_all add: Stop_def Idle_OnStop_def drop_idle_def run_timer_idle_def)
qed

section \<open>Starting an idle timer\<close>

lemma ScheduleNewTask_keeps:
  assumes "ScheduleNewTask clk n d s = Inr s'"
  shows "ti_idle (t_timers s' n) = ti_idle (t_timers s n) \<and> t_idle_objs s' = t_idle_objs s
    \<and> t_alive s' = t_alive s"
  using assms
  by (auto simp: ScheduleNewTask_def Let_def bind_res_Inr_iff set_timer_def split_beta
      split: option.splits if_splits)

lemma ScheduleNewTask_idle:
  assumes "ScheduleNewTask clk n d s = Inr s'"
  shows "idle_task_queue (s_runners (t_sys s') q) = idle_task_queue (s_runners (t_sys s) q)"
  using assms
  by (auto simp: ScheduleNewTask_def Let_def Now_def Task_new_def post_result_Inr_iff PostTask_Inr_iff
      PostDelayedTask_Inr_iff notify_def set_runner_def split: option.splits if_splits)

lemma Reset_posted:
  assumes "lock_runner n s = Some r" and "Reset clk n s = Inr s'"
    and "scheduled_run_time (t_timers s n) < clk (s_clock (t_sys s))"
  shows "is_running (t_timers s' n) \<and> desired_run_time (t_timers s' n) = scheduled_run_time (t_timers s' n)
    \<and> ti_idle (t_timers s' n) = ti_idle (t_timers s n) \<and> t_idle_objs s' = t_idle_objs s
    \<and> t_alive s' = t_alive s \<and> pending_invocations n r s' = Suc (pending_invocations n r s)
    \<and> idle_task_queue (s_runners (t_sys s') r) = idle_task_queue (s_runners (t_sys s) r)"
proof -
  have r: "ScheduleNewTask clk n (ti_delay (t_timers s n)) (snd (t_Now clk s)) = Inr s'"
    using assms(2,3) by (simp add: Reset_def Let_def split_beta)
  have l: "lock_runner n (snd (t_Now clk s)) = Some r" using assms(1) by simp
  have k: "t_idle_objs (snd (t_Now clk s)) = t_idle_objs s" "t_alive (snd (t_Now clk s)) = t_alive s"
    by (simp_all add: t_Now_def split_beta)
  show ?thesis
    using ScheduleNewTask_posts(1,2,4) [OF l r] ScheduleNewTask_keeps [OF r] ScheduleNewTask_idle [OF r, of r] k
    by (simp add: pending_invocations_def)
qed

text \<open>
  What \<open>Start\<close> leaves behind: the idle task is owned by the timer; a closure that names it is the last of the
  runner's idle queue, and one more invocation of the timer is queued.
\<close>

lemma Idle_Start_timeout_state:
  assumes "lock_runner n s = Some r" and "Idle_Start_timeout debug clk n (Some it) d s = Inr s'"
    and "scheduled_run_time (t_timers s n) < clk (s_clock (t_sys s))"
  shows "\<exists>i it'. ti_idle (t_timers s' n) = Some i \<and> t_idle_objs s' i = Some it' \<and> idle_unit it' = idle_unit it
    \<and> is_running (t_timers s' n) \<and> t_alive s' = t_alive s
    \<and> \<not> scheduled_run_time (t_timers s' n) < desired_run_time (t_timers s' n)
    \<and> (\<exists>closure. idle_unit closure = Some (TimerIdle i) \<and>
         idle_task_queue (s_runners (t_sys s') r) = idle_task_queue (s_runners (t_sys s) r) @ [Some closure])
    \<and> pending_invocations n r s' = Suc (pending_invocations n r s)"
proof -
  obtain i s1 where o: "own_idle n it s = (i, s1)" by (cases "own_idle n it s")
  obtain closure counter where c: "IdleTask_new (t_idle_counter s1) (Some (TimerIdle i)) = (closure, counter)"
    by (cases "IdleTask_new (t_idle_counter s1) (Some (TimerIdle i))")
  obtain s2 where p: "post_idle r closure (s1\<lparr>t_idle_counter := counter\<rparr>) = Inr s2"
    and st: "StartInternal clk n d s2 = Inr s'"
    using assms(1,2) o c by (auto simp: Idle_Start_timeout_def bind_res_Inr_iff split: if_splits)
  have s1: "ti_idle (t_timers s1 n) = Some i" "\<exists>it'. t_idle_objs s1 i = Some it' \<and> idle_unit it' = idle_unit it"
    "t_sys s1 = t_sys s" "t_alive s1 = t_alive s" "t_runner_alive s1 = t_runner_alive s"
    "ti_runner (t_timers s1 n) = ti_runner (t_timers s n)"
    "scheduled_run_time (t_timers s1 n) = scheduled_run_time (t_timers s n)"
    using o by (auto simp: own_idle_def drop_idle_def Let_def set_timer_def IdleTask_new_def IdleTask_GetUnit_def
        split: option.splits)
  have s2: "t_timers s2 = t_timers s1" "t_idle_objs s2 = t_idle_objs s1" "t_alive s2 = t_alive s1"
    "t_runner_alive s2 = t_runner_alive s1" "s_clock (t_sys s2) = s_clock (t_sys s1)"
    using p by (auto simp: post_idle_def bind_res_Inr_iff post_result_Inr_iff notify_def set_runner_def)
  have q: "idle_task_queue (s_runners (t_sys s2) r) = idle_task_queue (s_runners (t_sys s) r) @ [Some closure]"
    "pending_invocations n r s2 = pending_invocations n r s"
    using p s1(3)
    by (auto simp: post_idle_def bind_res_Inr_iff post_result_Inr_iff notify_def set_runner_def PostIdleTask_def
        pending_invocations_def pending_tasks_def Let_def)
  have "idle_unit closure = Some (TimerIdle i)" using c by (auto simp: IdleTask_new_def)
  note q = q this
  let ?s = "set_timer n ((t_timers s2 n)\<lparr>ti_delay := d\<rparr>) s2"
  have "lock_runner n ?s = Some r" using assms(1) s1 s2 by (simp add: lock_runner_Some_iff)
  moreover have "scheduled_run_time (t_timers ?s n) < clk (s_clock (t_sys ?s))"
    using assms(3) s1 s2 by simp
  ultimately have "is_running (t_timers s' n) \<and> desired_run_time (t_timers s' n) = scheduled_run_time (t_timers s' n)
    \<and> ti_idle (t_timers s' n) = ti_idle (t_timers ?s n) \<and> t_idle_objs s' = t_idle_objs ?s \<and> t_alive s' = t_alive ?s
    \<and> pending_invocations n r s' = Suc (pending_invocations n r ?s)
    \<and> idle_task_queue (s_runners (t_sys s') r) = idle_task_queue (s_runners (t_sys ?s) r)"
    using Reset_posted [of n ?s r clk s'] st by (simp add: StartInternal_def)
  moreover have "pending_invocations n r ?s = pending_invocations n r s2" by (simp add: pending_invocations_def)
  ultimately show ?thesis using s1 s2 q by auto
qed

end
