(* ===== verification/Fs_Bounded_Queue.thy ===== *)
theory Fs_Bounded_Queue
  imports Fs_Prelude
begin

text \<open>
  The contract of a bounded first-in first-out queue, \<open>bounded_queue\<close>, with what follows from it for
  \<open>push_until_success\<close>, \<open>consume_all\<close> and whole runs; and \<open>include/footstone/thread_safe_queue.h\<close>,
  whose operations are atomic under its mutex.  \<open>pop\<close> gives the element it stores through its
  reference, or \<open>None\<close> where it returns false.
\<close>

section \<open>The abstract queue\<close>

text \<open>What a bounded queue is: a list to which elements are added at the end while there is room.\<close>

definition list_push :: "nat \<Rightarrow> 'a \<Rightarrow> 'a list \<Rightarrow> bool \<times> 'a list" where
  "list_push cap x xs = (if length xs < cap then (True, xs @ [x]) else (False, xs))"

definition list_pop :: "'a list \<Rightarrow> 'a option \<times> 'a list" where
  "list_pop xs = (case xs of [] \<Rightarrow> (None, []) | x # ys \<Rightarrow> (Some x, ys))"

datatype 'a queue_op = OpPush 'a | OpPop

datatype 'a queue_out = OutPush bool | OutPop "'a option"

fun queue_run ::
    "('a \<Rightarrow> 'q \<Rightarrow> bool \<times> 'q) \<Rightarrow> ('q \<Rightarrow> 'a option \<times> 'q) \<Rightarrow> 'a queue_op list \<Rightarrow> 'q
       \<Rightarrow> 'a queue_out list \<times> 'q" where
  "queue_run push pop [] q = ([], q)"
| "queue_run push pop (OpPush x # os) q =
     (let (b, q1) = push x q; (outs, q2) = queue_run push pop os q1 in (OutPush b # outs, q2))"
| "queue_run push pop (OpPop # os) q =
     (let (v, q1) = pop q; (outs, q2) = queue_run push pop os q1 in (OutPop v # outs, q2))"

section \<open>Operations built on push and pop\<close>

text \<open>
  \<open>while (!push(val)) { T popedVal; pop(popedVal); }\<close>.  The fuel bounds the calls of \<open>push\<close>; \<open>None\<close>
  means that the loop is still running.
\<close>

fun push_until ::
    "('a \<Rightarrow> 'q \<Rightarrow> bool \<times> 'q) \<Rightarrow> ('q \<Rightarrow> 'a option \<times> 'q) \<Rightarrow> nat \<Rightarrow> 'a \<Rightarrow> 'q \<Rightarrow> 'q option" where
  "push_until push pop 0 x q = None"
| "push_until push pop (Suc fuel) x q =
     (case push x q of
        (True, q') \<Rightarrow> Some q'
      | (False, q') \<Rightarrow> push_until push pop fuel x (snd (pop q')))"

text \<open>\<open>consume_one\<close> calls \<open>f\<close> on the element; \<open>f\<close> works on the queue and a state of its own.\<close>

definition consume_one ::
    "('q \<Rightarrow> 'a option \<times> 'q) \<Rightarrow> ('a \<Rightarrow> 'q \<times> 'e \<Rightarrow> 'q \<times> 'e) \<Rightarrow> 'q \<times> 'e \<Rightarrow> bool \<times> 'q \<times> 'e" where
  "consume_one pop f s =
     (case pop (fst s) of
        (Some x, q') \<Rightarrow> (True, f x (q', snd s))
      | (None, q') \<Rightarrow> (False, (q', snd s)))"

fun consume_all ::
    "('q \<Rightarrow> 'a option \<times> 'q) \<Rightarrow> ('a \<Rightarrow> 'q \<times> 'e \<Rightarrow> 'q \<times> 'e) \<Rightarrow> nat \<Rightarrow> nat \<Rightarrow> 'q \<times> 'e \<Rightarrow> (nat \<times> 'q \<times> 'e) option" where
  "consume_all pop f 0 n s = None"
| "consume_all pop f (Suc fuel) n s =
     (case consume_one pop f s of
        (True, s') \<Rightarrow> consume_all pop f fuel (Suc n) s'
      | (False, s') \<Rightarrow> Some (n, s'))"

section \<open>The contract\<close>

locale bounded_queue =
  fixes contents :: "'q \<Rightarrow> 'a list"
    and push :: "'a \<Rightarrow> 'q \<Rightarrow> bool \<times> 'q"
    and pop :: "'q \<Rightarrow> 'a option \<times> 'q"
    and capacity :: "'q \<Rightarrow> nat"
    and invar :: "'q \<Rightarrow> bool"
  assumes length_le: "invar q \<Longrightarrow> length (contents q) \<le> capacity q"
    and push_law: "invar q \<Longrightarrow> push x q = (b, q') \<Longrightarrow>
      (b, contents q') = list_push (capacity q) x (contents q) \<and> invar q' \<and> capacity q' = capacity q"
    and pop_law: "invar q \<Longrightarrow> pop q = (v, q') \<Longrightarrow>
      (v, contents q') = list_pop (contents q) \<and> invar q' \<and> capacity q' = capacity q"
begin

text \<open>Every run gives the answers of the abstract queue.\<close>

lemma run_refines:
  "invar q \<Longrightarrow> queue_run push pop os q = (outs, q') \<Longrightarrow>
     queue_run (list_push (capacity q)) list_pop os (contents q) = (outs, contents q')
     \<and> invar q' \<and> capacity q' = capacity q"
proof (induction os arbitrary: q outs)
  case Nil
  then show ?case by simp
next
  case (Cons e os)
  show ?case
  proof (cases e)
    case (OpPush x)
    obtain b q1 where p: "push x q = (b, q1)" by (cases "push x q")
    obtain outs1 where r: "queue_run push pop os q1 = (outs1, q')" and o: "outs = OutPush b # outs1"
      using Cons.prems(2) OpPush p by (cases "queue_run push pop os q1") auto
    have e: "list_push (capacity q) x (contents q) = (b, contents q1)" "invar q1" "capacity q1 = capacity q"
      using push_law [OF Cons.prems(1) p] by auto
    show ?thesis using Cons.IH [OF e(2) r] e(1,3) o OpPush by simp
  next
    case OpPop
    obtain v q1 where p: "pop q = (v, q1)" by (cases "pop q")
    obtain outs1 where r: "queue_run push pop os q1 = (outs1, q')" and o: "outs = OutPop v # outs1"
      using Cons.prems(2) OpPop p by (cases "queue_run push pop os q1") auto
    have e: "list_pop (contents q) = (v, contents q1)" "invar q1" "capacity q1 = capacity q"
      using pop_law [OF Cons.prems(1) p] by auto
    show ?thesis using Cons.IH [OF e(2) r] e(1,3) o OpPop by simp
  qed
qed

text \<open>
  With room for one element \<open>push_until_success\<close> needs at most two calls of \<open>push\<close>: it drops the
  oldest element where the queue is full.  Without room it never returns.
\<close>

lemma push_until_done:
  assumes "invar q" and "0 < capacity q"
  shows "\<exists>q'. push_until push pop (Suc (Suc fuel)) x q = Some q' \<and> invar q'
    \<and> contents q' = (if length (contents q) < capacity q then contents q else tl (contents q)) @ [x]"
proof -
  obtain b q1 where p: "push x q = (b, q1)" by (cases "push x q")
  note l1 = push_law [OF assms(1) p]
  show ?thesis
  proof (cases "length (contents q) < capacity q")
    case True
    then show ?thesis using p l1 by (simp add: list_push_def)
  next
    case False
    then have b: "b = False" "contents q1 = contents q" and len: "length (contents q) = capacity q"
      using l1 length_le [OF assms(1)] by (simp_all add: list_push_def)
    obtain v q2 where o: "pop q1 = (v, q2)" by (cases "pop q1")
    have l2: "contents q2 = tl (contents q)" "invar q2" "capacity q2 = capacity q"
      using pop_law [OF _ o] l1 b by (auto simp: list_pop_def split: list.splits)
    obtain b' q3 where p3: "push x q2 = (b', q3)" by (cases "push x q2")
    have "b' = True \<and> contents q3 = tl (contents q) @ [x] \<and> invar q3"
      using push_law [OF l2(2) p3] l2 len assms(2) by (auto simp: list_push_def split: if_splits)
    then show ?thesis using p b o p3 False by simp
  qed
qed

lemma push_until_stuck:
  "invar q \<Longrightarrow> capacity q = 0 \<Longrightarrow> push_until push pop fuel x q = None"
proof (induction fuel arbitrary: q)
  case 0
  then show ?case by simp
next
  case (Suc fuel)
  obtain b q1 where p: "push x q = (b, q1)" by (cases "push x q")
  note l1 = push_law [OF Suc.prems(1) p]
  obtain v q2 where o: "pop q1 = (v, q2)" by (cases "pop q1")
  have "b = False" "invar q2" "capacity q2 = 0"
    using l1 pop_law [OF _ o] Suc.prems(2) by (auto simp: list_push_def)
  then show ?case using Suc.IH p o by simp
qed

text \<open>A functor that leaves the queue alone sees every element once, in order.\<close>

lemma consume_all_done:
  assumes f: "\<And>x q e. f x (q, e) = (q, g x e)"
  shows "invar q \<Longrightarrow> length (contents q) < fuel \<Longrightarrow>
    \<exists>q'. consume_all pop f fuel n (q, e) = Some (n + length (contents q), q', fold g (contents q) e)
      \<and> contents q' = []"
proof (induction "contents q" arbitrary: q e n fuel)
  case Nil
  obtain v q1 where o: "pop q = (v, q1)" by (cases "pop q")
  have "v = None \<and> contents q1 = []"
    using pop_law [OF Nil.prems(1) o] Nil.hyps by (simp add: list_pop_def flip: Nil.hyps)
  then show ?case using o Nil by (cases fuel) (auto simp: consume_one_def)
next
  case (Cons x xs)
  obtain v q1 where o: "pop q = (v, q1)" by (cases "pop q")
  have l: "v = Some x \<and> contents q1 = xs \<and> invar q1"
    using pop_law [OF Cons.prems(1) o] by (simp add: list_pop_def flip: Cons.hyps(2))
  obtain k where k: "fuel = Suc k" "length (contents q1) < k"
    using Cons.prems(2) l by (cases fuel) (auto simp flip: Cons.hyps(2))
  have "\<exists>q'. consume_all pop f k (Suc n) (q1, g x e) = Some (Suc n + length (contents q1), q', fold g (contents q1) (g x e))
      \<and> contents q' = []"
    using Cons.hyps(1) [of q1 k "Suc n" "g x e"] l k by simp
  then show ?case using o l k f by (auto simp: consume_one_def simp flip: Cons.hyps(2))
qed

end

section \<open>thread\_safe\_queue\<close>

record 'a safe_queue =
  sq_queue :: "'a list"
  max_count :: nat

definition safe_queue_new :: "nat \<Rightarrow> 'a safe_queue" where
  "safe_queue_new n = \<lparr>sq_queue = [], max_count = n\<rparr>"

definition safe_push :: "'a \<Rightarrow> 'a safe_queue \<Rightarrow> bool \<times> 'a safe_queue" where
  "safe_push x q =
     (if length (sq_queue q) \<ge> max_count q then (False, q)
      else (True, q\<lparr>sq_queue := sq_queue q @ [x]\<rparr>))"

definition safe_pop :: "'a safe_queue \<Rightarrow> 'a option \<times> 'a safe_queue" where
  "safe_pop q =
     (case sq_queue q of [] \<Rightarrow> (None, q) | x # xs \<Rightarrow> (Some x, q\<lparr>sq_queue := xs\<rparr>))"

definition safe_empty :: "'a safe_queue \<Rightarrow> bool" where
  "safe_empty q = (sq_queue q = [])"

definition safe_consume_one ::
    "('a \<Rightarrow> 'a safe_queue \<times> 'e \<Rightarrow> 'a safe_queue \<times> 'e) \<Rightarrow> 'a safe_queue \<times> 'e \<Rightarrow> bool \<times> 'a safe_queue \<times> 'e" where
  "safe_consume_one = consume_one safe_pop"

definition safe_consume_all ::
    "('a \<Rightarrow> 'a safe_queue \<times> 'e \<Rightarrow> 'a safe_queue \<times> 'e) \<Rightarrow> nat \<Rightarrow> 'a safe_queue \<times> 'e
       \<Rightarrow> (nat \<times> 'a safe_queue \<times> 'e) option" where
  "safe_consume_all f fuel s = consume_all safe_pop f fuel 0 s"

definition safe_invar :: "'a safe_queue \<Rightarrow> bool" where
  "safe_invar q \<longleftrightarrow> length (sq_queue q) \<le> max_count q"

interpretation safe: bounded_queue sq_queue safe_push safe_pop max_count safe_invar
  by unfold_locales (auto simp: safe_invar_def safe_push_def safe_pop_def list_push_def list_pop_def
      split: if_splits list.splits)

end
