(* ===== verification/Fs_Spsc_Queue.thy ===== *)
theory Fs_Spsc_Queue
  imports Fs_Bounded_Queue "HOL-Library.Type_Length"
begin

text \<open>
  \<open>include/footstone/spsc_queue.h\<close>: a ring buffer with one slot for every value of the index type \<open>U\<close>, a
  word of any width here (\<open>uint8_t\<close> is the default of the template).  Indices wrap; a comparison of
  expressions narrower than \<open>int\<close> is made in \<open>int\<close>, where \<open>id_tail - 1\<close> does not wrap.  First the
  operations run one after the other, then the interleavings of one producer and one consumer.
\<close>

record ('a, 'i) spsc =
  spsc_max :: nat
  spsc_block :: "'i \<Rightarrow> 'a"
  spsc_tail :: 'i
  spsc_head :: 'i

definition spsc_limit :: "'u::len itself \<Rightarrow> nat" where
  "spsc_limit _ = 2 ^ LENGTH('u) - 1"

text \<open>The slots hold whatever the default constructor of the elements gives.\<close>

definition spsc_new :: "nat \<Rightarrow> 'a \<Rightarrow> ('a, 'u::len word) spsc" where
  "spsc_new n dflt = \<lparr>spsc_max = n, spsc_block = (\<lambda>_. dflt), spsc_tail = 0, spsc_head = 0\<rparr>"

definition spsc_empty :: "('a, 'u::len word) spsc \<Rightarrow> bool" where
  "spsc_empty q = (spsc_tail q = spsc_head q)"

text \<open>\<open>id_head == id_tail - 1\<close>, with integral promotion for an index narrower than \<open>int\<close>.\<close>

definition spsc_index_full :: "'u::len word \<Rightarrow> 'u word \<Rightarrow> bool" where
  "spsc_index_full h t = (if LENGTH('u) < 32 then uint h = uint t - 1 else h = t - 1)"

definition spsc_full :: "nat \<Rightarrow> 'u::len word \<Rightarrow> 'u word \<Rightarrow> bool" where
  "spsc_full mx h t = (spsc_index_full h t \<or> unat (h - t) \<ge> mx)"

definition spsc_push :: "'a \<Rightarrow> ('a, 'u::len word) spsc \<Rightarrow> bool \<times> ('a, 'u word) spsc" where
  "spsc_push x q =
     (let id_head = spsc_head q; id_tail = spsc_tail q in
      if spsc_full (spsc_max q) id_head id_tail then (False, q)
      else (True, q\<lparr>spsc_block := (spsc_block q)(id_head := x), spsc_head := id_head + 1\<rparr>))"

definition spsc_pop :: "('a, 'u::len word) spsc \<Rightarrow> 'a option \<times> ('a, 'u word) spsc" where
  "spsc_pop q =
     (let id_tail = spsc_tail q in
      if id_tail = spsc_head q then (None, q)
      else (Some (spsc_block q id_tail), q\<lparr>spsc_tail := id_tail + 1\<rparr>))"

definition spsc_push_until_success :: "nat \<Rightarrow> 'a \<Rightarrow> ('a, 'u::len word) spsc \<Rightarrow> ('a, 'u word) spsc option" where
  "spsc_push_until_success fuel x q = push_until spsc_push spsc_pop fuel x q"

section \<open>The ring as a list\<close>

definition spsc_count :: "('a, 'u::len word) spsc \<Rightarrow> nat" where
  "spsc_count q = unat (spsc_head q - spsc_tail q)"

definition ring_list :: "('u::len word \<Rightarrow> 'a) \<Rightarrow> 'u word \<Rightarrow> nat \<Rightarrow> 'a list" where
  "ring_list b t n = map (\<lambda>i. b (t + word_of_nat i)) [0..<n]"

definition spsc_contents :: "('a, 'u::len word) spsc \<Rightarrow> 'a list" where
  "spsc_contents q = ring_list (spsc_block q) (spsc_tail q) (spsc_count q)"

lemma length_ring_list [simp]: "length (ring_list b t n) = n"
  by (simp add: ring_list_def)

lemma ring_list_snoc: "ring_list b t (Suc n) = ring_list b t n @ [b (t + word_of_nat n)]"
  by (simp add: ring_list_def)

lemma ring_list_Cons: "ring_list b t (Suc n) = b t # ring_list b (t + 1) n"
proof -
  have "[0..<Suc n] = 0 # map Suc [0..<n]" by (simp add: map_Suc_upt upt_conv_Cons del: upt_Suc)
  then show ?thesis by (simp add: ring_list_def add.assoc del: upt_Suc)
qed

text \<open>Writing the slot behind the last one does not show, as long as there is one.\<close>

lemma ring_list_upd:
  assumes "n < 2 ^ LENGTH('u)"
  shows "ring_list (b(t + word_of_nat n := x)) (t :: 'u::len word) n = ring_list b t n"
proof -
  have "t + word_of_nat i \<noteq> t + word_of_nat n" if "i < n" for i
  proof
    assume "t + word_of_nat i = t + word_of_nat n"
    then have "(word_of_nat i :: 'u word) = word_of_nat n" by simp
    then have "unat (word_of_nat i :: 'u word) = unat (word_of_nat n :: 'u word)" by simp
    then show False using that assms by (simp add: unat_of_nat take_bit_nat_eq_self)
  qed
  then show ?thesis by (simp add: ring_list_def)
qed

lemma word_of_nat_diff: "t + word_of_nat (unat (h - t)) = (h :: 'u::len word)"
  by simp

lemma unat_diff_Suc:
  assumes "unat (h - t :: 'u::len word) + 1 < 2 ^ LENGTH('u)"
  shows "unat (h + 1 - t) = Suc (unat (h - t))"
proof -
  have e: "h + 1 - t = h - t + 1" by (simp add: algebra_simps)
  have "unat (h - t + 1) = (unat (h - t) + 1) mod 2 ^ LENGTH('u)"
    by (simp only: unat_word_ariths) (simp add: mod_Suc_eq)
  then show ?thesis unfolding e using assms by simp
qed

lemma unat_diff_pred:
  assumes "t \<noteq> (h :: 'u::len word)"
  shows "unat (h - t) = Suc (unat (h - (t + 1)))"
proof -
  have e: "h - (t + 1) = h - t - 1" and n: "h - t \<noteq> 0" using assms by (simp_all add: algebra_simps)
  then have "0 < unat (h - t)" by (simp add: unat_gt_0)
  moreover have "unat (h - t - 1) = unat (h - t) - 1" by (rule unat_minus_one [OF n])
  ultimately show ?thesis unfolding e by simp
qed

lemma unat_minus_1: "unat (- 1 :: 'u::len word) = 2 ^ LENGTH('u) - 1"
  by (simp add: unsigned_minus_1_eq_mask mask_eq_exp_minus_1)

text \<open>The comparison with \<open>id_tail - 1\<close> is never stricter than a full ring.\<close>

lemma spsc_index_full_count:
  assumes "spsc_index_full h (t :: 'u::len word)"
  shows "unat (h - t) = 2 ^ LENGTH('u) - 1"
proof -
  have "h = t - 1"
  proof (cases "LENGTH('u) < 32")
    case True
    then have u: "uint h = uint t - 1" using assms by (simp add: spsc_index_full_def)
    then have "(word_of_int (uint h) :: 'u word) = word_of_int (uint t - 1)" by simp
    then show ?thesis by simp
  next
    case False
    then show ?thesis using assms by (simp add: spsc_index_full_def)
  qed
  then have "h - t = - 1" by simp
  then show ?thesis by (simp only: unat_minus_1)
qed

text \<open>
  The queue is within its bounds when the limit fits the index type, as the comment on the
  constructor demands, and it holds no more than the limit.
\<close>

definition spsc_invar :: "('a, 'u::len word) spsc \<Rightarrow> bool" where
  "spsc_invar q \<longleftrightarrow> spsc_max q \<le> spsc_limit TYPE('u) \<and> spsc_count q \<le> spsc_max q"

lemma spsc_limit_less: "spsc_limit TYPE('u::len) < 2 ^ LENGTH('u)"
  by (simp add: spsc_limit_def)

lemma spsc_push_list:
  fixes q :: "('a, 'u::len word) spsc"
  assumes "spsc_invar q" and "spsc_push x q = (b, q')"
  shows "(b, spsc_contents q') = list_push (spsc_max q) x (spsc_contents q) \<and> spsc_invar q'
    \<and> spsc_max q' = spsc_max q"
proof (cases "spsc_count q < spsc_max q")
  case True
  have lt: "spsc_count q + 1 < 2 ^ LENGTH('u)"
    using True assms(1) spsc_limit_less [where 'u = 'u] by (simp add: spsc_invar_def)
  have "\<not> spsc_index_full (spsc_head q) (spsc_tail q)"
    using spsc_index_full_count [of "spsc_head q" "spsc_tail q"] lt by (auto simp: spsc_count_def)
  then have nf: "\<not> spsc_full (spsc_max q) (spsc_head q) (spsc_tail q)"
    using True by (simp add: spsc_full_def spsc_count_def)
  then have b: "b" and q': "q' = q\<lparr>spsc_block := (spsc_block q)(spsc_head q := x), spsc_head := spsc_head q + 1\<rparr>"
    using assms(2) by (simp_all add: spsc_push_def Let_def)
  have c: "spsc_count q' = Suc (spsc_count q)"
    using unat_diff_Suc [of "spsc_head q" "spsc_tail q"] lt by (simp add: q' spsc_count_def)
  have h: "spsc_tail q + word_of_nat (spsc_count q) = spsc_head q"
    unfolding spsc_count_def by (rule word_of_nat_diff)
  have "ring_list ((spsc_block q)(spsc_head q := x)) (spsc_tail q) (spsc_count q)
      = ring_list (spsc_block q) (spsc_tail q) (spsc_count q)"
    using ring_list_upd [of "spsc_count q" "spsc_block q" "spsc_tail q" x] lt by (simp only: h)
  then have "spsc_contents q' = spsc_contents q @ [x]"
    unfolding spsc_contents_def c ring_list_snoc by (simp add: q' h)
  then show ?thesis using b c q' True assms(1)
    by (simp add: list_push_def spsc_contents_def spsc_invar_def)
next
  case False
  then have "spsc_full (spsc_max q) (spsc_head q) (spsc_tail q)"
    by (simp add: spsc_full_def spsc_count_def)
  then show ?thesis using assms False
    by (simp add: spsc_push_def list_push_def spsc_contents_def)
qed

lemma spsc_pop_list:
  fixes q :: "('a, 'u::len word) spsc"
  assumes "spsc_invar q" and "spsc_pop q = (v, q')"
  shows "(v, spsc_contents q') = list_pop (spsc_contents q) \<and> spsc_invar q' \<and> spsc_max q' = spsc_max q"
proof (cases "spsc_tail q = spsc_head q")
  case True
  then show ?thesis using assms
    by (simp add: spsc_pop_def list_pop_def spsc_contents_def spsc_count_def ring_list_def)
next
  case False
  then have v: "v = Some (spsc_block q (spsc_tail q))" and q': "q' = q\<lparr>spsc_tail := spsc_tail q + 1\<rparr>"
    using assms(2) by (simp_all add: spsc_pop_def Let_def)
  have c: "spsc_count q = Suc (spsc_count q')"
    using unat_diff_pred [OF False] by (simp add: q' spsc_count_def)
  then have "spsc_contents q = spsc_block q (spsc_tail q) # spsc_contents q'"
    by (simp add: spsc_contents_def ring_list_Cons q')
  then show ?thesis using v c q' assms(1) by (simp add: list_pop_def spsc_invar_def)
qed

interpretation ring: bounded_queue spsc_contents spsc_push spsc_pop spsc_max spsc_invar
proof
  fix q :: "('a, 'u::len word) spsc" and x b q' v
  show "spsc_invar q \<Longrightarrow> length (spsc_contents q) \<le> spsc_max q"
    by (simp add: spsc_invar_def spsc_contents_def)
  show "spsc_invar q \<Longrightarrow> spsc_push x q = (b, q') \<Longrightarrow>
      (b, spsc_contents q') = list_push (spsc_max q) x (spsc_contents q) \<and> spsc_invar q'
        \<and> spsc_max q' = spsc_max q"
    by (rule spsc_push_list)
  show "spsc_invar q \<Longrightarrow> spsc_pop q = (v, q') \<Longrightarrow>
      (v, spsc_contents q') = list_pop (spsc_contents q) \<and> spsc_invar q' \<and> spsc_max q' = spsc_max q"
    by (rule spsc_pop_list)
qed

text \<open>
  A limit above the largest index: with the tail at 0 the full ring is not recognised, and one more
  push makes the head meet the tail, so that the queue is empty.
\<close>

lemma spsc_overflow:
  fixes q :: "('a, 'u::len word) spsc"
  assumes "LENGTH('u) < 32" and "spsc_tail q = 0" and "spsc_head q = - 1"
    and "2 ^ LENGTH('u) \<le> spsc_max q"
  shows "\<exists>q'. spsc_push x q = (True, q') \<and> spsc_contents q' = []
    \<and> length (spsc_contents q) = 2 ^ LENGTH('u) - 1"
proof -
  have u: "unat (- 1 :: 'u word) = 2 ^ LENGTH('u) - 1" by (rule unat_minus_1)
  have "uint (- 1 :: 'u word) \<noteq> - 1" using uint_ge_0 [of "- 1 :: 'u word"] by linarith
  then have "\<not> spsc_index_full (spsc_head q) (spsc_tail q)"
    using assms(1-3) by (simp add: spsc_index_full_def)
  moreover have "unat (spsc_head q - spsc_tail q) < spsc_max q"
  proof -
    have "2 ^ LENGTH('u) - 1 < spsc_max q"
      using assms(4) zero_less_power [of "2 :: nat" "LENGTH('u)"] by linarith
    then show ?thesis using assms(2,3) u by simp
  qed
  ultimately have "\<not> spsc_full (spsc_max q) (spsc_head q) (spsc_tail q)" by (simp add: spsc_full_def)
  then show ?thesis using assms u
    by (simp add: spsc_push_def spsc_contents_def spsc_count_def ring_list_def)
qed

end
