(* ===== verification/Fs_Spsc_Interleave.thy ===== *)
theory Fs_Spsc_Interleave
  imports Fs_Spsc_Queue
begin

text \<open>
  One producer and one consumer of \<open>spsc_queue\<close> at the same time.  Each atomic access, and each access
  to a slot, is a step; the steps of the two threads interleave in any order.  The acquire and release
  orders of the code make the accesses of each pair visible in that order, so interleaving is what a
  run can show.  The state records what was pushed and what was popped.
\<close>

datatype ('a, 'i) producer =
    PIdle
  | PLoaded 'a 'i 'i   \<comment> \<open>the element, \<open>id_head\<close> and \<open>id_tail\<close>\<close>
  | PWritten 'a 'i

datatype ('a, 'i) consumer =
    CIdle
  | CLoaded 'i         \<comment> \<open>\<open>id_tail\<close>, different from the head that was loaded\<close>
  | CRead 'i 'a

record ('a, 'i) ring_state =
  ring :: "('a, 'i) spsc"
  prod_pc :: "('a, 'i) producer"
  cons_pc :: "('a, 'i) consumer"
  pushed :: "'a list"
  popped :: "'a list"

definition ring_init :: "nat \<Rightarrow> 'a \<Rightarrow> ('a, 'u::len word) ring_state" where
  "ring_init n dflt =
     \<lparr>ring = spsc_new n dflt, prod_pc = PIdle, cons_pc = CIdle, pushed = [], popped = []\<rparr>"

text \<open>
  The producer loads its own head and the tail, tests, writes the slot and advances the head; the
  consumer loads its own tail and the head, tests, reads the slot and advances the tail.  A thread's
  own index is changed by nobody else, so loading it is part of the step that loads the other one.
\<close>

inductive ring_step :: "('a, 'u::len word) ring_state \<Rightarrow> ('a, 'u word) ring_state \<Rightarrow> bool" where
  push_load: "prod_pc s = PIdle \<Longrightarrow>
     ring_step s (s\<lparr>prod_pc := PLoaded x (spsc_head (ring s)) (spsc_tail (ring s))\<rparr>)"
| push_full: "prod_pc s = PLoaded x h t \<Longrightarrow> spsc_full (spsc_max (ring s)) h t \<Longrightarrow>
     ring_step s (s\<lparr>prod_pc := PIdle\<rparr>)"
| push_write: "prod_pc s = PLoaded x h t \<Longrightarrow> \<not> spsc_full (spsc_max (ring s)) h t \<Longrightarrow>
     ring_step s (s\<lparr>prod_pc := PWritten x h,
       ring := (ring s)\<lparr>spsc_block := (spsc_block (ring s))(h := x)\<rparr>\<rparr>)"
| push_done: "prod_pc s = PWritten x h \<Longrightarrow>
     ring_step s (s\<lparr>prod_pc := PIdle, pushed := pushed s @ [x],
       ring := (ring s)\<lparr>spsc_head := spsc_head (ring s) + 1\<rparr>\<rparr>)"
| pop_empty: "cons_pc s = CIdle \<Longrightarrow> spsc_tail (ring s) = spsc_head (ring s) \<Longrightarrow> ring_step s s"
| pop_load: "cons_pc s = CIdle \<Longrightarrow> spsc_tail (ring s) \<noteq> spsc_head (ring s) \<Longrightarrow>
     ring_step s (s\<lparr>cons_pc := CLoaded (spsc_tail (ring s))\<rparr>)"
| pop_read: "cons_pc s = CLoaded t \<Longrightarrow> ring_step s (s\<lparr>cons_pc := CRead t (spsc_block (ring s) t)\<rparr>)"
| pop_done: "cons_pc s = CRead t x \<Longrightarrow>
     ring_step s (s\<lparr>cons_pc := CIdle, popped := popped s @ [x],
       ring := (ring s)\<lparr>spsc_tail := spsc_tail (ring s) + 1\<rparr>\<rparr>)"

inductive_cases ring_stepE: "ring_step s s'"

inductive ring_reach :: "nat \<Rightarrow> 'a \<Rightarrow> ('a, 'u::len word) ring_state \<Rightarrow> bool" for n dflt where
  reach_init: "ring_reach n dflt (ring_init n dflt)"
| reach_step: "ring_reach n dflt s \<Longrightarrow> ring_step s s' \<Longrightarrow> ring_reach n dflt s'"

section \<open>The invariant\<close>

definition prod_ok :: "('a, 'u::len word) ring_state \<Rightarrow> bool" where
  "prod_ok s \<longleftrightarrow> (let q = ring s in
     case prod_pc s of
       PIdle \<Rightarrow> True
     | PLoaded x h t \<Rightarrow> h = spsc_head q \<and> spsc_count q \<le> unat (h - t)
     | PWritten x h \<Rightarrow> h = spsc_head q \<and> spsc_block q h = x \<and> spsc_count q < spsc_max q)"

definition cons_ok :: "('a, 'u::len word) ring_state \<Rightarrow> bool" where
  "cons_ok s \<longleftrightarrow> (let q = ring s in
     case cons_pc s of
       CIdle \<Rightarrow> True
     | CLoaded t \<Rightarrow> t = spsc_tail q \<and> t \<noteq> spsc_head q
     | CRead t x \<Rightarrow> t = spsc_tail q \<and> t \<noteq> spsc_head q \<and> spsc_block q t = x)"

definition ring_ok :: "('a, 'u::len word) ring_state \<Rightarrow> bool" where
  "ring_ok s \<longleftrightarrow> spsc_invar (ring s) \<and> pushed s = popped s @ spsc_contents (ring s)
     \<and> prod_ok s \<and> cons_ok s"

lemma ring_ok_init:
  assumes "n \<le> spsc_limit TYPE('u::len)"
  shows "ring_ok (ring_init n dflt :: ('a, 'u word) ring_state)"
  using assms
  by (simp add: ring_ok_def ring_init_def spsc_new_def spsc_invar_def spsc_contents_def spsc_count_def
      ring_list_def prod_ok_def cons_ok_def)

lemma spsc_full_less:
  fixes h t :: "'u::len word"
  assumes "\<not> spsc_full mx h t"
  shows "unat (h - t) < mx"
  using assms by (simp add: spsc_full_def)

text \<open>The slot that is written lies behind the last element.\<close>

lemma contents_write:
  fixes q :: "('a, 'u::len word) spsc"
  assumes "spsc_count q < 2 ^ LENGTH('u)" and "h = spsc_head q"
  shows "spsc_contents (q\<lparr>spsc_block := (spsc_block q)(h := x)\<rparr>) = spsc_contents q"
proof -
  have h: "spsc_tail q + word_of_nat (spsc_count q) = h"
    unfolding spsc_count_def assms(2) by (rule word_of_nat_diff)
  show ?thesis
    using ring_list_upd [OF assms(1), of "spsc_block q" "spsc_tail q" x]
    by (simp only: h) (simp add: spsc_contents_def spsc_count_def)
qed

lemma contents_head:
  fixes q :: "('a, 'u::len word) spsc"
  assumes "spsc_count q + 1 < 2 ^ LENGTH('u)"
  shows "spsc_contents (q\<lparr>spsc_head := spsc_head q + 1\<rparr>) = spsc_contents q @ [spsc_block q (spsc_head q)]"
    and "spsc_count (q\<lparr>spsc_head := spsc_head q + 1\<rparr>) = Suc (spsc_count q)"
proof -
  show c: "spsc_count (q\<lparr>spsc_head := spsc_head q + 1\<rparr>) = Suc (spsc_count q)"
    using unat_diff_Suc [of "spsc_head q" "spsc_tail q"] assms by (simp add: spsc_count_def)
  have h: "spsc_tail q + word_of_nat (spsc_count q) = spsc_head q"
    unfolding spsc_count_def by (rule word_of_nat_diff)
  show "spsc_contents (q\<lparr>spsc_head := spsc_head q + 1\<rparr>) = spsc_contents q @ [spsc_block q (spsc_head q)]"
    unfolding spsc_contents_def c ring_list_snoc by (simp add: h)
qed

lemma contents_tail:
  fixes q :: "('a, 'u::len word) spsc"
  assumes "spsc_tail q \<noteq> spsc_head q"
  shows "spsc_contents q = spsc_block q (spsc_tail q) # spsc_contents (q\<lparr>spsc_tail := spsc_tail q + 1\<rparr>)"
    and "spsc_count q = Suc (spsc_count (q\<lparr>spsc_tail := spsc_tail q + 1\<rparr>))"
proof -
  show c: "spsc_count q = Suc (spsc_count (q\<lparr>spsc_tail := spsc_tail q + 1\<rparr>))"
    using unat_diff_pred [OF assms] by (simp add: spsc_count_def)
  then show "spsc_contents q = spsc_block q (spsc_tail q) # spsc_contents (q\<lparr>spsc_tail := spsc_tail q + 1\<rparr>)"
    by (simp add: spsc_contents_def ring_list_Cons)
qed

lemma tail_differs_head_write:
  fixes q :: "('a, 'u::len word) spsc"
  assumes "spsc_tail q \<noteq> spsc_head q"
  shows "((spsc_block q)(spsc_head q := x)) (spsc_tail q) = spsc_block q (spsc_tail q)"
  using assms by simp

lemma ring_ok_step:
  fixes s s' :: "('a, 'u::len word) ring_state"
  assumes "ring_ok s" and "ring_step s s'"
  shows "ring_ok s'"
  using assms(2)
proof (cases rule: ring_step.cases)
  case (push_load x)
  then show ?thesis using assms(1)
    by (simp add: ring_ok_def prod_ok_def cons_ok_def spsc_count_def Let_def)
next
  case (push_full x h t)
  then show ?thesis using assms(1) by (simp add: ring_ok_def prod_ok_def cons_ok_def Let_def)
next
  case (push_write x h t)
  have h: "h = spsc_head (ring s)" and c: "spsc_count (ring s) < spsc_max (ring s)"
    using assms(1) push_write spsc_full_less [of "spsc_max (ring s)" h t]
    by (auto simp: ring_ok_def prod_ok_def Let_def)
  have lt: "spsc_count (ring s) < 2 ^ LENGTH('u)"
    using c assms(1) spsc_limit_less [where 'u = 'u] by (simp add: ring_ok_def spsc_invar_def)
  show ?thesis using assms(1) push_write contents_write [OF lt h, of x] h c
    by (auto simp: ring_ok_def prod_ok_def cons_ok_def spsc_invar_def spsc_count_def Let_def
        split: consumer.splits)
next
  case (push_done x h)
  have h: "h = spsc_head (ring s)" "spsc_block (ring s) h = x" and c: "spsc_count (ring s) < spsc_max (ring s)"
    using assms(1) push_done by (auto simp: ring_ok_def prod_ok_def Let_def)
  have lt: "spsc_count (ring s) + 1 < 2 ^ LENGTH('u)"
    using c assms(1) spsc_limit_less [where 'u = 'u] by (simp add: ring_ok_def spsc_invar_def)
  note ch = contents_head [OF lt]
  have "spsc_tail (ring s) \<noteq> spsc_head (ring s) + 1"
  proof
    assume "spsc_tail (ring s) = spsc_head (ring s) + 1"
    then have "spsc_count ((ring s)\<lparr>spsc_head := spsc_head (ring s) + 1\<rparr>) = 0"
      by (simp add: spsc_count_def)
    then show False using ch(2) by simp
  qed
  then show ?thesis using assms(1) push_done ch h c
    by (auto simp: ring_ok_def prod_ok_def cons_ok_def spsc_invar_def Let_def split: consumer.splits)
next
  case pop_empty
  then show ?thesis using assms(1) by simp
next
  case pop_load
  then show ?thesis using assms(1) by (simp add: ring_ok_def prod_ok_def cons_ok_def Let_def)
next
  case (pop_read t)
  then show ?thesis using assms(1) by (auto simp: ring_ok_def prod_ok_def cons_ok_def Let_def)
next
  case (pop_done t x)
  have t: "t = spsc_tail (ring s)" "spsc_block (ring s) t = x"
    and ne: "spsc_tail (ring s) \<noteq> spsc_head (ring s)"
    using assms(1) pop_done by (auto simp: ring_ok_def cons_ok_def Let_def)
  note ct = contents_tail [OF ne]
  show ?thesis using assms(1) pop_done ct t
    by (auto simp: ring_ok_def prod_ok_def cons_ok_def spsc_invar_def Let_def split: producer.splits)
qed

lemma ring_reach_ok:
  assumes "ring_reach n dflt s" and "n \<le> spsc_limit TYPE('u::len)"
  shows "ring_ok (s :: ('a, 'u word) ring_state) \<and> spsc_max (ring s) = n"
  using assms(1)
proof induction
  case reach_init
  then show ?case using ring_ok_init [OF assms(2)] by (simp add: ring_init_def spsc_new_def)
next
  case (reach_step s s')
  have "spsc_max (ring s') = spsc_max (ring s)"
    using reach_step(2) by (auto elim: ring_stepE)
  then show ?case using ring_ok_step [OF _ reach_step(2)] reach_step.IH by simp
qed

end
