(* ===== verification/Fs_Mpmc_Queue.thy ===== *)
theory Fs_Mpmc_Queue
  imports Fs_Spsc_Queue
begin

text \<open>
  \<open>include/footstone/mpmc_queue.h\<close>, operations running one after the other, so that every
  compare-and-exchange succeeds.  A slot carries a 64 bit flag beside its element: a producer reserves
  a slot by advancing \<open>flag_\<close>, writes it, marks it with its own index, and then publishes marked
  slots by advancing \<open>head_\<close>.  The two loops take fuel; \<open>None\<close> means that the loop is still running.
\<close>

record ('a, 'i) mpmc =
  mp_max :: nat
  mp_data :: "'i \<Rightarrow> 'a"
  mp_node_flag :: "'i \<Rightarrow> u64"
  mp_tail :: 'i
  mp_head :: 'i
  mp_flag :: 'i

definition invalid_index :: u64 where
  "invalid_index = - 1"

definition mp_new :: "nat \<Rightarrow> 'a \<Rightarrow> ('a, 'u::len word) mpmc" where
  "mp_new n dflt = \<lparr>mp_max = n, mp_data = (\<lambda>_. dflt), mp_node_flag = (\<lambda>_. invalid_index),
     mp_tail = 0, mp_head = 0, mp_flag = 0\<rparr>"

text \<open>
  The first loop of \<open>push\<close> reserves the slot \<open>flag_\<close>, and the element is stored and marked; \<open>None\<close>
  where the queue is full.
\<close>

definition mp_reserve :: "'a \<Rightarrow> ('a, 'u::len word) mpmc \<Rightarrow> ('u word \<times> ('a, 'u word) mpmc) option" where
  "mp_reserve x q =
     (let cur = mp_flag q; nxt = cur + 1 in
      if nxt = mp_tail q then None
      else if unat (nxt - mp_tail q) \<ge> mp_max q then None
      else Some (cur, q\<lparr>mp_flag := nxt, mp_data := (mp_data q)(cur := x),
                        mp_node_flag := (mp_node_flag q)(cur := ucast cur)\<rparr>))"

text \<open>The second loop of \<open>push\<close>, from the slot \<open>cur\<close> on.\<close>

fun mp_publish :: "nat \<Rightarrow> 'u::len word \<Rightarrow> ('a, 'u word) mpmc \<Rightarrow> ('a, 'u word) mpmc option" where
  "mp_publish 0 cur q = None"
| "mp_publish (Suc fuel) cur q =
     (if cur \<noteq> mp_head q then Some q
      else if mp_node_flag q cur \<noteq> ucast cur then Some q
      else mp_publish fuel (cur + 1)
             (q\<lparr>mp_node_flag := (mp_node_flag q)(cur := invalid_index), mp_head := cur + 1\<rparr>))"

definition mp_push :: "nat \<Rightarrow> 'a \<Rightarrow> ('a, 'u::len word) mpmc \<Rightarrow> (bool \<times> ('a, 'u word) mpmc) option" where
  "mp_push fuel x q =
     (case mp_reserve x q of
        None \<Rightarrow> Some (False, q)
      | Some (cur, q1) \<Rightarrow> map_option (\<lambda>q'. (True, q')) (mp_publish fuel cur q1))"

text \<open>
  \<open>pop\<close> helps to publish a marked slot at the head; it replaces the mark by \<open>size_limit\<close>, the largest
  index, not by \<open>invalid_index\<close>.
\<close>

fun mp_pop :: "nat \<Rightarrow> ('a, 'u::len word) mpmc \<Rightarrow> ('a option \<times> ('a, 'u word) mpmc) option" where
  "mp_pop 0 q = None"
| "mp_pop (Suc fuel) q =
     (let id_tail = mp_tail q in
      if id_tail = mp_head q then
        (if mp_node_flag q (mp_head q) \<noteq> ucast (mp_head q) then Some (None, q)
         else mp_pop fuel
           (q\<lparr>mp_node_flag := (mp_node_flag q)(mp_head q := word_of_nat (spsc_limit TYPE('u))),
             mp_head := mp_head q + 1\<rparr>))
      else Some (Some (mp_data q id_tail), q\<lparr>mp_tail := id_tail + 1\<rparr>))"

fun mp_push_until_success :: "nat \<Rightarrow> 'a \<Rightarrow> ('a, 'u::len word) mpmc \<Rightarrow> ('a, 'u word) mpmc option" where
  "mp_push_until_success 0 x q = None"
| "mp_push_until_success (Suc fuel) x q =
     (case mp_push (Suc (Suc fuel)) x q of
        None \<Rightarrow> None
      | Some (True, q') \<Rightarrow> Some q'
      | Some (False, q') \<Rightarrow>
          (case mp_pop (Suc fuel) q' of
             None \<Rightarrow> None
           | Some (v, q'') \<Rightarrow> mp_push_until_success fuel x q''))"

section \<open>The queue as a list\<close>

definition mp_count :: "('a, 'u::len word) mpmc \<Rightarrow> nat" where
  "mp_count q = unat (mp_head q - mp_tail q)"

definition mp_contents :: "('a, 'u::len word) mpmc \<Rightarrow> 'a list" where
  "mp_contents q = ring_list (mp_data q) (mp_tail q) (mp_count q)"

text \<open>One slot always stays free: the queue takes one element less than its \<open>max_size\<close>.\<close>

definition mp_capacity :: "('a, 'i) mpmc \<Rightarrow> nat" where
  "mp_capacity q = mp_max q - 1"

text \<open>Between two operations everything reserved is published and no slot is marked.\<close>

definition mp_invar :: "('a, 'u::len word) mpmc \<Rightarrow> bool" where
  "mp_invar q \<longleftrightarrow> LENGTH('u) < 64 \<and> mp_max q \<le> 2 ^ LENGTH('u) \<and> mp_head q = mp_flag q
     \<and> (\<forall>i. mp_node_flag q i \<noteq> ucast i) \<and> mp_count q \<le> mp_capacity q"

lemma invalid_not_index:
  assumes "LENGTH('u::len) < 64"
  shows "invalid_index \<noteq> ucast (i :: 'u word)"
proof
  assume e: "invalid_index = ucast i"
  have "unat (ucast i :: u64) < 2 ^ LENGTH('u)"
    using unsigned_less [of i] by (metis le_less_trans take_bit_nat_less_eq_self unsigned_ucast_eq)
  moreover have "unat (invalid_index) = 2 ^ 64 - 1" by (simp add: invalid_index_def unat_minus_1)
  moreover have "(2 :: nat) ^ LENGTH('u) \<le> 2 ^ 63" using assms by (intro power_increasing) simp_all
  ultimately show False using e by simp
qed

lemma mp_new_invar:
  assumes "LENGTH('u::len) < 64" and "n \<le> 2 ^ LENGTH('u)"
  shows "mp_invar (mp_new n dflt :: ('a, 'u word) mpmc)"
  using assms invalid_not_index [OF assms(1)]
  by (simp add: mp_invar_def mp_new_def mp_count_def)

lemma mp_push_list:
  fixes q :: "('a, 'u::len word) mpmc"
  assumes "mp_invar q"
  shows "\<exists>b q'. mp_push (Suc (Suc fuel)) x q = Some (b, q')
    \<and> (b, mp_contents q') = list_push (mp_capacity q) x (mp_contents q)
    \<and> mp_invar q' \<and> mp_capacity q' = mp_capacity q"
proof -
  let ?h = "mp_flag q" and ?t = "mp_tail q"
  have hf: "mp_head q = ?h" and u: "LENGTH('u) < 64" and mx: "mp_max q \<le> 2 ^ LENGTH('u)"
    and nf: "\<And>i. mp_node_flag q i \<noteq> ucast i" and le: "mp_count q \<le> mp_capacity q"
    using assms by (simp_all add: mp_invar_def)
  have len: "length (mp_contents q) = mp_count q" by (simp add: mp_contents_def)
  show ?thesis
  proof (cases "mp_count q < mp_capacity q")
    case True
    then have lt: "unat (?h - ?t) + 1 < 2 ^ LENGTH('u)" "unat (?h - ?t) + 1 < mp_max q"
      using mx hf by (simp_all add: mp_count_def mp_capacity_def)
    have s: "unat (?h + 1 - ?t) = Suc (unat (?h - ?t))" by (rule unat_diff_Suc [OF lt(1)])
    then have "?h + 1 \<noteq> ?t" by auto
    then have room: "?h + 1 \<noteq> ?t" "\<not> mp_max q \<le> unat (?h + 1 - ?t)" using s lt by simp_all
    have inv: "invalid_index \<noteq> ucast i" for i :: "'u word" by (rule invalid_not_index [OF u])
    have ne: "?h + 1 \<noteq> ?h"
    proof
      assume "?h + 1 = ?h"
      then have "?h + 1 - ?t = ?h - ?t" by simp
      then show False using s by simp
    qed
    define q' where "q' = q\<lparr>mp_flag := ?h + 1, mp_data := (mp_data q)(?h := x),
      mp_node_flag := (mp_node_flag q)(?h := invalid_index), mp_head := ?h + 1\<rparr>"
    have run: "mp_push (Suc (Suc fuel)) x q = Some (True, q')"
      using room hf nf [of "?h + 1"] ne by (simp add: mp_push_def mp_reserve_def Let_def q'_def)
    have c: "mp_count q' = Suc (mp_count q)" using s hf by (simp add: q'_def mp_count_def)
    have h: "?t + word_of_nat (mp_count q) = ?h"
      unfolding mp_count_def hf by (rule word_of_nat_diff)
    have "ring_list ((mp_data q)(?h := x)) ?t (mp_count q) = ring_list (mp_data q) ?t (mp_count q)"
      using ring_list_upd [of "mp_count q" "mp_data q" ?t x] lt(1) hf by (simp only: h) (simp add: mp_count_def)
    then have "mp_contents q' = mp_contents q @ [x]"
      unfolding mp_contents_def c ring_list_snoc by (simp add: q'_def h)
    moreover have "mp_invar q'"
      using assms c True inv by (auto simp: mp_invar_def q'_def mp_capacity_def)
    ultimately have "(True, mp_contents q') = list_push (mp_capacity q) x (mp_contents q)
        \<and> mp_invar q' \<and> mp_capacity q' = mp_capacity q"
      using True len by (simp add: list_push_def q'_def mp_capacity_def)
    then show ?thesis using run by blast
  next
    case False
    then have eq: "mp_count q = mp_max q - 1" using le by (simp add: mp_capacity_def)
    have "?h + 1 = ?t \<or> mp_max q \<le> unat (?h + 1 - ?t)"
    proof (cases "unat (?h - ?t) + 1 < 2 ^ LENGTH('u)")
      case True
      have "mp_max q \<le> Suc (mp_max q - 1)" by linarith
      then show ?thesis using unat_diff_Suc [OF True] eq hf by (simp add: mp_count_def)
    next
      case False
      moreover have "unat (?h - ?t) < 2 ^ LENGTH('u)" by (rule unsigned_less)
      ultimately have "unat (?h - ?t) = 2 ^ LENGTH('u) - 1" by linarith
      then have "unat (?h - ?t) = unat (- 1 :: 'u word)" by (simp only: unat_minus_1)
      then have "?h - ?t = - 1" by (rule word_unat_eq_iff [THEN iffD2])
      then show ?thesis by (simp add: diff_eq_eq)
    qed
    then have "mp_push (Suc (Suc fuel)) x q = Some (False, q)"
      by (auto simp: mp_push_def mp_reserve_def Let_def)
    moreover have "(False, mp_contents q) = list_push (mp_capacity q) x (mp_contents q)"
      using False len by (simp add: list_push_def)
    ultimately show ?thesis using assms by blast
  qed
qed

lemma mp_pop_list:
  fixes q :: "('a, 'u::len word) mpmc"
  assumes "mp_invar q"
  shows "\<exists>v q'. mp_pop (Suc fuel) q = Some (v, q')
    \<and> (v, mp_contents q') = list_pop (mp_contents q) \<and> mp_invar q' \<and> mp_capacity q' = mp_capacity q"
proof (cases "mp_tail q = mp_head q")
  case True
  then show ?thesis using assms
    by (simp add: mp_invar_def list_pop_def mp_contents_def mp_count_def ring_list_def Let_def)
next
  case False
  let ?q' = "q\<lparr>mp_tail := mp_tail q + 1\<rparr>"
  have run: "mp_pop (Suc fuel) q = Some (Some (mp_data q (mp_tail q)), ?q')"
    using False by (simp add: Let_def)
  have c: "mp_count q = Suc (mp_count ?q')"
    using unat_diff_pred [OF False] by (simp add: mp_count_def)
  then have "mp_contents q = mp_data q (mp_tail q) # mp_contents ?q'"
    by (simp add: mp_contents_def ring_list_Cons)
  moreover have "mp_invar ?q'" using assms c by (simp add: mp_invar_def mp_capacity_def)
  ultimately show ?thesis using run by (simp add: list_pop_def mp_capacity_def)
qed

text \<open>
  With fuel 3 the operations return in every state of this file that one thread can find, and they
  meet the contract.
\<close>

definition mp_push1 :: "'a \<Rightarrow> ('a, 'u::len word) mpmc \<Rightarrow> bool \<times> ('a, 'u word) mpmc" where
  "mp_push1 x q = the (mp_push 3 x q)"

definition mp_pop1 :: "('a, 'u::len word) mpmc \<Rightarrow> 'a option \<times> ('a, 'u word) mpmc" where
  "mp_pop1 q = the (mp_pop 3 q)"

interpretation mp: bounded_queue mp_contents mp_push1 mp_pop1 mp_capacity mp_invar
proof
  fix q :: "('a, 'u::len word) mpmc" and x b q' v
  show "mp_invar q \<Longrightarrow> length (mp_contents q) \<le> mp_capacity q"
    by (simp add: mp_invar_def mp_contents_def)
  show "mp_invar q \<Longrightarrow> mp_push1 x q = (b, q') \<Longrightarrow>
      (b, mp_contents q') = list_push (mp_capacity q) x (mp_contents q) \<and> mp_invar q'
        \<and> mp_capacity q' = mp_capacity q"
    using mp_push_list [of q 1 x] by (auto simp: mp_push1_def eval_nat_numeral)
  show "mp_invar q \<Longrightarrow> mp_pop1 q = (v, q') \<Longrightarrow>
      (v, mp_contents q') = list_pop (mp_contents q) \<and> mp_invar q' \<and> mp_capacity q' = mp_capacity q"
    using mp_pop_list [of q 2] by (auto simp: mp_pop1_def eval_nat_numeral simp del: mp_pop.simps)
qed

text \<open>Whatever the fuel, \<open>push_until_success\<close> never returns when \<open>max_size\<close> is at most 1.\<close>

lemma mp_push_until_stuck:
  fixes q :: "('a, 'u::len word) mpmc"
  shows "mp_invar q \<Longrightarrow> mp_max q \<le> 1 \<Longrightarrow> mp_push_until_success fuel x q = None"
proof (induction fuel arbitrary: q)
  case 0
  then show ?case by simp
next
  case (Suc fuel)
  obtain b q1 where p: "mp_push (Suc (Suc fuel)) x q = Some (b, q1)"
    and l: "(b, mp_contents q1) = list_push (mp_capacity q) x (mp_contents q)"
    and i: "mp_invar q1" "mp_capacity q1 = mp_capacity q" using mp_push_list [OF Suc.prems(1)] by blast
  have z: "mp_capacity q = 0" using Suc.prems(2) by (simp add: mp_capacity_def)
  then have b: "b = False" using l by (simp add: list_push_def)
  obtain v q2 where o: "mp_pop (Suc fuel) q1 = Some (v, q2)" "mp_invar q2" "mp_capacity q2 = mp_capacity q1"
    using mp_pop_list [OF i(1)] by blast
  have "mp_max q2 \<le> 1" using o(3) i(2) z by (simp add: mp_capacity_def)
  then show ?case using Suc.IH [OF o(2)] p b o(1) by (simp del: mp_pop.simps)
qed

end
