(* ===== verification/Fs_Mpmc_Stale.thy ===== *)
theory Fs_Mpmc_Stale
  imports Fs_Mpmc_Queue
begin

text \<open>
  A producer that is interrupted in \<open>push\<close> of \<open>mpmc_queue\<close> between marking its slot and publishing it,
  while a consumer helps.  The consumer replaces the mark by \<open>size_limit\<close>; for the slot with the
  largest index this is the mark itself.  One lap later the slot is published again with its old
  element, and after that the queue neither takes nor gives anything.
\<close>

text \<open>The slot with the largest index is marked although the queue is empty.\<close>

definition stale_at :: "'a \<Rightarrow> 'u::len word \<Rightarrow> ('a, 'u word) mpmc \<Rightarrow> bool" where
  "stale_at x t q \<longleftrightarrow> mp_tail q = t \<and> mp_head q = t \<and> mp_flag q = t \<and> 2 \<le> mp_max q
     \<and> mp_data q (- 1) = x \<and> mp_node_flag q (- 1) = ucast (- 1 :: 'u word)
     \<and> (\<forall>i. i \<noteq> - 1 \<longrightarrow> mp_node_flag q i \<noteq> ucast i)"

definition mp_stuck :: "('a, 'u::len word) mpmc \<Rightarrow> bool" where
  "mp_stuck q \<longleftrightarrow> mp_tail q = 0 \<and> mp_head q = 0 \<and> mp_flag q = - 1 \<and> mp_node_flag q 0 \<noteq> 0"

text \<open>Elements pushed and popped one by one, and the answers when nothing is in the way.\<close>

definition lap :: "'a list \<Rightarrow> 'a queue_op list" where
  "lap ys = concat (map (\<lambda>y. [OpPush y, OpPop]) ys)"

definition lap_outs :: "'a list \<Rightarrow> 'a queue_out list" where
  "lap_outs ys = concat (map (\<lambda>y. [OutPush True, OutPop (Some y)]) ys)"

definition refusal :: "'a queue_op \<Rightarrow> 'a queue_out" where
  "refusal e = (case e of OpPush x \<Rightarrow> OutPush False | OpPop \<Rightarrow> OutPop None)"

lemma lap_simps [simp]:
  "lap [] = []" "lap (y # ys) = OpPush y # OpPop # lap ys"
  "lap_outs [] = []" "lap_outs (y # ys) = OutPush True # OutPop (Some y) # lap_outs ys"
  by (simp_all add: lap_def lap_outs_def)

lemma mp_stuck_ops:
  assumes "mp_stuck q"
  shows "mp_push1 x q = (False, q)" and "mp_pop1 q = (None, q)"
  using assms
  by (simp_all add: mp_stuck_def mp_push1_def mp_push_def mp_reserve_def mp_pop1_def eval_nat_numeral Let_def)

lemma mp_stuck_run:
  "mp_stuck q \<Longrightarrow> queue_run mp_push1 mp_pop1 os q = (map refusal os, q)"
proof (induction os)
  case Nil
  then show ?case by simp
next
  case (Cons e os)
  then show ?case by (cases e) (simp_all add: mp_stuck_ops refusal_def)
qed

lemma word_succ_neq [simp]: "(w :: 'u::len word) + 1 \<noteq> w"
  by simp

lemma one_step:
  "unat ((t :: 'u::len word) + 1 - t) = 1"
  by simp

text \<open>A push and a pop before the last slot is reached: everything moves on by one.\<close>

lemma stale_move:
  fixes q :: "('a, 'u::len word) mpmc"
  assumes "LENGTH('u) < 64" and "stale_at x t q" and "t \<noteq> - 1" and "t + 1 \<noteq> - 1"
  shows "\<exists>q1 q2. mp_push1 y q = (True, q1) \<and> mp_pop1 q1 = (Some y, q2) \<and> stale_at x (t + 1) q2"
proof -
  have inv: "invalid_index \<noteq> ucast i" for i :: "'u word" by (rule invalid_not_index [OF assms(1)])
  let ?q1 = "q\<lparr>mp_flag := t + 1, mp_data := (mp_data q)(t := y),
      mp_node_flag := (mp_node_flag q)(t := invalid_index), mp_head := t + 1\<rparr>"
  have "mp_push1 y q = (True, ?q1)"
    using assms(2-4) by (simp add: stale_at_def mp_push1_def mp_push_def mp_reserve_def eval_nat_numeral Let_def)
  moreover have "mp_pop1 ?q1 = (Some y, ?q1\<lparr>mp_tail := t + 1\<rparr>)"
    using assms(2) by (simp add: stale_at_def mp_pop1_def eval_nat_numeral Let_def)
  moreover have "stale_at x (t + 1) (?q1\<lparr>mp_tail := t + 1\<rparr>)"
    using assms(2-4) inv by (auto simp: stale_at_def)
  ultimately show ?thesis by blast
qed

text \<open>The push into the slot before the last publishes the last one too.\<close>

lemma stale_last:
  fixes q :: "('a, 'u::len word) mpmc"
  assumes "LENGTH('u) < 64" and "1 < LENGTH('u)" and "stale_at x t q" and "t + 1 = - 1"
  shows "\<exists>q1 q2 q3. mp_push1 y q = (True, q1) \<and> mp_pop1 q1 = (Some y, q2)
    \<and> mp_pop1 q2 = (Some x, q3) \<and> mp_stuck q3"
proof -
  obtain u :: "'u word" where u: "u = - 1" by blast
  have t: "t + 1 = u" "u + 1 = 0" "t \<noteq> u" "u \<noteq> 0" using assms(4) word_succ_neq [of t] u by auto
  have t0: "t \<noteq> 0"
  proof
    assume "t = 0"
    then have "(0 :: 'u word) + 1 = - 1" using assms(4) by (simp only:)
    then have "unat (1 :: 'u word) = unat (- 1 :: 'u word)" by (simp only: add_0)
    moreover have "(2 :: nat) ^ 2 \<le> 2 ^ LENGTH('u)" using assms(2) by (intro power_increasing) simp_all
    ultimately show False unfolding unat_minus_1 by simp
  qed
  have z: "invalid_index \<noteq> 0" using invalid_not_index [OF assms(1), of 0] by simp
  have q: "mp_tail q = t" "mp_head q = t" "mp_flag q = t" "2 \<le> mp_max q"
    "mp_data q u = x" "mp_node_flag q u = ucast u" and n: "\<And>i. i \<noteq> u \<Longrightarrow> mp_node_flag q i \<noteq> ucast i"
    using assms(3) by (auto simp: stale_at_def u)
  let ?f = "(mp_node_flag q)(t := invalid_index, u := invalid_index)"
  have n0: "?f 0 \<noteq> 0" using z n [of 0] t(4) by auto
  define q1 where "q1 = q\<lparr>mp_flag := u, mp_data := (mp_data q)(t := y), mp_node_flag := ?f, mp_head := 0\<rparr>"
  define q2 where "q2 = q1\<lparr>mp_tail := u\<rparr>"
  define q3 where "q3 = q2\<lparr>mp_tail := 0\<rparr>"
  have m: "\<not> mp_max q \<le> 1" using q(4) by simp
  have one: "u - t = 1" using t(1) by auto
  have "mp_reserve y q = Some (t, q\<lparr>mp_flag := u, mp_data := (mp_data q)(t := y),
      mp_node_flag := (mp_node_flag q)(t := ucast t)\<rparr>)"
    using m by (simp add: mp_reserve_def q t t(3) [symmetric] one)
  moreover have "mp_publish 3 t (q\<lparr>mp_flag := u, mp_data := (mp_data q)(t := y),
      mp_node_flag := (mp_node_flag q)(t := ucast t)\<rparr>) = Some q1"
    using n0 by (simp add: eval_nat_numeral q t t(3) [symmetric] q1_def fun_upd_same fun_upd_other del: fun_upd_apply)
  ultimately have "mp_push1 y q = (True, q1)" by (simp add: mp_push1_def mp_push_def)
  moreover have "mp_pop1 q1 = (Some y, q2)"
    using t(3) t0 by (simp add: mp_pop1_def eval_nat_numeral q1_def q2_def q t)
  moreover have "mp_pop1 q2 = (Some x, q3)"
    using t(4) by (simp add: mp_pop1_def eval_nat_numeral q1_def q2_def q3_def q t t(3) [symmetric])
  moreover have "mp_stuck q3" using n0 u by (simp add: mp_stuck_def q3_def q2_def q1_def)
  ultimately show ?thesis by blast
qed

text \<open>One lap: after it the old element comes out once more, and the queue is stuck.\<close>

lemma stale_lap:
  fixes q :: "('a, 'u::len word) mpmc"
  assumes "LENGTH('u) < 64" and "1 < LENGTH('u)"
  shows "stale_at x t q \<Longrightarrow> ys \<noteq> [] \<Longrightarrow> length ys = unat (- 1 - t) \<Longrightarrow>
    \<exists>q'. queue_run mp_push1 mp_pop1 (lap ys @ [OpPop]) q = (lap_outs ys @ [OutPop (Some x)], q')
      \<and> mp_stuck q'"
proof (induction ys arbitrary: t q)
  case Nil
  then show ?case by simp
next
  case (Cons y ys)
  have t: "t \<noteq> - 1" using Cons.prems(3) by auto
  then have n: "length ys = unat (- 1 - (t + 1))" using Cons.prems(3) unat_diff_pred [OF t] by simp
  show ?case
  proof (cases "t + 1 = - 1")
    case True
    then have "length ys = unat (- 1 - (- 1) :: 'u word)" using n by (simp only:)
    then have "ys = []" by simp
    then show ?thesis using stale_last [OF assms Cons.prems(1) True, of y] by auto
  next
    case False
    then have ne: "ys \<noteq> []" using n unat_diff_pred [OF False] by auto
    obtain q1 q2 where r: "mp_push1 y q = (True, q1)" "mp_pop1 q1 = (Some y, q2)" "stale_at x (t + 1) q2"
      using stale_move [OF assms(1) Cons.prems(1) t False, of y] by blast
    obtain q' where "queue_run mp_push1 mp_pop1 (lap ys @ [OpPop]) q2 = (lap_outs ys @ [OutPop (Some x)], q')"
      "mp_stuck q'" using Cons.IH [OF r(3) ne n] by blast
    then show ?thesis using r by simp
  qed
qed

text \<open>How the slot comes to be marked: the consumer helps an interrupted producer.\<close>

lemma help_last_slot:
  fixes q :: "('a, 'u::len word) mpmc"
  assumes "LENGTH('u) < 64" and "mp_invar q" and "mp_tail q = - 1" and "mp_head q = - 1" and "2 \<le> mp_max q"
  shows "\<exists>q1 q2. mp_reserve x q = Some (- 1, q1) \<and> mp_pop1 q1 = (Some x, q2)
    \<and> mp_publish 1 (- 1) q2 = Some q2 \<and> stale_at x 0 q2"
proof -
  let ?l = "- 1 :: 'u word"
  obtain l :: "'u word" where l: "l = - 1" by blast
  have l1: "l + 1 = 0" and l0: "l \<noteq> 0" "0 \<noteq> l" by (simp_all add: l)
  have inv: "invalid_index \<noteq> ucast i" for i :: "'u word" by (rule invalid_not_index [OF assms(1)])
  have lim: "(word_of_nat (spsc_limit TYPE('u)) :: u64) = ucast l"
    by (simp only: spsc_limit_def l unat_minus_1 [symmetric]) (simp add: unsigned_ucast_eq)
  have q: "mp_tail q = l" "mp_head q = l" "mp_flag q = l" and n: "\<And>i. mp_node_flag q i \<noteq> ucast i"
    using assms(2-4) l by (simp_all add: mp_invar_def)
  have m: "\<not> mp_max q \<le> 1" using assms(5) by simp
  define q1 where "q1 = q\<lparr>mp_flag := 0, mp_data := (mp_data q)(l := x),
      mp_node_flag := (mp_node_flag q)(l := ucast l)\<rparr>"
  define q2 where "q2 = q1\<lparr>mp_head := 0, mp_tail := 0\<rparr>"
  have one: "- l = 1" by (simp add: l)
  have "mp_reserve x q = Some (l, q1)"
    using m by (simp add: mp_reserve_def q l1 l0 one q1_def)
  moreover have "mp_pop1 q1 = (Some x, q2)"
    using l0 by (simp add: mp_pop1_def eval_nat_numeral q1_def q2_def q l1 lim)
  moreover have "mp_publish 1 l q2 = Some q2"
    using l0 by (simp add: q2_def)
  moreover have "stale_at x 0 q2"
    using n m by (auto simp: stale_at_def q2_def q1_def l)
  ultimately show ?thesis unfolding l by blast
qed

end
