(* ===== verification/Fs_Queue_Props.thy ===== *)
theory Fs_Queue_Props
  imports Fs_Spsc_Interleave Fs_Mpmc_Stale
begin

text \<open>
  The properties of the three queues, with the concrete queues at which they are applied: queues of
  numbers with the default index type \<open>uint8_t\<close>, an 8 bit word.
\<close>

definition sample_ops :: "nat queue_op list" where
  "sample_ops = [OpPush 1, OpPush 2, OpPush 3, OpPop, OpPush 4, OpPop, OpPop, OpPop]"

lemmas queue_eval =
  list_push_def list_pop_def sample_ops_def split_beta Let_def

section \<open>spsc\_queue\<close>

text \<open>C21. The ring buffer is a bounded first-in first-out queue: within the bounds of its index type,
  every sequence of pushes and pops gets the answers of a list to which elements are added at the end
  while it has less than \<open>max_size\<close> of them, and from which they are taken at the front; the indices
  may wrap at any time.\<close>

theorem spsc_run_refines:
  fixes q :: "('a, 'u::len word) spsc"
  assumes "spsc_invar q" and "queue_run spsc_push spsc_pop os q = (outs, q')"
  shows "queue_run (list_push (spsc_max q)) list_pop os (spsc_contents q) = (outs, spsc_contents q')
    \<and> spsc_invar q' \<and> spsc_max q' = spsc_max q"
  by (rule ring.run_refines [OF assms])

theorem spsc_run_refines_witness:
  "fst (queue_run spsc_push spsc_pop sample_ops
     \<lparr>spsc_max = 2, spsc_block = (\<lambda>_. 0), spsc_tail = 255, spsc_head = (255 :: 8 word)\<rparr>)
   = [OutPush True, OutPush True, OutPush False, OutPop (Some 1), OutPush True, OutPop (Some 2),
      OutPop (Some 4), OutPop None]"
proof -
  let ?q = "\<lparr>spsc_max = 2, spsc_block = (\<lambda>_. 0 :: nat), spsc_tail = 255, spsc_head = (255 :: 8 word)\<rparr>"
  have i: "spsc_invar ?q" by (simp add: spsc_invar_def spsc_limit_def spsc_count_def)
  have c: "spsc_contents ?q = []" by (simp add: spsc_contents_def spsc_count_def ring_list_def)
  have l: "queue_run (list_push 2) list_pop sample_ops [] =
      ([OutPush True, OutPush True, OutPush False, OutPop (Some 1), OutPush True, OutPop (Some 2),
        OutPop (Some 4), OutPop None], [])"
    by (simp add: queue_eval)
  show ?thesis
    using spsc_run_refines [OF i prod.collapse [symmetric], of sample_ops] unfolding c by (simp add: l)
qed

text \<open>C20. One producer and one consumer at the same time: however their accesses interleave, what was
  popped followed by what is in the ring is what was pushed, in order, the ring never holds more than
  \<open>max_size\<close> elements, and an element the consumer has read is still the oldest of the ring when it
  advances the tail.\<close>

theorem spsc_concurrent_fifo:
  fixes s :: "('a, 'u::len word) ring_state"
  assumes "ring_reach n dflt s" and "n \<le> spsc_limit TYPE('u)"
  shows "pushed s = popped s @ spsc_contents (ring s) \<and> length (spsc_contents (ring s)) \<le> n
    \<and> (\<forall>t x. cons_pc s = CRead t x \<longrightarrow> (\<exists>xs. spsc_contents (ring s) = x # xs))"
proof -
  have ok: "ring_ok s" and m: "spsc_max (ring s) = n" using ring_reach_ok [OF assms] by simp_all
  have "\<exists>xs. spsc_contents (ring s) = x # xs" if "cons_pc s = CRead t x" for t x
    using ok that contents_tail(1) [of "ring s"] by (auto simp: ring_ok_def cons_ok_def Let_def)
  then show ?thesis using ok m by (simp add: ring_ok_def spsc_invar_def spsc_contents_def)
qed

text \<open>A producer that has advanced the head, and a consumer that has read the element.\<close>

definition sample_ring :: "(nat, 8 word) ring_state" where
  "sample_ring = \<lparr>ring = \<lparr>spsc_max = 1, spsc_block = (\<lambda>_. 0)(0 := 7), spsc_tail = 0, spsc_head = 1\<rparr>,
     prod_pc = PIdle, cons_pc = CRead 0 7, pushed = [7], popped = []\<rparr>"

lemma sample_ring_reach: "ring_reach 1 0 sample_ring"
proof -
  let ?s = "ring_init 1 0 :: (nat, 8 word) ring_state"
  let ?s1 = "?s\<lparr>prod_pc := PLoaded 7 0 0\<rparr>"
  let ?s2 = "?s1\<lparr>prod_pc := PWritten 7 0, ring := (ring ?s1)\<lparr>spsc_block := (spsc_block (ring ?s1))(0 := 7)\<rparr>\<rparr>"
  let ?s3 = "?s2\<lparr>prod_pc := PIdle, pushed := pushed ?s2 @ [7],
      ring := (ring ?s2)\<lparr>spsc_head := spsc_head (ring ?s2) + 1\<rparr>\<rparr>"
  let ?s4 = "?s3\<lparr>cons_pc := CLoaded (spsc_tail (ring ?s3))\<rparr>"
  have "ring_step ?s ?s1" using push_load [of ?s 7] by (simp add: ring_init_def spsc_new_def)
  moreover have "ring_step ?s1 ?s2"
    by (rule push_write [of ?s1 7 0 0]) (simp_all add: ring_init_def spsc_new_def spsc_full_def spsc_index_full_def)
  moreover have "ring_step ?s2 ?s3" by (rule push_done) simp
  moreover have "ring_step ?s3 ?s4" by (rule pop_load) (simp_all add: ring_init_def spsc_new_def)
  moreover have "ring_step ?s4 sample_ring"
    using pop_read [of ?s4 0] by (simp add: ring_init_def spsc_new_def sample_ring_def)
  ultimately show ?thesis by (meson reach_init reach_step)
qed

theorem spsc_concurrent_fifo_witness:
  "\<exists>xs. spsc_contents (ring sample_ring) = 7 # xs"
proof -
  have "(1 :: nat) \<le> spsc_limit TYPE(8)" by (simp add: spsc_limit_def)
  then show ?thesis using spsc_concurrent_fifo [OF sample_ring_reach] by (simp add: sample_ring_def)
qed

text \<open>\<open>push_until_success\<close> of the ring buffer returns after at most two calls of \<open>push\<close>, having
  dropped the oldest element if the queue was full, when the queue may hold an element at all; with
  \<open>max_size\<close> 0 it never returns, whatever the fuel.\<close>

theorem spsc_push_until_success_functional:
  fixes q :: "('a, 'u::len word) spsc"
  assumes "spsc_invar q"
  shows "if spsc_max q = 0 then spsc_push_until_success fuel x q = None
    else \<exists>q'. spsc_push_until_success (Suc (Suc fuel)) x q = Some q' \<and> spsc_contents q' =
      (if length (spsc_contents q) < spsc_max q then spsc_contents q else tl (spsc_contents q)) @ [x]"
proof (cases "spsc_max q = 0")
  case True
  then show ?thesis using ring.push_until_stuck [OF assms True] by (simp add: spsc_push_until_success_def)
next
  case False
  then show ?thesis using ring.push_until_done [OF assms, of fuel x]
    by (auto simp: spsc_push_until_success_def simp del: push_until.simps)
qed

theorem spsc_push_until_success_functional_witness:
  "\<exists>q'. spsc_push_until_success (Suc (Suc 0)) 9 (snd (spsc_push 5 (spsc_new 1 0 :: (nat, 8 word) spsc))) = Some q'
    \<and> spsc_contents q' = [9]"
proof -
  define q where "q = snd (spsc_push 5 (spsc_new 1 0 :: (nat, 8 word) spsc))"
  have i: "spsc_invar q" and m: "spsc_max q = 1" and c: "spsc_contents q = [5]"
    by (simp_all add: q_def spsc_push_def spsc_new_def spsc_full_def spsc_index_full_def spsc_invar_def
        spsc_limit_def spsc_count_def spsc_contents_def ring_list_def Let_def)
  have "\<exists>q'. spsc_push_until_success (Suc (Suc 0)) 9 q = Some q' \<and> spsc_contents q' = [9]"
    using spsc_push_until_success_functional [OF i, of 0 9] by (simp add: m c)
  then show ?thesis unfolding q_def .
qed

text \<open>A limit above the largest index loses everything: in a ring with an index narrower than
  \<open>int\<close>, whose tail is 0 and which is full to the last slot, the comparison with \<open>id_tail - 1\<close> is made
  in \<open>int\<close> and fails, so that the next push is accepted and leaves an empty queue.\<close>

theorem spsc_limit_needed:
  fixes q :: "('a, 'u::len word) spsc"
  assumes "LENGTH('u) < 32" and "spsc_tail q = 0" and "spsc_head q = - 1"
    and "2 ^ LENGTH('u) \<le> spsc_max q"
  shows "\<exists>q'. spsc_push x q = (True, q') \<and> spsc_contents q' = []
    \<and> length (spsc_contents q) = 2 ^ LENGTH('u) - 1"
  by (rule spsc_overflow [OF assms])

theorem spsc_limit_needed_witness:
  "\<exists>q'. spsc_push 1 \<lparr>spsc_max = 256, spsc_block = (\<lambda>_. 0 :: nat), spsc_tail = 0, spsc_head = (- 1 :: 8 word)\<rparr>
    = (True, q') \<and> spsc_contents q' = []"
  using spsc_limit_needed [of "\<lparr>spsc_max = 256, spsc_block = (\<lambda>_. 0 :: nat), spsc_tail = 0, spsc_head = (- 1 :: 8 word)\<rparr>" 1]
  by auto

section \<open>mpmc\_queue\<close>

text \<open>C24. Run by one thread at a time, \<open>mpmc_queue\<close> is a bounded queue with room for one element less
  than its \<open>max_size\<close>: every sequence of pushes and pops gets the answers of the list with that
  bound, for any index type narrower than 64 bits.\<close>

theorem mpmc_run_refines:
  fixes q :: "('a, 'u::len word) mpmc"
  assumes "mp_invar q" and "queue_run mp_push1 mp_pop1 os q = (outs, q')"
  shows "queue_run (list_push (mp_max q - 1)) list_pop os (mp_contents q) = (outs, mp_contents q')"
  using mp.run_refines [OF assms] by (simp add: mp_capacity_def)

theorem mpmc_run_refines_witness:
  "fst (queue_run mp_push1 mp_pop1 sample_ops (mp_new 3 0 :: (nat, 8 word) mpmc))
   = [OutPush True, OutPush True, OutPush False, OutPop (Some 1), OutPush True, OutPop (Some 2),
      OutPop (Some 4), OutPop None]"
proof -
  define q where "q = (mp_new 3 0 :: (nat, 8 word) mpmc)"
  have i: "mp_invar q" unfolding q_def by (rule mp_new_invar) simp_all
  have c: "mp_contents q = []" "mp_max q - 1 = 2"
    by (simp_all add: q_def mp_new_def mp_contents_def mp_count_def ring_list_def)
  have l: "queue_run (list_push 2) list_pop sample_ops [] =
      ([OutPush True, OutPush True, OutPush False, OutPop (Some 1), OutPush True, OutPop (Some 2),
        OutPop (Some 4), OutPop None], [])"
    by (simp add: queue_eval)
  have "fst (queue_run mp_push1 mp_pop1 sample_ops q) = [OutPush True, OutPush True, OutPush False,
      OutPop (Some 1), OutPush True, OutPop (Some 2), OutPop (Some 4), OutPop None]"
    using mpmc_run_refines [OF i prod.collapse [symmetric], of sample_ops] unfolding c by (simp add: l)
  then show ?thesis unfolding q_def .
qed

text \<open>C25. An element comes out twice.  A producer is interrupted between marking the slot with the
  largest index and publishing it, a consumer helps and pops the element, and the producer returns;
  the slot is still marked, because \<open>size_limit\<close> is its own index.  When a lap of pushes and pops, all
  of which succeed, has led back to the slot, a pop on the empty queue returns the old element again,
  and from then on every push and every pop fails.\<close>

theorem mpmc_stale_element:
  fixes q :: "('a, 'u::len word) mpmc"
  assumes "1 < LENGTH('u)" and "LENGTH('u) < 64" and "mp_invar q" and "mp_tail q = - 1"
    and "mp_head q = - 1" and "2 \<le> mp_max q" and "length ys = 2 ^ LENGTH('u) - 1"
  shows "\<exists>q1 q2 q3. mp_reserve x q = Some (- 1, q1) \<and> mp_pop1 q1 = (Some x, q2)
    \<and> mp_publish 1 (- 1) q2 = Some q2
    \<and> queue_run mp_push1 mp_pop1 (lap ys @ [OpPop]) q2 = (lap_outs ys @ [OutPop (Some x)], q3)
    \<and> (\<forall>os. queue_run mp_push1 mp_pop1 os q3 = (map refusal os, q3))"
proof -
  obtain q1 q2 where h: "mp_reserve x q = Some (- 1, q1)" "mp_pop1 q1 = (Some x, q2)"
    "mp_publish 1 (- 1) q2 = Some q2" "stale_at x 0 q2"
    using help_last_slot [OF assms(2-6), of x] by blast
  have "ys \<noteq> []"
  proof
    assume "ys = []"
    moreover have "(2 :: nat) ^ 1 < 2 ^ LENGTH('u)" using assms(1) by (intro power_strict_increasing) simp_all
    ultimately show False using assms(7) by simp
  qed
  moreover have "length ys = unat (- 1 - 0 :: 'u word)" using assms(7) by (simp only: unat_minus_1 diff_0_right)
  ultimately obtain q3 where
    "queue_run mp_push1 mp_pop1 (lap ys @ [OpPop]) q2 = (lap_outs ys @ [OutPop (Some x)], q3)" "mp_stuck q3"
    using stale_lap [OF assms(2,1) h(4)] by blast
  then show ?thesis using h mp_stuck_run by blast
qed

theorem mpmc_stale_element_witness:
  "\<exists>q. mp_invar (q :: (nat, 8 word) mpmc) \<and> mp_contents q = [] \<and>
    (\<exists>q1 q2 q3. mp_reserve 7 q = Some (- 1, q1) \<and> mp_pop1 q1 = (Some 7, q2)
      \<and> queue_run mp_push1 mp_pop1 (lap (replicate 255 0) @ [OpPop]) q2
          = (lap_outs (replicate 255 0) @ [OutPop (Some 7)], q3))"
proof -
  define q where "q = (mp_new 255 0 :: (nat, 8 word) mpmc)\<lparr>mp_tail := - 1, mp_head := - 1, mp_flag := - 1\<rparr>"
  have i: "mp_invar q"
    using mp_new_invar [where 'u = 8, of 255 "0 :: nat"] by (simp add: q_def mp_invar_def mp_capacity_def mp_count_def mp_new_def)
  have "mp_contents q = []" by (simp add: q_def mp_contents_def mp_count_def ring_list_def)
  moreover have "length (replicate 255 (0 :: nat)) = 2 ^ LENGTH(8) - 1" by simp
  ultimately show ?thesis
    using mpmc_stale_element [of q "replicate 255 0" 7] i by (auto simp: q_def mp_new_def)
qed

section \<open>thread\_safe\_queue\<close>

text \<open>\<open>consume_all\<close> of the queue under a mutex hands every element to the functor once, oldest
  first, returns how many there were and leaves the queue empty, when the functor leaves the queue
  alone; fuel one above the number of elements is enough.\<close>

theorem safe_consume_all_functional:
  assumes "\<And>x q e. f x (q, e) = (q, g x e)" and "safe_invar q" and "length (sq_queue q) < fuel"
  shows "\<exists>q'. safe_consume_all f fuel (q, e) = Some (length (sq_queue q), q', fold g (sq_queue q) e)
    \<and> safe_empty q'"
  using safe.consume_all_done [where f = f and g = g and n = 0, OF assms]
  by (simp add: safe_consume_all_def safe_empty_def)

theorem safe_consume_all_functional_witness:
  "\<exists>q'. safe_consume_all (\<lambda>x (q, e). (q, e @ [x])) 4 (\<lparr>sq_queue = [1, 2, 3 :: nat], max_count = 5\<rparr>, [])
    = Some (3, q', [1, 2, 3]) \<and> safe_empty q'"
proof -
  have i: "safe_invar \<lparr>sq_queue = [1, 2, 3 :: nat], max_count = 5\<rparr>" by (simp add: safe_invar_def)
  show ?thesis
    using safe_consume_all_functional [where f = "\<lambda>x (q, e). (q, e @ [x])" and g = "\<lambda>x e. e @ [x]"
        and fuel = 4 and e = "[]", OF _ i] by (simp add: numeral_3_eq_3)
qed

end
