(* ===== verification/Fs_Mpmc_Interleave.thy ===== *)
theory Fs_Mpmc_Interleave
  imports Fs_Mpmc_Queue
begin

text \<open>
  Any number of producers and consumers of \<open>mpmc_queue\<close> at the same time.  Each access to an index, to the mark of a slot
  or to its element is a step of one thread, and the steps interleave in any order; a weak compare-and-exchange may
  fail without a reason.  A thread is a program counter with its local variables.  The state
  records the elements in the order in which their slots were reserved, and those that were popped.
\<close>

section \<open>Threads\<close>

datatype ('a, 'i) mp_pc =
    MIdle
  | PushLoad 'a 'i          \<comment> \<open>about to load \<open>tail_\<close>, with \<open>cur_flag\<close>\<close>
  | PushCas 'a 'i           \<comment> \<open>about to advance \<open>flag_\<close>\<close>
  | PushWrite 'a 'i         \<comment> \<open>about to write the element of its slot\<close>
  | PushMark 'i             \<comment> \<open>about to mark its slot\<close>
  | PubFlag 'i              \<comment> \<open>about to load the mark of the slot \<open>cur_flag\<close>\<close>
  | PubHead 'i u64          \<comment> \<open>about to load \<open>head_\<close>, with \<open>cac_flag\<close>\<close>
  | PubCas 'i u64           \<comment> \<open>about to take the mark\<close>
  | PubStore 'i             \<comment> \<open>about to advance \<open>head_\<close>\<close>
  | PopHead 'i              \<comment> \<open>about to load \<open>head_\<close>, with \<open>cur_tail\<close>\<close>
  | PopFlag 'i              \<comment> \<open>about to load the mark of the slot \<open>cur_head\<close>\<close>
  | PopHelp 'i              \<comment> \<open>about to take the mark, which is \<open>cur_head\<close>\<close>
  | PopStore 'i             \<comment> \<open>about to advance \<open>head_\<close>\<close>
  | PopReload               \<comment> \<open>about to load \<open>tail_\<close> again\<close>
  | PopRead 'i              \<comment> \<open>about to read the element of the slot \<open>id_tail\<close>\<close>
  | PopCas 'i 'a            \<comment> \<open>about to advance \<open>tail_\<close>\<close>

text \<open>One step of a thread; \<open>spurious\<close> says that a weak compare-and-exchange fails without a reason.\<close>

fun mp_thread_step ::
    "bool \<Rightarrow> ('a, 'u::len word) mp_pc \<Rightarrow> ('a, 'u word) mpmc \<Rightarrow> ('a, 'u word) mp_pc \<times> ('a, 'u word) mpmc" where
  "mp_thread_step spurious MIdle q = (MIdle, q)"
| "mp_thread_step spurious (PushLoad x cur) q =
     (let nxt = cur + 1; id_tail = mp_tail q in
      if nxt = id_tail then (MIdle, q)
      else if unat (nxt - id_tail) \<ge> mp_max q then (MIdle, q)
      else (PushCas x cur, q))"
| "mp_thread_step spurious (PushCas x cur) q =
     (if mp_flag q = cur \<and> \<not> spurious then (PushWrite x cur, q\<lparr>mp_flag := cur + 1\<rparr>)
      else (PushLoad x (mp_flag q), q))"
| "mp_thread_step spurious (PushWrite x cur) q = (PushMark cur, q\<lparr>mp_data := (mp_data q)(cur := x)\<rparr>)"
| "mp_thread_step spurious (PushMark cur) q =
     (PubFlag cur, q\<lparr>mp_node_flag := (mp_node_flag q)(cur := ucast cur)\<rparr>)"
| "mp_thread_step spurious (PubFlag cur) q = (PubHead cur (mp_node_flag q cur), q)"
| "mp_thread_step spurious (PubHead cur cac) q =
     (if cur \<noteq> mp_head q then (MIdle, q) else if cac \<noteq> ucast cur then (MIdle, q) else (PubCas cur cac, q))"
| "mp_thread_step spurious (PubCas cur cac) q =
     (if mp_node_flag q cur = cac
      then (PubStore cur, q\<lparr>mp_node_flag := (mp_node_flag q)(cur := invalid_index)\<rparr>) else (MIdle, q))"
| "mp_thread_step spurious (PubStore cur) q = (PubFlag (cur + 1), q\<lparr>mp_head := cur + 1\<rparr>)"
| "mp_thread_step spurious (PopHead id_tail) q =
     (if id_tail = mp_head q then (PopFlag (mp_head q), q) else (PopRead id_tail, q))"
| "mp_thread_step spurious (PopFlag cur_head) q =
     (if mp_node_flag q cur_head \<noteq> ucast cur_head then (MIdle, q) else (PopHelp cur_head, q))"
| "mp_thread_step spurious (PopHelp cur_head) q =
     (if mp_node_flag q cur_head = ucast cur_head \<and> \<not> spurious
      then (PopStore cur_head,
        q\<lparr>mp_node_flag := (mp_node_flag q)(cur_head := word_of_nat (spsc_limit TYPE('u)))\<rparr>)
      else (PopReload, q))"
| "mp_thread_step spurious (PopStore cur_head) q = (PopReload, q\<lparr>mp_head := cur_head + 1\<rparr>)"
| "mp_thread_step spurious PopReload q = (PopHead (mp_tail q), q)"
| "mp_thread_step spurious (PopRead id_tail) q = (PopCas id_tail (mp_data q id_tail), q)"
| "mp_thread_step spurious (PopCas id_tail x) q =
     (if mp_tail q = id_tail \<and> \<not> spurious then (MIdle, q\<lparr>mp_tail := id_tail + 1\<rparr>)
      else (PopHead (mp_tail q), q))"

text \<open>What a step reserves a slot for, and what it pops.\<close>

fun mp_reserved :: "('a, 'i) mp_pc \<Rightarrow> ('a, 'i) mp_pc \<Rightarrow> 'a list" where
  "mp_reserved (PushCas x cur) (PushWrite y cur') = [x]"
| "mp_reserved _ _ = []"

fun mp_taken :: "('a, 'i) mp_pc \<Rightarrow> ('a, 'i) mp_pc \<Rightarrow> 'a list" where
  "mp_taken (PopCas id_tail x) MIdle = [x]"
| "mp_taken _ _ = []"

section \<open>Runs\<close>

record ('a, 'i) mp_conc =
  mc_queue :: "('a, 'i) mpmc"
  mc_pc :: "nat \<Rightarrow> ('a, 'i) mp_pc"
  mc_pushed :: "'a list"
  mc_popped :: "'a list"

definition mc_init :: "nat \<Rightarrow> 'a \<Rightarrow> ('a, 'u::len word) mp_conc" where
  "mc_init n dflt = \<lparr>mc_queue = mp_new n dflt, mc_pc = (\<lambda>_. MIdle), mc_pushed = [], mc_popped = []\<rparr>"

definition mc_thread :: "bool \<Rightarrow> nat \<Rightarrow> ('a, 'u::len word) mp_conc \<Rightarrow> ('a, 'u word) mp_conc" where
  "mc_thread spurious i s =
     (let (pc', q') = mp_thread_step spurious (mc_pc s i) (mc_queue s) in
      s\<lparr>mc_queue := q', mc_pc := (mc_pc s)(i := pc'), mc_pushed := mc_pushed s @ mp_reserved (mc_pc s i) pc',
        mc_popped := mc_popped s @ mp_taken (mc_pc s i) pc'\<rparr>)"

text \<open>An idle thread may call \<open>push\<close>, which loads \<open>flag_\<close>, or \<open>pop\<close>, which loads \<open>tail_\<close>; any other makes its next step.\<close>

inductive mc_step :: "('a, 'u::len word) mp_conc \<Rightarrow> ('a, 'u word) mp_conc \<Rightarrow> bool" where
  mc_push: "mc_pc s i = MIdle \<Longrightarrow>
     mc_step s (s\<lparr>mc_pc := (mc_pc s)(i := PushLoad x (mp_flag (mc_queue s)))\<rparr>)"
| mc_pop: "mc_pc s i = MIdle \<Longrightarrow>
     mc_step s (s\<lparr>mc_pc := (mc_pc s)(i := PopHead (mp_tail (mc_queue s)))\<rparr>)"
| mc_next: "mc_step s (mc_thread spurious i s)"

inductive mc_reach :: "nat \<Rightarrow> 'a \<Rightarrow> ('a, 'u::len word) mp_conc \<Rightarrow> bool" for n dflt where
  mc_start: "mc_reach n dflt (mc_init n dflt)"
| mc_more: "mc_reach n dflt s \<Longrightarrow> mc_step s s' \<Longrightarrow> mc_reach n dflt s'"

end
