(* ===== verification/Fs_Mpmc_Concurrent.thy ===== *)
theory Fs_Mpmc_Concurrent
  imports Fs_Mpmc_Interleave
begin

text \<open>
  What holds of the interleavings of \<open>mpmc_queue\<close> as long as the indices have not wrapped around.  A slot is free,
  being filled, marked, being published, or published; a slot that is being filled or published has exactly
  one owner, the thread that does it (\<open>mp_slot\<close>).
\<close>

section \<open>The invariant\<close>

fun mp_slot :: "('a, 'i) mp_pc \<Rightarrow> 'i option" where
  "mp_slot (PushWrite x c) = Some c"
| "mp_slot (PushMark c) = Some c"
| "mp_slot (PubStore c) = Some c"
| "mp_slot (PopStore c) = Some c"
| "mp_slot _ = None"

definition marked :: "('a, 'u::len word) mpmc \<Rightarrow> 'u word \<Rightarrow> bool" where
  "marked q c \<longleftrightarrow> mp_node_flag q c = ucast c"

fun mp_pc_ok :: "('a, 'u::len word) mpmc \<Rightarrow> 'a list \<Rightarrow> ('a, 'u word) mp_pc \<Rightarrow> bool" where
  "mp_pc_ok q xs (PushCas x c) = (c = - 1 \<or> unat c + 1 - unat (mp_tail q) < mp_max q)"
| "mp_pc_ok q xs (PushWrite x c) =
     (c < mp_flag q \<and> mp_head q \<le> c \<and> \<not> marked q c \<and> x = xs ! unat c)"
| "mp_pc_ok q xs (PushMark c) =
     (c < mp_flag q \<and> mp_head q \<le> c \<and> \<not> marked q c \<and> mp_data q c = xs ! unat c)"
| "mp_pc_ok q xs (PubCas c f) = (f = ucast c \<and> c \<le> mp_head q)"
| "mp_pc_ok q xs (PubStore c) = (c = mp_head q \<and> c < mp_flag q \<and> \<not> marked q c \<and> mp_data q c = xs ! unat c)"
| "mp_pc_ok q xs (PopStore c) = (c = mp_head q \<and> c < mp_flag q \<and> \<not> marked q c \<and> mp_data q c = xs ! unat c)"
| "mp_pc_ok q xs (PopHead t) = (t \<le> mp_tail q)"
| "mp_pc_ok q xs (PopFlag h) = (h \<le> mp_head q)"
| "mp_pc_ok q xs (PopHelp h) = (h \<le> mp_head q)"
| "mp_pc_ok q xs (PopRead t) = (t < mp_head q)"
| "mp_pc_ok q xs (PopCas t v) = (t < mp_head q \<and> v = xs ! unat t)"
| "mp_pc_ok q xs _ = True"

definition mc_order :: "('a, 'u::len word) mp_conc \<Rightarrow> bool" where
  "mc_order s \<longleftrightarrow> (let q = mc_queue s in
     LENGTH('u) < 64 \<and> mp_tail q \<le> mp_head q \<and> mp_head q \<le> mp_flag q
     \<and> unat (mp_flag q) = length (mc_pushed s) \<and> mc_popped s = take (unat (mp_tail q)) (mc_pushed s)
     \<and> length (mc_pushed s) - unat (mp_tail q) \<le> mp_max q - 1)"

definition mc_slots :: "('a, 'u::len word) mp_conc \<Rightarrow> bool" where
  "mc_slots s \<longleftrightarrow> (let q = mc_queue s in
     (\<forall>c. (c < mp_head q \<longrightarrow> \<not> marked q c \<and> mp_data q c = mc_pushed s ! unat c)
        \<and> (mp_flag q \<le> c \<longrightarrow> \<not> marked q c)
        \<and> (mp_head q \<le> c \<and> c < mp_flag q \<longrightarrow>
            (if marked q c then mp_data q c = mc_pushed s ! unat c else \<exists>i. mp_slot (mc_pc s i) = Some c))))"

definition mc_unique :: "('a, 'u::len word) mp_conc \<Rightarrow> bool" where
  "mc_unique s \<longleftrightarrow> (\<forall>i j c. mp_slot (mc_pc s i) = Some c \<longrightarrow> mp_slot (mc_pc s j) = Some c \<longrightarrow> i = j)"

definition mc_pcs :: "('a, 'u::len word) mp_conc \<Rightarrow> bool" where
  "mc_pcs s \<longleftrightarrow> (\<forall>i. mp_pc_ok (mc_queue s) (mc_pushed s) (mc_pc s i))"

definition mc_ok :: "('a, 'u::len word) mp_conc \<Rightarrow> bool" where
  "mc_ok s \<longleftrightarrow> mc_order s \<and> mc_slots s \<and> mc_unique s \<and> mc_pcs s"

lemma mc_slotsI:
  assumes "\<And>c. c < mp_head (mc_queue s) \<Longrightarrow> \<not> marked (mc_queue s) c \<and> mp_data (mc_queue s) c = mc_pushed s ! unat c"
    and "\<And>c. mp_flag (mc_queue s) \<le> c \<Longrightarrow> \<not> marked (mc_queue s) c"
    and "\<And>c. mp_head (mc_queue s) \<le> c \<Longrightarrow> c < mp_flag (mc_queue s) \<Longrightarrow> marked (mc_queue s) c \<Longrightarrow>
      mp_data (mc_queue s) c = mc_pushed s ! unat c"
    and "\<And>c. mp_head (mc_queue s) \<le> c \<Longrightarrow> c < mp_flag (mc_queue s) \<Longrightarrow> \<not> marked (mc_queue s) c \<Longrightarrow>
      \<exists>i. mp_slot (mc_pc s i) = Some c"
  shows "mc_slots s"
  using assms by (simp add: mc_slots_def Let_def)

lemma mc_slotsD:
  assumes "mc_slots s"
  shows "c < mp_head (mc_queue s) \<Longrightarrow> \<not> marked (mc_queue s) c"
    and "c < mp_head (mc_queue s) \<Longrightarrow> mp_data (mc_queue s) c = mc_pushed s ! unat c"
    and "mp_flag (mc_queue s) \<le> c \<Longrightarrow> \<not> marked (mc_queue s) c"
    and "mp_head (mc_queue s) \<le> c \<Longrightarrow> c < mp_flag (mc_queue s) \<Longrightarrow> marked (mc_queue s) c \<Longrightarrow>
      mp_data (mc_queue s) c = mc_pushed s ! unat c"
    and "mp_head (mc_queue s) \<le> c \<Longrightarrow> c < mp_flag (mc_queue s) \<Longrightarrow> \<not> marked (mc_queue s) c \<Longrightarrow>
      \<exists>i. mp_slot (mc_pc s i) = Some c"
  using assms by (simp_all add: mc_slots_def Let_def)

lemma marked_simps [simp]:
  "marked (q\<lparr>mp_data := d\<rparr>) = marked q"
  "marked (q\<lparr>mp_head := h\<rparr>) = marked q"
  "marked (q\<lparr>mp_tail := h\<rparr>) = marked q"
  "marked (q\<lparr>mp_flag := h\<rparr>) = marked q"
  "marked (q\<lparr>mp_node_flag := (mp_node_flag q)(c := f)\<rparr>) e = (if e = c then f = ucast c else marked q e)"
  by (auto simp: marked_def fun_eq_iff)

text \<open>The owner of another slot stays its owner.\<close>

lemma other_owner:
  assumes "\<exists>j. mp_slot (pc j) = Some d" and "mp_slot (pc i) = Some d \<Longrightarrow> mp_slot p = Some d"
  shows "\<exists>j. mp_slot ((pc(i := p)) j) = Some d"
  using assms by (metis fun_upd_apply)

lemma mc_init_ok:
  assumes "LENGTH('u::len) < 64"
  shows "mc_ok (mc_init n dflt :: ('a, 'u word) mp_conc)"
  using assms invalid_not_index [OF assms]
  by (simp add: mc_ok_def mc_order_def mc_slots_def mc_unique_def mc_pcs_def mc_init_def mp_new_def marked_def)

section \<open>Steps of one thread\<close>

text \<open>Steps that change neither the queue nor the ownership of slots.\<close>

lemma mc_ok_local:
  assumes "mc_ok s" and "mp_slot (mc_pc s i) = None" and "mp_slot p = None"
    and "mp_pc_ok (mc_queue s) (mc_pushed s) p"
  shows "mc_ok (s\<lparr>mc_pc := (mc_pc s)(i := p)\<rparr>)"
proof -
  let ?s = "s\<lparr>mc_pc := (mc_pc s)(i := p)\<rparr>"
  have slot: "mp_slot (mc_pc ?s j) = mp_slot (mc_pc s j)" for j using assms(2,3) by simp
  have "mc_slots ?s" using assms(1) slot unfolding mc_ok_def mc_slots_def by (simp add: Let_def)
  moreover have "mc_unique ?s" using assms(1) slot unfolding mc_ok_def mc_unique_def by metis
  ultimately show ?thesis using assms(1,4) by (auto simp: mc_ok_def mc_order_def mc_pcs_def)
qed

lemma word_Suc:
  fixes c f :: "'u::len word"
  assumes "c < f"
  shows "unat (c + 1) = Suc (unat c)" and "c + 1 \<le> f" and "c < c + 1"
proof -
  have "unat c < unat f" using assms by (simp add: word_less_nat_alt)
  moreover have "unat f < 2 ^ LENGTH('u)" by (rule unsigned_less)
  ultimately have "Suc (unat c) < 2 ^ LENGTH('u)" by linarith
  then show 1: "unat (c + 1) = Suc (unat c)"
    by (simp add: unat_word_ariths)
  then show "c + 1 \<le> f" "c < c + 1"
    using \<open>unat c < unat f\<close> by (simp_all add: word_le_nat_alt word_less_nat_alt)
qed

lemma word_less_Suc_iff:
  fixes c f x :: "'u::len word"
  assumes "c < f"
  shows "x < c + 1 \<longleftrightarrow> x \<le> c"
  using word_Suc(1) [OF assms] by (simp add: word_le_nat_alt word_less_nat_alt less_Suc_eq_le)

lemma size_limit_not_index:
  fixes c f :: "'u::len word"
  assumes "c < f" and "LENGTH('u) < 64"
  shows "word_of_nat (spsc_limit TYPE('u)) \<noteq> (ucast c :: u64)"
proof
  assume e: "word_of_nat (spsc_limit TYPE('u)) = (ucast c :: u64)"
  have l: "spsc_limit TYPE('u) = 2 ^ LENGTH('u) - 1" by (simp add: spsc_limit_def)
  have "(2 :: nat) ^ LENGTH('u) \<le> 2 ^ 63" using assms(2) by (intro power_increasing) simp_all
  then have "spsc_limit TYPE('u) < 2 ^ 64" using l by simp
  then have "unat (word_of_nat (spsc_limit TYPE('u)) :: u64) = spsc_limit TYPE('u)"
    by (simp add: unat_of_nat)
  moreover have "unat (ucast c :: u64) \<le> unat c"
    by (simp add: unsigned_ucast_eq)
  moreover have "unat c < unat f" using assms(1) by (simp add: word_less_nat_alt)
  moreover have "unat f < 2 ^ LENGTH('u)" by (rule unsigned_less)
  then have "unat f \<le> spsc_limit TYPE('u)" using l by linarith
  ultimately show False using e by simp
qed

text \<open>A thread advances \<open>flag_\<close> and so becomes the owner of the slot.\<close>

lemma mc_ok_reserve:
  fixes s :: "('a, 'u::len word) mp_conc"
  assumes "mc_ok s" and "mc_pc s i = PushCas x c" and "mp_flag (mc_queue s) = c"
    and "Suc (length (mc_pushed s)) < 2 ^ LENGTH('u)"
  shows "mc_ok (s\<lparr>mc_queue := (mc_queue s)\<lparr>mp_flag := c + 1\<rparr>, mc_pc := (mc_pc s)(i := PushWrite x c),
    mc_pushed := mc_pushed s @ [x]\<rparr>)" (is "mc_ok ?s")
proof -
  let ?q = "mc_queue s" and ?q' = "(mc_queue s)\<lparr>mp_flag := c + 1\<rparr>"
  have o: "mp_tail ?q \<le> mp_head ?q" "mp_head ?q \<le> c" "unat c = length (mc_pushed s)" "LENGTH('u) < 64"
    "mc_popped s = take (unat (mp_tail ?q)) (mc_pushed s)"
    using assms(1,3) by (auto simp: mc_ok_def mc_order_def Let_def)
  have c1: "unat (c + 1) = Suc (unat c)"
    using assms(4) o(3) by (simp add: unat_word_ariths)
  have lt: "c < c + 1" and le: "\<And>d. d < c + 1 \<longleftrightarrow> d \<le> c"
    using c1 by (simp_all add: word_less_nat_alt word_le_nat_alt less_Suc_eq_le)
  have nth: "(mc_pushed s @ [x]) ! unat d = mc_pushed s ! unat d" if "d < c" for d
    using that o(3) by (simp add: nth_append word_less_nat_alt)
  have last: "(mc_pushed s @ [x]) ! unat c = x" using o(3) by simp
  have free: "\<not> marked ?q c" using assms(1,3) unfolding mc_ok_def mc_slots_def Let_def by blast
  have cm: "c \<noteq> - 1" using c1 by auto
  have pcc: "mp_pc_ok ?q (mc_pushed s) (PushCas x c)" using assms(1,2) unfolding mc_ok_def mc_pcs_def by metis
  then have room: "unat c + 1 - unat (mp_tail ?q) < mp_max ?q" using cm by simp
  have "mp_tail ?q \<le> c" using o(1,2) by (rule order_trans)
  then have "unat (mp_tail ?q) \<le> length (mc_pushed s)" using o(3) by (simp add: word_le_nat_alt)
  then have "mc_order ?s"
    using o c1 lt room by (auto simp: mc_order_def Let_def)
  moreover have "mc_slots ?s"
  proof (rule mc_slotsI)
    have sl: "mc_slots s" using assms(1) by (simp add: mc_ok_def)
    note D = mc_slotsD [OF sl, unfolded assms(3)]
    fix d
    show "d < mp_head (mc_queue ?s) \<Longrightarrow> \<not> marked (mc_queue ?s) d \<and> mp_data (mc_queue ?s) d = mc_pushed ?s ! unat d"
      using D(1,2) nth [of d] o(2) by auto
    show "mp_flag (mc_queue ?s) \<le> d \<Longrightarrow> \<not> marked (mc_queue ?s) d" using D(3) lt by auto
    show "mp_head (mc_queue ?s) \<le> d \<Longrightarrow> d < mp_flag (mc_queue ?s) \<Longrightarrow> marked (mc_queue ?s) d \<Longrightarrow>
        mp_data (mc_queue ?s) d = mc_pushed ?s ! unat d"
      using D(4) [of d] nth [of d] le [of d] free by (cases "d = c") auto
    show "\<exists>j. mp_slot (mc_pc ?s j) = Some d"
      if "mp_head (mc_queue ?s) \<le> d" and "d < mp_flag (mc_queue ?s)" and "\<not> marked (mc_queue ?s) d"
    proof (cases "d = c")
      case False
      then have "\<exists>j. mp_slot (mc_pc s j) = Some d" using D(5) le that by simp
      then show ?thesis using other_owner [of "mc_pc s" d i "PushWrite x c"] assms(2) by simp
    qed (auto intro: exI [of _ i])
  qed
  moreover have "mc_unique ?s"
  proof -
    have "mp_slot (mc_pc s j) \<noteq> Some c" for j
    proof
      assume a: "mp_slot (mc_pc s j) = Some c"
      have "mp_pc_ok ?q (mc_pushed s) (mc_pc s j)" using assms(1) by (simp add: mc_ok_def mc_pcs_def)
      then show False using a assms(3) by (cases "mc_pc s j") auto
    qed
    then show ?thesis using assms(1) unfolding mc_ok_def mc_unique_def by auto
  qed
  moreover have "mc_pcs ?s"
  proof -
    have "mp_pc_ok ?q' (mc_pushed s @ [x]) p" if "mp_pc_ok ?q (mc_pushed s) p" for p
      using that nth lt o assms(3) by (cases p) (auto intro: less_trans order.strict_trans2)
    moreover have "mp_pc_ok ?q' (mc_pushed s @ [x]) (PushWrite x c)"
      using lt o free last by simp
    ultimately show ?thesis using assms(1) unfolding mc_ok_def mc_pcs_def by simp
  qed
  ultimately show ?thesis by (simp add: mc_ok_def)
qed

text \<open>The owner of a slot writes its element, and marks the slot.\<close>

lemma mc_ok_write:
  fixes s :: "('a, 'u::len word) mp_conc"
  assumes "mc_ok s" and "mc_pc s i = PushWrite x c"
  shows "mc_ok (s\<lparr>mc_queue := (mc_queue s)\<lparr>mp_data := (mp_data (mc_queue s))(c := x)\<rparr>,
    mc_pc := (mc_pc s)(i := PushMark c)\<rparr>)" (is "mc_ok ?s")
proof -
  let ?q = "mc_queue s" and ?q' = "(mc_queue s)\<lparr>mp_data := (mp_data (mc_queue s))(c := x)\<rparr>"
  have c: "c < mp_flag ?q" "mp_head ?q \<le> c" "\<not> marked ?q c" "x = mc_pushed s ! unat c"
    using assms(1,2) unfolding mc_ok_def mc_pcs_def by (metis mp_pc_ok.simps(2))+
  have own: "mp_slot (mc_pc ?s j) = mp_slot (mc_pc s j)" for j using assms(2) by simp
  have "mc_order ?s" using assms(1) by (simp add: mc_ok_def mc_order_def Let_def)
  moreover have "mc_slots ?s"
    using assms(1) c own mc_slotsD [of s] unfolding mc_ok_def by (intro mc_slotsI) auto
  moreover have "mc_unique ?s" using assms(1) own unfolding mc_ok_def mc_unique_def by metis
  moreover have "mc_pcs ?s"
  proof -
    have "mp_pc_ok ?q' (mc_pushed s) (mc_pc s j)" for j
    proof -
      have "mp_pc_ok ?q (mc_pushed s) (mc_pc s j)" using assms(1) by (simp add: mc_ok_def mc_pcs_def)
      then show ?thesis using c by (cases "mc_pc s j") auto
    qed
    moreover have "mp_pc_ok ?q' (mc_pushed s) (PushMark c)" using c by simp
    ultimately show ?thesis unfolding mc_pcs_def by simp
  qed
  ultimately show ?thesis by (simp add: mc_ok_def)
qed

lemma mc_ok_mark:
  fixes s :: "('a, 'u::len word) mp_conc"
  assumes "mc_ok s" and "mc_pc s i = PushMark c"
  shows "mc_ok (s\<lparr>mc_queue := (mc_queue s)\<lparr>mp_node_flag := (mp_node_flag (mc_queue s))(c := ucast c)\<rparr>,
    mc_pc := (mc_pc s)(i := PubFlag c)\<rparr>)" (is "mc_ok ?s")
proof -
  let ?q = "mc_queue s" and ?q' = "(mc_queue s)\<lparr>mp_node_flag := (mp_node_flag (mc_queue s))(c := ucast c)\<rparr>"
  have c: "c < mp_flag ?q" "mp_head ?q \<le> c" "mp_data ?q c = mc_pushed s ! unat c"
    using assms(1,2) unfolding mc_ok_def mc_pcs_def by (metis mp_pc_ok.simps(3))+
  have other: "mp_slot (mc_pc s j) \<noteq> Some c" if "j \<noteq> i" for j
    using assms that unfolding mc_ok_def mc_unique_def by (metis mp_slot.simps(2))
  have "mc_order ?s" using assms(1) by (simp add: mc_ok_def mc_order_def Let_def)
  moreover have "mc_slots ?s"
  proof (rule mc_slotsI)
    have sl: "mc_slots s" using assms(1) by (simp add: mc_ok_def)
    note D = mc_slotsD [OF sl]
    fix d
    show "d < mp_head (mc_queue ?s) \<Longrightarrow> \<not> marked (mc_queue ?s) d \<and> mp_data (mc_queue ?s) d = mc_pushed ?s ! unat d"
      using D(1,2) c by auto
    show "mp_flag (mc_queue ?s) \<le> d \<Longrightarrow> \<not> marked (mc_queue ?s) d" using D(3) c by auto
    show "mp_head (mc_queue ?s) \<le> d \<Longrightarrow> d < mp_flag (mc_queue ?s) \<Longrightarrow> marked (mc_queue ?s) d \<Longrightarrow>
        mp_data (mc_queue ?s) d = mc_pushed ?s ! unat d"
      using D(4) c by (simp split: if_splits)
    show "\<exists>j. mp_slot (mc_pc ?s j) = Some d"
      if "mp_head (mc_queue ?s) \<le> d" and "d < mp_flag (mc_queue ?s)" and "\<not> marked (mc_queue ?s) d"
    proof -
      have "d \<noteq> c" "\<exists>j. mp_slot (mc_pc s j) = Some d" using D(5) that by (auto split: if_splits)
      then show ?thesis using other_owner [of "mc_pc s" d i "PubFlag c"] assms(2) by simp
    qed
  qed
  moreover have "mc_unique ?s" using assms(1) unfolding mc_ok_def mc_unique_def by simp
  moreover have "mc_pcs ?s"
  proof -
    have "mp_pc_ok ?q' (mc_pushed s) (mc_pc s j)" if "j \<noteq> i" for j
    proof -
      have "mp_pc_ok ?q (mc_pushed s) (mc_pc s j)" using assms(1) by (simp add: mc_ok_def mc_pcs_def)
      then show ?thesis using other [OF that] by (cases "mc_pc s j") auto
    qed
    then show ?thesis unfolding mc_pcs_def by simp
  qed
  ultimately show ?thesis by (simp add: mc_ok_def)
qed

text \<open>A thread takes the mark of the slot at the head, and so becomes its owner.\<close>

lemma mc_ok_take:
  fixes s :: "('a, 'u::len word) mp_conc"
  assumes "mc_ok s" and "mp_slot (mc_pc s i) = None" and "c \<le> mp_head (mc_queue s)" and "marked (mc_queue s) c"
    and "p = PubStore c \<or> p = PopStore c" and "f \<noteq> ucast c"
  shows "mc_ok (s\<lparr>mc_queue := (mc_queue s)\<lparr>mp_node_flag := (mp_node_flag (mc_queue s))(c := f)\<rparr>,
    mc_pc := (mc_pc s)(i := p)\<rparr>)" (is "mc_ok ?s")
proof -
  let ?q = "mc_queue s" and ?q' = "(mc_queue s)\<lparr>mp_node_flag := (mp_node_flag (mc_queue s))(c := f)\<rparr>"
  have sl: "mc_slots s" using assms(1) by (simp add: mc_ok_def)
  have c: "c = mp_head ?q" "c < mp_flag ?q" "mp_data ?q c = mc_pushed s ! unat c"
    using sl assms(3,4) unfolding mc_slots_def Let_def by (metis linorder_not_less order.order_iff_strict)+
  have other: "mp_slot (mc_pc s j) \<noteq> Some c" for j
  proof
    assume a: "mp_slot (mc_pc s j) = Some c"
    have "mp_pc_ok ?q (mc_pushed s) (mc_pc s j)" using assms(1) by (simp add: mc_ok_def mc_pcs_def)
    then show False using a assms(4) by (cases "mc_pc s j") auto
  qed
  have slot: "mp_slot p = Some c" using assms(5) by auto
  have "mc_order ?s" using assms(1) by (simp add: mc_ok_def mc_order_def Let_def)
  moreover have "mc_slots ?s"
  proof (rule mc_slotsI)
    note D = mc_slotsD [OF sl]
    fix d
    show "d < mp_head (mc_queue ?s) \<Longrightarrow> \<not> marked (mc_queue ?s) d \<and> mp_data (mc_queue ?s) d = mc_pushed ?s ! unat d"
      using D(1,2) assms(6) by simp
    show "mp_flag (mc_queue ?s) \<le> d \<Longrightarrow> \<not> marked (mc_queue ?s) d" using D(3) assms(6) by simp
    show "mp_head (mc_queue ?s) \<le> d \<Longrightarrow> d < mp_flag (mc_queue ?s) \<Longrightarrow> marked (mc_queue ?s) d \<Longrightarrow>
        mp_data (mc_queue ?s) d = mc_pushed ?s ! unat d"
      using D(4) assms(6) by (simp split: if_splits)
    show "\<exists>j. mp_slot (mc_pc ?s j) = Some d"
      if "mp_head (mc_queue ?s) \<le> d" and "d < mp_flag (mc_queue ?s)" and "\<not> marked (mc_queue ?s) d"
    proof (cases "d = c")
      case False
      then have "\<exists>j. mp_slot (mc_pc s j) = Some d" using D(5) that by simp
      then show ?thesis using other_owner [of "mc_pc s" d i p] assms(2) by simp
    qed (use slot in \<open>auto intro: exI [of _ i]\<close>)
  qed
  moreover have "mc_unique ?s"
    using assms(1) other slot unfolding mc_ok_def mc_unique_def by auto
  moreover have "mc_pcs ?s"
  proof -
    have "mp_pc_ok ?q' (mc_pushed s) (mc_pc s j)" for j
    proof -
      have "mp_pc_ok ?q (mc_pushed s) (mc_pc s j)" using assms(1) by (simp add: mc_ok_def mc_pcs_def)
      then show ?thesis using assms(6) by (cases "mc_pc s j") auto
    qed
    moreover have "mp_pc_ok ?q' (mc_pushed s) p" using assms(5,6) c by auto
    ultimately show ?thesis unfolding mc_pcs_def by simp
  qed
  ultimately show ?thesis by (simp add: mc_ok_def)
qed

text \<open>The owner of the slot at the head publishes it.\<close>

lemma mc_ok_publish:
  fixes s :: "('a, 'u::len word) mp_conc"
  assumes "mc_ok s" and "mc_pc s i = PubStore c \<or> mc_pc s i = PopStore c"
    and "p = PubFlag (c + 1) \<or> p = PopReload"
  shows "mc_ok (s\<lparr>mc_queue := (mc_queue s)\<lparr>mp_head := c + 1\<rparr>, mc_pc := (mc_pc s)(i := p)\<rparr>)" (is "mc_ok ?s")
proof -
  let ?q = "mc_queue s" and ?q' = "(mc_queue s)\<lparr>mp_head := c + 1\<rparr>"
  have "mp_pc_ok ?q (mc_pushed s) (mc_pc s i)" using assms(1) by (simp add: mc_ok_def mc_pcs_def)
  then have c: "c = mp_head ?q" "c < mp_flag ?q" "\<not> marked ?q c" "mp_data ?q c = mc_pushed s ! unat c"
    using assms(2) by auto
  note w = word_Suc [OF c(2)] word_less_Suc_iff [OF c(2)]
  have islot: "mp_slot (mc_pc s i) = Some c" using assms(2) by auto
  have other: "mp_slot (mc_pc s j) \<noteq> Some c" if "j \<noteq> i" for j
    using assms(1) islot that unfolding mc_ok_def mc_unique_def by metis
  have p: "mp_slot p = None" using assms(3) by auto
  have "mp_tail ?q \<le> c + 1"
    using assms(1) w(3) c(1) by (auto simp: mc_ok_def mc_order_def Let_def)
  then have "mc_order ?s"
    using assms(1) w(1,2) by (simp add: mc_ok_def mc_order_def Let_def)
  moreover have "mc_slots ?s"
  proof (rule mc_slotsI)
    have sl: "mc_slots s" using assms(1) by (simp add: mc_ok_def)
    note D = mc_slotsD [OF sl]
    have up: "c + 1 \<le> d \<Longrightarrow> mp_head ?q \<le> d \<and> d \<noteq> c" for d using w(3) c(1) by auto
    fix d
    show "d < mp_head (mc_queue ?s) \<Longrightarrow> \<not> marked (mc_queue ?s) d \<and> mp_data (mc_queue ?s) d = mc_pushed ?s ! unat d"
      using D(1,2) [of d] c w(4) [of d] by (cases "d = c") auto
    show "mp_flag (mc_queue ?s) \<le> d \<Longrightarrow> \<not> marked (mc_queue ?s) d" using D(3) by simp
    show "mp_head (mc_queue ?s) \<le> d \<Longrightarrow> d < mp_flag (mc_queue ?s) \<Longrightarrow> marked (mc_queue ?s) d \<Longrightarrow>
        mp_data (mc_queue ?s) d = mc_pushed ?s ! unat d"
      using D(4) up by simp
    show "\<exists>j. mp_slot (mc_pc ?s j) = Some d"
      if "mp_head (mc_queue ?s) \<le> d" and "d < mp_flag (mc_queue ?s)" and "\<not> marked (mc_queue ?s) d"
    proof -
      have "d \<noteq> c" "\<exists>j. mp_slot (mc_pc s j) = Some d" using D(5) up that by auto
      then show ?thesis using other_owner [of "mc_pc s" d i p] islot by simp
    qed
  qed
  moreover have "mc_unique ?s"
    using assms(1) p unfolding mc_ok_def mc_unique_def by simp
  moreover have "mc_pcs ?s"
  proof -
    have "mp_pc_ok ?q' (mc_pushed s) (mc_pc s j)" if "j \<noteq> i" for j
    proof -
      have "mp_pc_ok ?q (mc_pushed s) (mc_pc s j)" using assms(1) by (simp add: mc_ok_def mc_pcs_def)
      moreover have "c \<le> d \<Longrightarrow> d \<noteq> c \<Longrightarrow> c + 1 \<le> d" for d using word_Suc(2) [of c d] by auto
      ultimately show ?thesis using other [OF that] w(3) c(1)
        by (cases "mc_pc s j") (auto intro: less_trans order_trans less_imp_le)
    qed
    moreover have "mp_pc_ok ?q' (mc_pushed s) p" using assms(3) by auto
    ultimately show ?thesis unfolding mc_pcs_def by simp
  qed
  ultimately show ?thesis by (simp add: mc_ok_def)
qed

text \<open>A consumer takes the element at the tail.\<close>

lemma mc_ok_taken:
  fixes s :: "('a, 'u::len word) mp_conc"
  assumes "mc_ok s" and "mc_pc s i = PopCas t v" and "mp_tail (mc_queue s) = t"
  shows "mc_ok (s\<lparr>mc_queue := (mc_queue s)\<lparr>mp_tail := t + 1\<rparr>, mc_pc := (mc_pc s)(i := MIdle),
    mc_popped := mc_popped s @ [v]\<rparr>)" (is "mc_ok ?s")
proof -
  let ?q = "mc_queue s" and ?q' = "(mc_queue s)\<lparr>mp_tail := t + 1\<rparr>"
  have "mp_pc_ok ?q (mc_pushed s) (mc_pc s i)" using assms(1) by (simp add: mc_ok_def mc_pcs_def)
  then have t: "t < mp_head ?q" "v = mc_pushed s ! unat t" using assms(2) by auto
  note w = word_Suc [OF t(1)]
  have o: "mp_head ?q \<le> mp_flag ?q" "unat (mp_flag ?q) = length (mc_pushed s)"
    "mc_popped s = take (unat t) (mc_pushed s)" "length (mc_pushed s) - unat t \<le> mp_max ?q - 1"
    using assms(1,3) by (auto simp: mc_ok_def mc_order_def Let_def)
  have own: "mp_slot (mc_pc ?s j) = mp_slot (mc_pc s j)" for j using assms(2) by simp
  have "t < mp_flag ?q" using t(1) o(1) by (rule order.strict_trans2)
  then have "unat t < length (mc_pushed s)" using o(2) by (simp add: word_less_nat_alt)
  then have "mc_order ?s"
    using assms(1) w o t(2) by (auto simp: mc_ok_def mc_order_def Let_def take_Suc_conv_app_nth)
  moreover have "mc_slots ?s"
    using assms(1) own mc_slotsD [of s] unfolding mc_ok_def by (intro mc_slotsI) auto
  moreover have "mc_unique ?s" using assms(1) own unfolding mc_ok_def mc_unique_def by metis
  moreover have "mc_pcs ?s"
  proof -
    have "mp_pc_ok ?q' (mc_pushed s) (mc_pc s j)" for j
    proof -
      have "mp_pc_ok ?q (mc_pushed s) (mc_pc s j)" using assms(1) by (simp add: mc_ok_def mc_pcs_def)
      then show ?thesis using w assms(3)
        by (cases "mc_pc s j") (auto intro: order_trans less_imp_le)
    qed
    then show ?thesis unfolding mc_pcs_def by simp
  qed
  ultimately show ?thesis by (simp add: mc_ok_def)
qed

section \<open>All steps\<close>

lemma unat_room:
  fixes c t :: "'u::len word"
  assumes "c + 1 \<noteq> t" and "unat (c + 1 - t) < n" and "c \<noteq> - 1"
  shows "unat c + 1 - unat t < n"
proof -
  have "c < - 1" using assms(3) by (simp add: word_order.not_eq_extremum)
  then have c: "unat (c + 1) = Suc (unat c)" by (rule word_Suc)
  show ?thesis
  proof (cases "t \<le> c + 1")
    case True
    then show ?thesis using assms(2) c by (simp add: unat_sub)
  next
    case False
    then have "Suc (unat c) < unat t" using c by (simp add: word_le_nat_alt)
    then show ?thesis using assms(2) by simp
  qed
qed

lemma mc_thread_ok:
  fixes s :: "('a, 'u::len word) mp_conc"
  assumes "mc_ok s" and "length (mc_pushed (mc_thread spurious i s)) < 2 ^ LENGTH('u)"
  shows "mc_ok (mc_thread spurious i s)"
proof -
  let ?q = "mc_queue s"
  have pc: "mp_pc_ok ?q (mc_pushed s) (mc_pc s i)" using assms(1) by (simp add: mc_ok_def mc_pcs_def)
  have ord: "mp_tail ?q \<le> mp_head ?q" "LENGTH('u) < 64" using assms(1) by (auto simp: mc_ok_def mc_order_def Let_def)
  have loc: "mc_ok (s\<lparr>mc_pc := (mc_pc s)(i := p)\<rparr>)"
    if "mp_slot (mc_pc s i) = None" "mp_slot p = None" "mp_pc_ok ?q (mc_pushed s) p" for p
    using mc_ok_local [OF assms(1) that] .
  show ?thesis
  proof (cases "mc_pc s i")
    case MIdle
    then show ?thesis using loc [of MIdle] by (simp add: mc_thread_def)
  next
    case (PushLoad x c)
    then show ?thesis using loc [of MIdle] loc [of "PushCas x c"] unat_room [of c "mp_tail ?q" "mp_max ?q"]
      by (auto simp: mc_thread_def Let_def not_le)
  next
    case (PushCas x c)
    show ?thesis
    proof (cases "mp_flag ?q = c \<and> \<not> spurious")
      case True
      then have "Suc (length (mc_pushed s)) < 2 ^ LENGTH('u)" using assms(2) PushCas by (simp add: mc_thread_def)
      then show ?thesis using mc_ok_reserve [OF assms(1) PushCas] True PushCas by (simp add: mc_thread_def)
    next
      case False
      then have "mc_thread spurious i s = s\<lparr>mc_pc := (mc_pc s)(i := PushLoad x (mp_flag ?q))\<rparr>"
        using PushCas by (auto simp: mc_thread_def)
      then show ?thesis using loc [of "PushLoad x (mp_flag ?q)"] PushCas by simp
    qed
  next
    case (PushWrite x c)
    then show ?thesis using mc_ok_write [OF assms(1) PushWrite] by (simp add: mc_thread_def)
  next
    case (PushMark c)
    then show ?thesis using mc_ok_mark [OF assms(1) PushMark] by (simp add: mc_thread_def)
  next
    case (PubFlag c)
    then show ?thesis using loc [of "PubHead c (mp_node_flag ?q c)"] by (simp add: mc_thread_def)
  next
    case (PubHead c f)
    then show ?thesis using loc [of MIdle] loc [of "PubCas c f"] by (auto simp: mc_thread_def)
  next
    case (PubCas c f)
    show ?thesis
    proof (cases "mp_node_flag ?q c = f")
      case True
      then have "marked ?q c" "c \<le> mp_head ?q" using pc PubCas by (simp_all add: marked_def)
      then show ?thesis
        using mc_ok_take [OF assms(1), of i c "PubStore c" invalid_index] PubCas True invalid_not_index [OF ord(2), of c]
        by (simp add: mc_thread_def)
    next
      case False
      then show ?thesis using loc [of MIdle] PubCas by (simp add: mc_thread_def)
    qed
  next
    case (PubStore c)
    then show ?thesis using mc_ok_publish [OF assms(1), of i c "PubFlag (c + 1)"] by (simp add: mc_thread_def)
  next
    case (PopHead t)
    then have "t \<noteq> mp_head ?q \<Longrightarrow> t < mp_head ?q" using pc ord(1) by simp
    then show ?thesis using loc [of "PopFlag (mp_head ?q)"] loc [of "PopRead t"] PopHead by (simp add: mc_thread_def)
  next
    case (PopFlag h)
    then show ?thesis using loc [of MIdle] loc [of "PopHelp h"] pc by (simp add: mc_thread_def)
  next
    case (PopHelp h)
    show ?thesis
    proof (cases "mp_node_flag ?q h = ucast h \<and> \<not> spurious")
      case True
      then have m: "marked ?q h" "h \<le> mp_head ?q" using pc PopHelp by (simp_all add: marked_def)
      have "h < mp_flag ?q"
        using mc_slotsD(3) [of s h] assms(1) m(1) by (meson leI mc_ok_def)
      then have "word_of_nat (spsc_limit TYPE('u)) \<noteq> (ucast h :: u64)" using ord(2) by (rule size_limit_not_index)
      then show ?thesis
        using mc_ok_take [OF assms(1), of i h "PopStore h"] PopHelp True m by (simp add: mc_thread_def)
    next
      case False
      then have "mc_thread spurious i s = s\<lparr>mc_pc := (mc_pc s)(i := PopReload)\<rparr>"
        using PopHelp by (auto simp: mc_thread_def)
      then show ?thesis using loc [of PopReload] PopHelp by simp
    qed
  next
    case (PopStore c)
    then show ?thesis using mc_ok_publish [OF assms(1), of i c PopReload] by (simp add: mc_thread_def)
  next
    case PopReload
    then show ?thesis using loc [of "PopHead (mp_tail ?q)"] by (simp add: mc_thread_def)
  next
    case (PopRead t)
    have "mp_data ?q t = mc_pushed s ! unat t"
      using mc_slotsD(2) [of s t] assms(1) pc PopRead by (simp add: mc_ok_def)
    then show ?thesis using loc [of "PopCas t (mp_data ?q t)"] PopRead pc by (simp add: mc_thread_def)
  next
    case (PopCas t v)
    show ?thesis
    proof (cases "mp_tail ?q = t \<and> \<not> spurious")
      case True
      then show ?thesis using mc_ok_taken [OF assms(1) PopCas] PopCas by (simp add: mc_thread_def)
    next
      case False
      then have "mc_thread spurious i s = s\<lparr>mc_pc := (mc_pc s)(i := PopHead (mp_tail ?q))\<rparr>"
        using PopCas by (auto simp: mc_thread_def)
      then show ?thesis using loc [of "PopHead (mp_tail ?q)"] PopCas by simp
    qed
  qed
qed

lemma mc_thread_pushed: "\<exists>xs. mc_pushed (mc_thread spurious i s) = mc_pushed s @ xs"
  by (simp add: mc_thread_def split: prod.split)

lemma mc_thread_max: "mp_max (mc_queue (mc_thread spurious i s)) = mp_max (mc_queue s)"
  by (cases "mc_pc s i") (auto simp: mc_thread_def Let_def)

lemma mc_step_ok:
  fixes s :: "('a, 'u::len word) mp_conc"
  assumes "mc_step s s'" and "length (mc_pushed s') < 2 ^ LENGTH('u)"
    and "length (mc_pushed s) < 2 ^ LENGTH('u) \<Longrightarrow> mc_ok s"
  shows "mc_ok s' \<and> mp_max (mc_queue s') = mp_max (mc_queue s)"
  using assms(1)
proof cases
  case (mc_push i x)
  then show ?thesis using mc_ok_local [of s i "PushLoad x (mp_flag (mc_queue s))"] assms(2,3) by simp
next
  case (mc_pop i)
  then show ?thesis using mc_ok_local [of s i "PopHead (mp_tail (mc_queue s))"] assms(2,3) by simp
next
  case (mc_next spurious i)
  obtain xs where "mc_pushed s' = mc_pushed s @ xs" using mc_thread_pushed mc_next by metis
  then have "mc_ok s" using assms(2,3) by simp
  from mc_thread_ok [OF this, of spurious i] show ?thesis using assms(2) mc_next mc_thread_max by simp
qed

lemma mc_step_pushed: "mc_step s s' \<Longrightarrow> length (mc_pushed s) \<le> length (mc_pushed s')"
  by (erule mc_step.cases) (auto simp: mc_thread_def split: prod.split)

lemma mc_reach_ok:
  assumes "mc_reach n dflt s" and "LENGTH('u::len) < 64" and "length (mc_pushed s) < 2 ^ LENGTH('u)"
  shows "mc_ok (s :: ('a, 'u word) mp_conc) \<and> mp_max (mc_queue s) = n"
  using assms(1,3)
proof induction
  case mc_start
  then show ?case using mc_init_ok [OF assms(2)] by (simp add: mc_init_def mp_new_def)
next
  case (mc_more s s')
  have "length (mc_pushed s) < 2 ^ LENGTH('u)" using mc_step_pushed [OF mc_more.hyps(2)] mc_more.prems by simp
  then show ?case using mc_step_ok [OF mc_more.hyps(2) mc_more.prems] mc_more.IH by simp
qed

section \<open>Between the operations\<close>

text \<open>When no thread is in an operation, every reserved slot that is not published is marked, so that a consumer finds it.\<close>

lemma mc_quiescent_pop:
  fixes s :: "('a, 'u::len word) mp_conc"
  assumes "mc_ok s" and "\<forall>i. mc_pc s i = MIdle"
  shows "\<exists>q'. mp_pop (Suc (Suc n)) (mc_queue s)
    = Some (if length (mc_popped s) < length (mc_pushed s) then Some (mc_pushed s ! length (mc_popped s)) else None, q')"
proof -
  let ?q = "mc_queue s"
  have o: "mp_tail ?q \<le> mp_head ?q" "mp_head ?q \<le> mp_flag ?q" "unat (mp_flag ?q) = length (mc_pushed s)"
    "mc_popped s = take (unat (mp_tail ?q)) (mc_pushed s)"
    using assms(1) by (auto simp: mc_ok_def mc_order_def Let_def)
  have "mp_tail ?q \<le> mp_flag ?q" using o(1,2) by (rule order_trans)
  then have len: "length (mc_popped s) = unat (mp_tail ?q)" using o(3,4) by (simp add: word_le_nat_alt)
  note D = mc_slotsD [of s]
  have sl: "mc_slots s" using assms(1) by (simp add: mc_ok_def)
  show ?thesis
  proof (cases "mp_tail ?q = mp_head ?q")
    case False
    then have lt: "mp_tail ?q < mp_head ?q" using o(1) by simp
    then have "mp_tail ?q < mp_flag ?q" using o(2) by (rule order.strict_trans2)
    then have "length (mc_popped s) < length (mc_pushed s)" using o(3) len by (simp add: word_less_nat_alt)
    then show ?thesis using False D(2) [OF sl lt] len by (simp add: Let_def)
  next
    case h: True
    show ?thesis
    proof (cases "mp_head ?q = mp_flag ?q")
      case True
      then have "\<not> marked ?q (mp_head ?q)" using D(3) [OF sl] by simp
      then show ?thesis using h True o(3) len by (simp add: marked_def Let_def)
    next
      case False
      then have lt: "mp_head ?q < mp_flag ?q" using o(2) by simp
      have m: "marked ?q (mp_head ?q)"
      proof (rule ccontr)
        assume "\<not> marked ?q (mp_head ?q)"
        then obtain i where "mp_slot (mc_pc s i) = Some (mp_head ?q)" using D(5) [OF sl _ lt] by auto
        then show False using assms(2) by simp
      qed
      have "mp_head ?q \<noteq> mp_head ?q + 1" using word_Suc(3) [OF lt] by simp
      moreover have "mp_data ?q (mp_head ?q) = mc_pushed s ! length (mc_popped s)"
        using D(4) [OF sl _ lt m] h len by simp
      moreover have "length (mc_popped s) < length (mc_pushed s)" using lt o(3) h len by (simp add: word_less_nat_alt)
      ultimately show ?thesis using m h by (simp add: marked_def Let_def)
    qed
  qed
qed

end
