(* ===== verification/Fs_Mpmc_Props.thy ===== *)
theory Fs_Mpmc_Props
  imports Fs_Mpmc_Concurrent
begin

text \<open>
  The properties of the interleavings of \<open>mpmc_queue\<close>, with a run of two producers and a consumer at which they
  are applied: the second producer is done while its element is not yet published, which the first one does.
\<close>

section \<open>Runs by a list of choices\<close>

datatype 'a mc_choice = CallPush nat 'a | CallPop nat | Next nat

fun mc_exec :: "'a mc_choice list \<Rightarrow> ('a, 'u::len word) mp_conc \<Rightarrow> ('a, 'u word) mp_conc" where
  "mc_exec [] s = s"
| "mc_exec (CallPush i x # cs) s =
     (case mc_pc s i of
        MIdle \<Rightarrow> mc_exec cs (s\<lparr>mc_pc := (mc_pc s)(i := PushLoad x (mp_flag (mc_queue s)))\<rparr>) | _ \<Rightarrow> s)"
| "mc_exec (CallPop i # cs) s =
     (case mc_pc s i of
        MIdle \<Rightarrow> mc_exec cs (s\<lparr>mc_pc := (mc_pc s)(i := PopHead (mp_tail (mc_queue s)))\<rparr>) | _ \<Rightarrow> s)"
| "mc_exec (Next i # cs) s = mc_exec cs (mc_thread False i s)"

lemma mc_exec_reach: "mc_reach n dflt s \<Longrightarrow> mc_reach n dflt (mc_exec cs s)"
proof (induction cs arbitrary: s)
  case (Cons c cs)
  show ?case
  proof (cases c)
    case (CallPush i x)
    show ?thesis
    proof (cases "mc_pc s i = MIdle")
      case True
      have "mc_reach n dflt (s\<lparr>mc_pc := (mc_pc s)(i := PushLoad x (mp_flag (mc_queue s)))\<rparr>)"
        using Cons.prems mc_push [of s i, OF True] by (rule mc_more)
      then show ?thesis using Cons.IH CallPush True by simp
    qed (use Cons.prems CallPush in \<open>cases "mc_pc s i"; simp\<close>)
  next
    case (CallPop i)
    show ?thesis
    proof (cases "mc_pc s i = MIdle")
      case True
      have "mc_reach n dflt (s\<lparr>mc_pc := (mc_pc s)(i := PopHead (mp_tail (mc_queue s)))\<rparr>)"
        using Cons.prems mc_pop [of s i, OF True] by (rule mc_more)
      then show ?thesis using Cons.IH CallPop True by simp
    qed (use Cons.prems CallPop in \<open>cases "mc_pc s i"; simp\<close>)
  next
    case (Next i)
    have "mc_reach n dflt (mc_thread False i s)" using Cons.prems mc_next by (rule mc_more)
    then show ?thesis using Cons.IH Next by simp
  qed
qed simp

definition sample_choices :: "nat mc_choice list" where
  "sample_choices =
     [CallPush 0 7, CallPush 1 8, Next 0, Next 0] @ replicate 8 (Next 1) @ replicate 12 (Next 0)
     @ [CallPop 2, Next 2, Next 2, Next 2]"

definition sample_conc :: "(nat, 8 word) mp_conc" where
  "sample_conc = mc_exec sample_choices (mc_init 5 0)"

lemma sample_conc_reach: "mc_reach 5 0 sample_conc"
  unfolding sample_conc_def by (rule mc_exec_reach) (rule mc_start)

text \<open>A thread that does not occur in the choices does nothing.\<close>

fun choice_thread :: "'a mc_choice \<Rightarrow> nat" where
  "choice_thread (CallPush i x) = i"
| "choice_thread (CallPop i) = i"
| "choice_thread (Next i) = i"

lemma mc_exec_other: "i \<notin> choice_thread ` set cs \<Longrightarrow> mc_pc (mc_exec cs s) i = mc_pc s i"
proof (induction cs arbitrary: s)
  case (Cons c cs)
  have "mc_pc (mc_thread False j s) i = mc_pc s i" if "j \<noteq> i" for j
    using that by (simp add: mc_thread_def split: prod.split)
  then show ?case using Cons by (cases c) (auto split: mp_pc.split)
qed simp

lemma sample_conc_lists: "mc_pushed sample_conc = [7, 8]" "mc_popped sample_conc = [7]"
  by code_simp+

lemma sample_conc_idle: "mc_pc sample_conc i = MIdle"
proof (cases "i \<in> {0, 1, 2}")
  case True
  have "case mc_pc sample_conc 0 of MIdle \<Rightarrow> True | _ \<Rightarrow> False" "case mc_pc sample_conc 1 of MIdle \<Rightarrow> True | _ \<Rightarrow> False"
    "case mc_pc sample_conc 2 of MIdle \<Rightarrow> True | _ \<Rightarrow> False" by code_simp+
  then show ?thesis using True by (auto split: mp_pc.splits)
next
  case False
  then have "i \<notin> choice_thread ` set sample_choices" by (auto simp: sample_choices_def)
  then show ?thesis by (simp add: sample_conc_def mc_exec_other mc_init_def)
qed

section \<open>The properties\<close>

text \<open>C22. Any number of producers and consumers at the same time: as long as the indices have not wrapped around,
  however the accesses interleave and whichever compare-and-exchange fails, the elements are popped
  in the order in which their slots were reserved, each once; less than \<open>max_size\<close> elements are in the
  queue at any time; and the element that a consumer has read is the right one when it advances the tail.\<close>

theorem mpmc_concurrent_fifo:
  fixes s :: "('a, 'u::len word) mp_conc"
  assumes "mc_reach n dflt s" and "LENGTH('u) < 64" and "length (mc_pushed s) < 2 ^ LENGTH('u)"
  shows "mc_popped s = take (length (mc_popped s)) (mc_pushed s)
    \<and> length (mc_pushed s) \<le> length (mc_popped s) + (n - 1)
    \<and> (\<forall>i v. mc_pc s i = PopCas (mp_tail (mc_queue s)) v \<longrightarrow>
        length (mc_popped s) < length (mc_pushed s) \<and> v = mc_pushed s ! length (mc_popped s))"
proof -
  let ?q = "mc_queue s"
  have ok: "mc_ok s" and m: "mp_max ?q = n" using mc_reach_ok [OF assms] by simp_all
  have o: "mp_tail ?q \<le> mp_head ?q" "mp_head ?q \<le> mp_flag ?q" "unat (mp_flag ?q) = length (mc_pushed s)"
    "mc_popped s = take (unat (mp_tail ?q)) (mc_pushed s)"
    "length (mc_pushed s) - unat (mp_tail ?q) \<le> n - 1"
    using ok m by (auto simp: mc_ok_def mc_order_def Let_def)
  have "mp_tail ?q \<le> mp_flag ?q" using o(1,2) by (rule order_trans)
  then have len: "length (mc_popped s) = unat (mp_tail ?q)" using o(3,4) by (simp add: word_le_nat_alt)
  have "length (mc_popped s) < length (mc_pushed s) \<and> v = mc_pushed s ! length (mc_popped s)"
    if pc: "mc_pc s i = PopCas (mp_tail ?q) v" for i v
  proof -
    have "mp_pc_ok ?q (mc_pushed s) (mc_pc s i)" using ok by (simp add: mc_ok_def mc_pcs_def)
    then have "mp_tail ?q < mp_head ?q" "v = mc_pushed s ! unat (mp_tail ?q)" using pc by simp_all
    moreover have "mp_tail ?q < mp_flag ?q" using calculation(1) o(2) by (rule order.strict_trans2)
    ultimately show ?thesis using len o(3) by (simp add: word_less_nat_alt)
  qed
  then show ?thesis using o(4,5) len by auto
qed

theorem mpmc_concurrent_fifo_witness:
  "mc_popped sample_conc = take (length (mc_popped sample_conc)) (mc_pushed sample_conc) \<and> mc_popped sample_conc = [7]"
proof -
  have "LENGTH(8) < (64 :: nat)" "length (mc_pushed sample_conc) < 2 ^ LENGTH(8)" by (simp_all add: sample_conc_lists)
  from mpmc_concurrent_fifo [OF sample_conc_reach this] show ?thesis by (simp add: sample_conc_lists)
qed

text \<open>C23. Nothing is lost as long as fewer elements than \<open>2 ^ w\<close> were pushed, where \<open>w\<close>, less than 64, is the width of the
  index type, so that the indices have not wrapped around: when no thread is in an operation, the next \<open>pop\<close> returns the
  oldest element that was pushed and not yet popped, published or not, and returns false only if there is none.\<close>

theorem mpmc_nothing_lost:
  fixes s :: "('a, 'u::len word) mp_conc"
  assumes "mc_reach n dflt s" and "LENGTH('u) < 64" and "length (mc_pushed s) < 2 ^ LENGTH('u)"
    and "\<forall>i. mc_pc s i = MIdle"
  shows "fst (mp_pop1 (mc_queue s))
    = (if length (mc_popped s) < length (mc_pushed s) then Some (mc_pushed s ! length (mc_popped s)) else None)"
proof -
  have "mc_ok s" using mc_reach_ok [OF assms(1-3)] by simp
  from mc_quiescent_pop [OF this assms(4), of 1] show ?thesis
    by (auto simp: mp_pop1_def eval_nat_numeral simp del: mp_pop.simps)
qed

theorem mpmc_nothing_lost_witness: "fst (mp_pop1 (mc_queue sample_conc)) = Some 8"
proof -
  have "LENGTH(8) < (64 :: nat)" "length (mc_pushed sample_conc) < 2 ^ LENGTH(8)"
    "\<forall>i. mc_pc sample_conc i = MIdle" by (simp_all add: sample_conc_lists sample_conc_idle)
  from mpmc_nothing_lost [OF sample_conc_reach this] show ?thesis by (simp add: sample_conc_lists)
qed

end
