(* ===== verification/Fs_Tagged.thy ===== *)
theory Fs_Tagged
  imports Fs_Prelude
begin

unbundle bit_operations_syntax

text \<open>
  The tagged words of \<open>include/footstone/mpmc_list.h\<close>: a pointer in the low bits of a 64 bit word and a counter above
  it, which every successful exchange advances, so that a word that was read before an exchange is
  told from the word after it even if the pointer is the same.  A pointer is a word; \<open>tg_cas\<close> is one
  compare-and-exchange, which does not fail without a reason.
\<close>

section \<open>Words\<close>

text \<open>The two specialisations of \<open>tagged_factor\<close>.\<close>

datatype ptr_size = Bytes4 | Bytes8

definition tagged_mask :: "ptr_size \<Rightarrow> u64" where
  "tagged_mask z = (case z of Bytes4 \<Rightarrow> 0x00000000ffffffff | Bytes8 \<Rightarrow> 0x0000ffffffffffff)"

definition tagged_incr :: "ptr_size \<Rightarrow> u64" where
  "tagged_incr z = (case z of Bytes4 \<Rightarrow> 0x0000000100000000 | Bytes8 \<Rightarrow> 0x0001000000000000)"

definition tg_new :: "ptr_size \<Rightarrow> u64 \<Rightarrow> u64 \<Rightarrow> u64" where
  "tg_new z p tag = p OR (tag AND NOT (tagged_mask z))"

definition tg_ptr :: "ptr_size \<Rightarrow> u64 \<Rightarrow> u64" where
  "tg_ptr z w = w AND tagged_mask z"

definition tg_add :: "ptr_size \<Rightarrow> u64 \<Rightarrow> u64" where
  "tg_add z tag = tag + tagged_incr z"

definition tg_del :: "ptr_size \<Rightarrow> u64 \<Rightarrow> u64" where
  "tg_del z tag = tag - tagged_incr z"

section \<open>The atomic word\<close>

text \<open>
  \<open>compare_exchange\<close>: the result, the new value of the atomic word, and the new value of \<open>exp\<close>, which the
  guard sets to what was found.
\<close>

definition tg_cas :: "ptr_size \<Rightarrow> u64 \<Rightarrow> u64 \<Rightarrow> u64 \<Rightarrow> bool \<times> u64 \<times> u64" where
  "tg_cas z cell expct val =
     (if cell = expct then (True, tg_new z val (tg_add z expct), expct) else (False, cell, cell))"

text \<open>\<open>exchange\<close>: the old word and the new one; \<open>store\<close> is the new one.\<close>

definition tg_exchange :: "ptr_size \<Rightarrow> u64 \<Rightarrow> u64 \<Rightarrow> u64 \<times> u64" where
  "tg_exchange z cell val =
     (let old = cell in case tg_cas z cell old val of (ok, cell', old') \<Rightarrow> (old', cell'))"

definition tg_store :: "ptr_size \<Rightarrow> u64 \<Rightarrow> u64 \<Rightarrow> u64" where
  "tg_store z cell val = snd (tg_exchange z cell val)"

section \<open>Pointers and tags\<close>

text \<open>A pointer that fits under the mask, and the counter of a word.\<close>

definition tg_fits :: "ptr_size \<Rightarrow> u64 \<Rightarrow> bool" where
  "tg_fits z p \<longleftrightarrow> p AND tagged_mask z = p"

definition tg_bits :: "ptr_size \<Rightarrow> nat" where
  "tg_bits z = (case z of Bytes4 \<Rightarrow> 32 | Bytes8 \<Rightarrow> 48)"

definition tg_tag :: "ptr_size \<Rightarrow> u64 \<Rightarrow> int" where
  "tg_tag z w = uint w div 2 ^ tg_bits z"

definition tg_tags :: "ptr_size \<Rightarrow> int" where
  "tg_tags z = 2 ^ (64 - tg_bits z)"

lemma tagged_mask_mask: "tagged_mask z = mask (tg_bits z)"
  by (cases z) (simp_all add: tagged_mask_def tg_bits_def mask_eq_exp_minus_1)

lemma tg_fits_0 [simp]: "tg_fits z 0"
  by (simp add: tg_fits_def)

lemma tg_ptr_fits [simp]: "tg_fits z (tg_ptr z w)"
  by (simp add: tg_fits_def tg_ptr_def and.assoc)

lemma tg_ptr_0 [simp]: "tg_ptr z 0 = 0"
  by (simp add: tg_ptr_def)

lemma tg_ptr_id [simp]: "tg_fits z p \<Longrightarrow> tg_ptr z p = p"
  by (simp add: tg_fits_def tg_ptr_def)

lemma tg_ptr_new [simp]:
  assumes "tg_fits z p"
  shows "tg_ptr z (tg_new z p t) = p"
proof -
  have "(p OR (t AND NOT m)) AND m = p AND m" for m :: u64
    by (auto simp: bit_eq_iff bit_and_iff bit_or_iff bit_not_iff)
  then show ?thesis using assms by (simp add: tg_new_def tg_ptr_def tg_fits_def)
qed

lemma tg_tag_drop: "tg_tag z w = uint (drop_bit (tg_bits z) w)"
proof -
  have "take_bit 64 (uint w) = uint w"
    using unsigned_less [of w] by (intro take_bit_int_eq_self) simp_all
  then show ?thesis by (simp add: tg_tag_def unsigned_drop_bit_eq flip: drop_bit_eq_div)
qed

lemma tg_tag_new [simp]:
  assumes "tg_fits z p"
  shows "tg_tag z (tg_new z p t) = tg_tag z t"
proof -
  have p: "\<not> bit p (tg_bits z + n)" for n
    using assms unfolding tg_fits_def tagged_mask_mask
    by (metis bit_and_iff bit_mask_iff not_add_less1)
  have "drop_bit (tg_bits z) (tg_new z p t) = drop_bit (tg_bits z) t"
    using p by (auto dest: bit_imp_le_length simp: bit_eq_iff tg_new_def tagged_mask_mask bit_drop_bit_eq bit_or_iff bit_and_iff
        bit_not_iff bit_mask_iff)
  then show ?thesis by (simp add: tg_tag_drop)
qed

lemma tg_tag_add: "tg_tag z (tg_add z t) = (tg_tag z t + 1) mod tg_tags z"
proof -
  have m: "(a mod (c * d)) div c = a div c mod d" if "0 < c" "0 < d" for a c d :: int
    using that by (simp add: zmod_zmult2_eq)
  have i: "uint (tagged_incr z) = 2 ^ tg_bits z" by (cases z) (simp_all add: tagged_incr_def tg_bits_def)
  have e: "(2 :: int) ^ 64 = 2 ^ tg_bits z * tg_tags z" by (cases z) (simp_all add: tg_bits_def tg_tags_def)
  have "uint (t + tagged_incr z) = (uint t + 2 ^ tg_bits z) mod 2 ^ 64"
    by (simp add: uint_word_ariths i)
  then have "uint (t + tagged_incr z) div 2 ^ tg_bits z = (uint t + 2 ^ tg_bits z) div 2 ^ tg_bits z mod tg_tags z"
    using m [of "2 ^ tg_bits z" "tg_tags z" "uint t + 2 ^ tg_bits z"] by (simp only: e) (simp add: tg_tags_def)
  also have "(uint t + 2 ^ tg_bits z) div 2 ^ tg_bits z = uint t div 2 ^ tg_bits z + 1" by (cases z) (simp_all add: tg_bits_def)
  finally show ?thesis by (simp add: tg_tag_def tg_add_def)
qed

lemma tg_word_eq_iff: "w = w' \<longleftrightarrow> tg_ptr z w = tg_ptr z w' \<and> tg_tag z w = tg_tag z w'"
proof
  assume e: "tg_ptr z w = tg_ptr z w' \<and> tg_tag z w = tg_tag z w'"
  have low: "tg_ptr z v = take_bit (tg_bits z) v" for v
    by (simp add: tg_ptr_def tagged_mask_mask take_bit_eq_mask)
  have "drop_bit (tg_bits z) w = drop_bit (tg_bits z) w'" using e by (simp add: tg_tag_drop word_uint_eq_iff)
  moreover have "take_bit (tg_bits z) w = take_bit (tg_bits z) w'" using e by (simp add: low)
  ultimately show "w = w'" by (metis bits_ident)
qed simp

lemma tg_store_simp: "tg_store z w p = tg_new z p (tg_add z w)"
  by (simp add: tg_store_def tg_exchange_def tg_cas_def)

lemma tg_tag_range: "0 \<le> tg_tag z w \<and> tg_tag z w < tg_tags z"
proof -
  have "uint w < 2 ^ 64" using unsigned_less [of w] by simp
  then have "uint w div 2 ^ tg_bits z < tg_tags z"
    by (cases z) (simp_all add: tg_bits_def tg_tags_def)
  then show ?thesis by (simp add: tg_tag_def pos_imp_zdiv_nonneg_iff)
qed

section \<open>Runs of exchanges\<close>

text \<open>What a word has become after a sequence of exchanges.\<close>

definition tg_stores :: "ptr_size \<Rightarrow> u64 list \<Rightarrow> u64 \<Rightarrow> u64" where
  "tg_stores z ps w = fold (\<lambda>p w. tg_store z w p) ps w"

lemma tg_stores_value:
  assumes "\<forall>p \<in> set ps. tg_fits z p"
  shows "tg_ptr z (tg_stores z ps w) = (if ps = [] then tg_ptr z w else last ps)
    \<and> tg_tag z (tg_stores z ps w) = (tg_tag z w + int (length ps)) mod tg_tags z"
  using assms
proof (induction ps rule: rev_induct)
  case Nil
  show ?case using tg_tag_range [of z w] by (simp add: tg_stores_def)
next
  case (snoc p ps)
  have s: "tg_stores z (ps @ [p]) w = tg_new z p (tg_add z (tg_stores z ps w))"
    by (simp add: tg_stores_def tg_store_simp)
  have "((tg_tag z w + int (length ps)) mod tg_tags z + 1) mod tg_tags z
      = (tg_tag z w + int (length (ps @ [p]))) mod tg_tags z"
    using mod_add_left_eq [of "tg_tag z w + int (length ps)" "tg_tags z" 1] by (simp add: algebra_simps)
  then show ?case using snoc by (simp add: s tg_tag_add)
qed

lemma tg_cas_stale_iff:
  assumes "\<forall>p \<in> set ps. tg_fits z p" and "ps \<noteq> []"
  shows "fst (tg_cas z (tg_stores z ps w) w val) \<longleftrightarrow> tg_ptr z w = last ps \<and> tg_tags z dvd int (length ps)"
proof -
  have "(tg_tag z w + n) mod tg_tags z = tg_tag z w \<longleftrightarrow> tg_tags z dvd n" for n
    using tg_tag_range [of z w] by (metis add_diff_cancel_left' mod_eq_dvd_iff mod_pos_pos_trivial)
  then show ?thesis
    using tg_stores_value [OF assms(1), of w] assms(2)
    by (auto simp: tg_cas_def tg_word_eq_iff [of "tg_stores z ps w" w z])
qed

end
