(* ===== verification/Fs_Mpmc_List.thy ===== *)
theory Fs_Mpmc_List
  imports Fs_Tagged Fs_Bounded_Queue
begin

text \<open>
  \<open>include/footstone/mpmc_list.h\<close>: the allocator \<open>pool\<close>, which keeps released nodes in a list and one in a slot
  of its own, and the linked queue \<open>mpmc_list\<close>, operations running one after the other.  The explicit
  constructors of the tagged words keep the templates from being instantiated (\<open>exp = num\<close>, \<open>curr = el_.exchange(...)\<close>
  and \<open>{val, nullptr}\<close> need a conversion); the model takes these conversions as they are meant.

  The heap maps addresses to nodes.  A node of the pool is a union: of the node of the queue and of the word
  that links the free nodes.  Releasing a node stores to that word while the node of the queue is
  there; the exchange reads the first eight bytes of the element then, which the parameter \<open>bits\<close> gives.
  The address of a node that \<open>new\<close> creates is an argument of \<open>push\<close>.
\<close>

section \<open>Heap\<close>

datatype 'a cell = ListNode 'a u64 | PoolNode u64

record 'a mlist =
  ml_heap :: "u64 \<Rightarrow> 'a cell option"
  ml_cursor :: u64
  ml_el :: u64
  ml_head :: u64
  ml_tail :: u64

definition node_data :: "u64 \<Rightarrow> 'a mlist \<Rightarrow> 'a res" where
  "node_data p s =
     (case ml_heap s p of
        Some (ListNode d w) \<Rightarrow> Inr d | Some (PoolNode w) \<Rightarrow> Inl (UB BadMember) | None \<Rightarrow> Inl (UB NullDeref))"

definition node_next :: "u64 \<Rightarrow> 'a mlist \<Rightarrow> u64 res" where
  "node_next p s =
     (case ml_heap s p of
        Some (ListNode d w) \<Rightarrow> Inr w | Some (PoolNode w) \<Rightarrow> Inl (UB BadMember) | None \<Rightarrow> Inl (UB NullDeref))"

definition pool_next :: "u64 \<Rightarrow> 'a mlist \<Rightarrow> u64 res" where
  "pool_next p s =
     (case ml_heap s p of
        Some (PoolNode w) \<Rightarrow> Inr w | Some (ListNode d w) \<Rightarrow> Inl (UB BadMember) | None \<Rightarrow> Inl (UB NullDeref))"

text \<open>The first word of a node, whatever is there.\<close>

definition node_word :: "('a \<Rightarrow> u64) \<Rightarrow> u64 \<Rightarrow> 'a mlist \<Rightarrow> u64 res" where
  "node_word bits p s =
     (case ml_heap s p of
        Some (ListNode d w) \<Rightarrow> Inr (bits d) | Some (PoolNode w) \<Rightarrow> Inr w | None \<Rightarrow> Inl (UB NullDeref))"

definition ml_write :: "u64 \<Rightarrow> 'a cell \<Rightarrow> 'a mlist \<Rightarrow> 'a mlist" where
  "ml_write p c s = s\<lparr>ml_heap := (ml_heap s)(p \<mapsto> c)\<rparr>"

section \<open>The pool\<close>

text \<open>
  The loops take fuel, and \<open>NoReturn\<close> means that it is used up.  \<open>alloc_loop\<close> gives the node it has
  taken off the list of free nodes, or \<open>None\<close> if there is none.
\<close>

fun alloc_loop :: "ptr_size \<Rightarrow> nat \<Rightarrow> u64 \<Rightarrow> 'a mlist \<Rightarrow> (u64 option \<times> 'a mlist) res" where
  "alloc_loop z 0 cur s = Inl NoReturn"
| "alloc_loop z (Suc fuel) cur s =
     (if tg_ptr z cur = 0 then Inr (None, s)
      else bind_res (pool_next (tg_ptr z cur) s) (\<lambda>w.
        case tg_cas z (ml_cursor s) cur (tg_ptr z w) of (ok, cursor, cur') \<Rightarrow>
          if ok then Inr (Some (tg_ptr z cur'), s\<lparr>ml_cursor := cursor\<rparr>)
          else alloc_loop z fuel cur' s))"

definition pool_alloc :: "ptr_size \<Rightarrow> nat \<Rightarrow> u64 \<Rightarrow> 'a \<Rightarrow> 'a mlist \<Rightarrow> (u64 \<times> 'a mlist) res" where
  "pool_alloc z fuel new_at x s =
     (let cur = ml_el s; s = s\<lparr>ml_el := 0\<rparr> in
      if tg_ptr z cur = 0 then
        bind_res (alloc_loop z fuel (ml_cursor s) s) (\<lambda>(r, s).
          case r of
            None \<Rightarrow> Inr (new_at, ml_write new_at (ListNode x 0) s)
          | Some p \<Rightarrow> Inr (p, ml_write p (ListNode x 0) s))
      else Inr (tg_ptr z cur, ml_write (tg_ptr z cur) (ListNode x 0) s))"

fun free_loop :: "ptr_size \<Rightarrow> ('a \<Rightarrow> u64) \<Rightarrow> nat \<Rightarrow> u64 \<Rightarrow> u64 \<Rightarrow> 'a mlist \<Rightarrow> 'a mlist res" where
  "free_loop z bits 0 cur temp s = Inl NoReturn"
| "free_loop z bits (Suc fuel) cur temp s =
     bind_res (node_word bits temp s) (\<lambda>old.
       let s = ml_write temp (PoolNode (tg_store z old (tg_ptr z cur))) s in
       case tg_cas z (ml_cursor s) cur temp of (ok, cursor, cur') \<Rightarrow>
         if ok then Inr (s\<lparr>ml_cursor := cursor\<rparr>) else free_loop z bits fuel cur' temp s)"

definition pool_free :: "ptr_size \<Rightarrow> ('a \<Rightarrow> u64) \<Rightarrow> nat \<Rightarrow> u64 \<Rightarrow> 'a mlist \<Rightarrow> 'a mlist res" where
  "pool_free z bits fuel p s =
     (if p = 0 then Inr s
      else let temp = ml_el s; s = s\<lparr>ml_el := p\<rparr> in
        if temp = 0 then Inr s else free_loop z bits fuel (ml_cursor s) temp s)"

text \<open>The destructor of the pool deletes the nodes of the list of free ones.\<close>

fun pool_destroy :: "ptr_size \<Rightarrow> nat \<Rightarrow> u64 \<Rightarrow> 'a mlist \<Rightarrow> 'a mlist res" where
  "pool_destroy z 0 cur s = Inl NoReturn"
| "pool_destroy z (Suc fuel) cur s =
     (if cur = 0 then Inr s
      else bind_res (pool_next cur s) (\<lambda>w.
        pool_destroy z fuel (tg_ptr z w) (s\<lparr>ml_heap := (ml_heap s)(cur := None)\<rparr>)))"

definition ml_destroy :: "ptr_size \<Rightarrow> nat \<Rightarrow> 'a mlist \<Rightarrow> 'a mlist res" where
  "ml_destroy z fuel s = pool_destroy z fuel (tg_ptr z (ml_cursor s)) s"

section \<open>The queue\<close>

text \<open>A new queue: \<open>alloc()\<close> on an empty pool creates the first node, at the address \<open>a\<close>, with a default element.\<close>

definition ml_new :: "u64 \<Rightarrow> 'a \<Rightarrow> 'a mlist" where
  "ml_new a d = \<lparr>ml_heap = [a \<mapsto> ListNode d 0], ml_cursor = 0, ml_el = 0, ml_head = a, ml_tail = a\<rparr>"

definition ml_empty :: "ptr_size \<Rightarrow> 'a mlist \<Rightarrow> bool res" where
  "ml_empty z s = bind_res (node_next (tg_ptr z (ml_head s)) s) (\<lambda>w. Inr (tg_ptr z w = 0))"

fun push_loop :: "ptr_size \<Rightarrow> nat \<Rightarrow> u64 \<Rightarrow> u64 \<Rightarrow> 'a mlist \<Rightarrow> 'a mlist res" where
  "push_loop z 0 p tail s = Inl NoReturn"
| "push_loop z (Suc fuel) p tail s =
     bind_res (node_next (tg_ptr z tail) s) (\<lambda>nxt.
       if tail = ml_tail s then
         if tg_ptr z nxt = 0 then
           bind_res (node_data (tg_ptr z tail) s) (\<lambda>d.
           bind_res (node_next (tg_ptr z tail) s) (\<lambda>found.
             case tg_cas z found nxt p of (ok, cell, _) \<Rightarrow>
               if ok then
                 (let s = ml_write (tg_ptr z tail) (ListNode d cell) s in
                  case tg_cas z (ml_tail s) tail p of (_, tail', _) \<Rightarrow> Inr (s\<lparr>ml_tail := tail'\<rparr>))
               else push_loop z fuel p (ml_tail s) s))
         else
           (case tg_cas z (ml_tail s) tail (tg_ptr z nxt) of (ok, cell, found) \<Rightarrow>
              if \<not> ok then push_loop z fuel p found s
              else push_loop z fuel p cell (s\<lparr>ml_tail := cell\<rparr>))
       else push_loop z fuel p (ml_tail s) s)"

definition ml_push :: "ptr_size \<Rightarrow> nat \<Rightarrow> u64 \<Rightarrow> 'a \<Rightarrow> 'a mlist \<Rightarrow> 'a mlist res" where
  "ml_push z fuel new_at x s =
     bind_res (pool_alloc z fuel new_at x s) (\<lambda>(p, s). push_loop z fuel p (ml_tail s) s)"

fun pop_loop :: "ptr_size \<Rightarrow> ('a \<Rightarrow> u64) \<Rightarrow> nat \<Rightarrow> u64 \<Rightarrow> u64 \<Rightarrow> 'a mlist \<Rightarrow> ('a option \<times> 'a mlist) res" where
  "pop_loop z bits 0 head tail s = Inl NoReturn"
| "pop_loop z bits (Suc fuel) head tail s =
     bind_res (node_next (tg_ptr z head) s) (\<lambda>w.
       let nxt = tg_ptr z w in
       if head = ml_head s then
         if tg_ptr z head = tg_ptr z tail then
           if nxt = 0 then Inr (None, s)
           else
             (case tg_cas z (ml_tail s) tail nxt of (_, cell, _) \<Rightarrow>
                pop_loop z bits fuel (ml_head s) cell (s\<lparr>ml_tail := cell\<rparr>))
         else
           bind_res (node_data nxt s) (\<lambda>v.
             case tg_cas z (ml_head s) head nxt of (ok, cell, found) \<Rightarrow>
               if ok then
                 bind_res (pool_free z bits (Suc fuel) (tg_ptr z head) (s\<lparr>ml_head := cell\<rparr>)) (\<lambda>s. Inr (Some v, s))
               else pop_loop z bits fuel found (ml_tail s) s)
       else pop_loop z bits fuel (ml_head s) (ml_tail s) s)"

definition ml_pop :: "ptr_size \<Rightarrow> ('a \<Rightarrow> u64) \<Rightarrow> nat \<Rightarrow> 'a mlist \<Rightarrow> ('a option \<times> 'a mlist) res" where
  "ml_pop z bits fuel s = pop_loop z bits fuel (ml_head s) (ml_tail s) s"

end
