(* ===== verification/Fs_Mpmc_List_Facts.thy ===== *)
theory Fs_Mpmc_List_Facts
  imports Fs_Mpmc_List
begin

text \<open>
  \<open>mpmc_list\<close> refines a list.  A well-formed queue (\<open>ml_repr\<close>) is a path of nodes from the head to the tail, whose
  elements after the first node are the contents, a path of free nodes from the cursor, and perhaps a node in the
  slot of the pool; these are all nodes there are, and none is in two places.
\<close>

section \<open>Paths\<close>

fun node_path :: "ptr_size \<Rightarrow> (u64 \<Rightarrow> 'a cell option) \<Rightarrow> u64 \<Rightarrow> (u64 \<times> 'a) list \<Rightarrow> bool" where
  "node_path z h p [] = (\<exists>d w. h p = Some (ListNode d w) \<and> tg_ptr z w = 0)"
| "node_path z h p ((q, x) # qs) =
     ((\<exists>d w. h p = Some (ListNode d w) \<and> tg_ptr z w = q) \<and> (\<exists>w. h q = Some (ListNode x w)) \<and> q \<noteq> 0
      \<and> node_path z h q qs)"

fun free_path :: "ptr_size \<Rightarrow> (u64 \<Rightarrow> 'a cell option) \<Rightarrow> u64 \<Rightarrow> u64 list \<Rightarrow> bool" where
  "free_path z h p [] = (p = 0)"
| "free_path z h p (q # qs) = (p = q \<and> q \<noteq> 0 \<and> (\<exists>w. h q = Some (PoolNode w) \<and> free_path z h (tg_ptr z w) qs))"

lemma node_path_upd [simp]:
  "a \<noteq> p \<Longrightarrow> a \<notin> fst ` set qs \<Longrightarrow> node_path z (h(a := c)) p qs = node_path z h p qs"
  by (induction qs arbitrary: p) auto

lemma free_path_upd [simp]:
  "a \<notin> set qs \<Longrightarrow> free_path z (h(a := c)) p qs = free_path z h p qs"
  by (induction qs arbitrary: p) auto

lemma node_path_last:
  "node_path z h p qs \<Longrightarrow> \<exists>d w. h (last (p # map fst qs)) = Some (ListNode d w) \<and> tg_ptr z w = 0"
  by (induction qs arbitrary: p) auto

lemma node_path_snoc:
  "node_path z h p qs \<Longrightarrow> l = last (p # map fst qs) \<Longrightarrow> distinct (p # map fst qs) \<Longrightarrow> h l = Some (ListNode d w) \<Longrightarrow>
   q \<notin> set (p # map fst qs) \<Longrightarrow> h q = Some (ListNode x 0) \<Longrightarrow> q \<noteq> 0 \<Longrightarrow> tg_ptr z w' = q \<Longrightarrow>
     node_path z (h(l \<mapsto> ListNode d w')) p (qs @ [(q, x)])"
proof (induction qs arbitrary: p)
  case (Cons e qs)
  obtain q0 x0 where e: "e = (q0, x0)" by (cases e)
  have l: "l = last (q0 # map fst qs)" using Cons.prems(2) e by simp
  have "node_path z (h(l \<mapsto> ListNode d w')) q0 (qs @ [(q, x)])"
    using Cons.prems e l by (intro Cons.IH) auto
  moreover have "l \<in> set (q0 # map fst qs)" unfolding l by (rule last_in_set) simp
  then have "(h(l \<mapsto> ListNode d w')) p = h p" using Cons.prems(3) e by auto
  moreover have "\<exists>w. (h(l \<mapsto> ListNode d w')) q0 = Some (ListNode x0 w)" using Cons.prems(1,4) e by auto
  ultimately show ?case using Cons.prems(1) by (simp add: e del: fun_upd_apply)
qed auto

section \<open>Well-formed queues\<close>

definition ml_nodes :: "ptr_size \<Rightarrow> 'a mlist \<Rightarrow> (u64 \<times> 'a) list \<Rightarrow> u64 list \<Rightarrow> u64 list" where
  "ml_nodes z s qs fs = tg_ptr z (ml_head s) # map fst qs @ fs @ (if ml_el s = 0 then [] else [ml_el s])"

definition ml_repr :: "ptr_size \<Rightarrow> 'a mlist \<Rightarrow> (u64 \<times> 'a) list \<Rightarrow> u64 list \<Rightarrow> bool" where
  "ml_repr z s qs fs \<longleftrightarrow>
     node_path z (ml_heap s) (tg_ptr z (ml_head s)) qs
     \<and> tg_ptr z (ml_tail s) = last (tg_ptr z (ml_head s) # map fst qs)
     \<and> free_path z (ml_heap s) (tg_ptr z (ml_cursor s)) fs
     \<and> distinct (ml_nodes z s qs fs) \<and> dom (ml_heap s) = set (ml_nodes z s qs fs)
     \<and> (\<forall>p \<in> set (ml_nodes z s qs fs). tg_fits z p \<and> p \<noteq> 0)"

lemma tg_cas_same [simp]: "tg_cas z c c v = (True, tg_new z v (tg_add z c), c)"
  by (simp add: tg_cas_def)

lemma ml_new_repr:
  assumes "tg_fits z a" and "a \<noteq> 0"
  shows "ml_repr z (ml_new a d) [] []"
  using assms by (simp add: ml_repr_def ml_new_def ml_nodes_def)

text \<open>A node taken from the pool: where it comes from, and that it is no longer anywhere else.\<close>

lemma pool_alloc_node:
  assumes "ml_repr z s qs fs" and "tg_fits z a" and "a \<noteq> 0" and "a \<notin> dom (ml_heap s)"
  obtains p s' fs' where "pool_alloc z (Suc n) a x s = Inr (p, s')"
    and "ml_head s' = ml_head s" and "ml_tail s' = ml_tail s" and "ml_heap s' p = Some (ListNode x 0)"
    and "node_path z (ml_heap s') (tg_ptr z (ml_head s)) qs"
    and "free_path z (ml_heap s') (tg_ptr z (ml_cursor s')) fs'"
    and "distinct (p # ml_nodes z s' qs fs')" and "dom (ml_heap s') = insert p (set (ml_nodes z s' qs fs'))"
    and "dom (ml_heap s') \<subseteq> insert a (dom (ml_heap s))" and "tg_fits z p" and "p \<noteq> 0"
proof (cases "ml_el s = 0")
  case el: False
  show ?thesis
    by (rule that [of "ml_el s" "ml_write (ml_el s) (ListNode x 0) (s\<lparr>ml_el := 0\<rparr>)" fs])
      (use assms el in \<open>auto simp: pool_alloc_def ml_repr_def ml_nodes_def ml_write_def Let_def\<close>)
next
  case el: True
  show ?thesis
  proof (cases fs)
    case Nil
    show ?thesis
      by (rule that [of a "ml_write a (ListNode x 0) s" "[]"])
        (use assms el Nil in \<open>auto simp: pool_alloc_def ml_repr_def ml_nodes_def ml_write_def Let_def\<close>)
  next
    case (Cons q fs0)
    obtain w where w: "ml_heap s q = Some (PoolNode w)" "tg_ptr z (ml_cursor s) = q" "q \<noteq> 0"
      using assms(1) Cons by (auto simp: ml_repr_def)
    have q: "tg_ptr z q = q" using w(2) by auto
    show ?thesis
      by (rule that [of q "ml_write q (ListNode x 0) (s\<lparr>ml_cursor := tg_new z (tg_ptr z w) (tg_add z (ml_cursor s))\<rparr>)" fs0])
        (use assms el Cons w q in \<open>auto simp: pool_alloc_def pool_next_def ml_repr_def ml_nodes_def ml_write_def Let_def\<close>)
  qed
qed

lemma ml_push_repr:
  assumes "ml_repr z s qs fs" and "tg_fits z a" and "a \<noteq> 0" and "a \<notin> dom (ml_heap s)"
  shows "\<exists>p s' fs'. ml_push z (Suc n) a x s = Inr s' \<and> ml_repr z s' (qs @ [(p, x)]) fs'
    \<and> dom (ml_heap s') \<subseteq> insert a (dom (ml_heap s))"
proof -
  obtain p s1 fs1 where s1: "pool_alloc z (Suc n) a x s = Inr (p, s1)"
    "ml_head s1 = ml_head s" "ml_tail s1 = ml_tail s" "ml_heap s1 p = Some (ListNode x 0)"
    "node_path z (ml_heap s1) (tg_ptr z (ml_head s)) qs" "free_path z (ml_heap s1) (tg_ptr z (ml_cursor s1)) fs1"
    "distinct (p # ml_nodes z s1 qs fs1)" "dom (ml_heap s1) = insert p (set (ml_nodes z s1 qs fs1))"
    "dom (ml_heap s1) \<subseteq> insert a (dom (ml_heap s))" "tg_fits z p" "p \<noteq> 0"
    by (rule pool_alloc_node [OF assms, of n x]) auto
  let ?l = "tg_ptr z (ml_tail s)"
  have l: "?l = last (tg_ptr z (ml_head s) # map fst qs)" using assms(1) by (simp add: ml_repr_def)
  obtain d w where d: "ml_heap s1 ?l = Some (ListNode d w)" "tg_ptr z w = 0"
    using node_path_last [OF s1(5)] l by auto
  have lin: "?l \<in> set (tg_ptr z (ml_head s) # map fst qs)" unfolding l by (rule last_in_set) simp
  let ?w = "tg_new z p (tg_add z w)"
  let ?s = "(ml_write ?l (ListNode d ?w) s1)\<lparr>ml_tail := tg_new z p (tg_add z (ml_tail s))\<rparr>"
  have dist: "distinct (tg_ptr z (ml_head s) # map fst qs)" "p \<notin> set (tg_ptr z (ml_head s) # map fst qs)"
    using s1(2,7) by (auto simp: ml_nodes_def)
  have path: "node_path z ((ml_heap s1)(?l \<mapsto> ListNode d ?w)) (tg_ptr z (ml_head s)) (qs @ [(p, x)])"
    using s1(10) by (intro node_path_snoc [OF s1(5) l dist(1) d(1) dist(2) s1(4) s1(11)]) simp
  have "?l \<notin> set fs1" using lin s1(2,7) by (auto simp: ml_nodes_def)
  then have free: "free_path z ((ml_heap s1)(?l \<mapsto> ListNode d ?w)) (tg_ptr z (ml_cursor s1)) fs1"
    using s1(6) by simp
  have nodes: "mset (ml_nodes z ?s (qs @ [(p, x)]) fs1) = mset (p # ml_nodes z s1 qs fs1)"
    using s1(2) by (simp add: ml_nodes_def ml_write_def)
  have n: "set (ml_nodes z ?s (qs @ [(p, x)]) fs1) = insert p (set (ml_nodes z s1 qs fs1))"
    "distinct (ml_nodes z ?s (qs @ [(p, x)]) fs1)"
    using mset_eq_setD [OF nodes] mset_eq_imp_distinct_iff [OF nodes] s1(7) by auto
  have dom: "dom (ml_heap ?s) = dom (ml_heap s1)" using d(1) by (auto simp: ml_write_def)
  have fits: "\<forall>p \<in> dom (ml_heap s). tg_fits z p \<and> p \<noteq> 0" using assms(1) by (simp add: ml_repr_def)
  have "ml_push z (Suc n) a x s = Inr ?s"
    using s1(1-4) d by (simp add: ml_push_def node_next_def node_data_def ml_write_def Let_def)
  moreover have "ml_repr z ?s (qs @ [(p, x)]) fs1"
  proof -
    have "\<forall>q \<in> dom (ml_heap s1). tg_fits z q \<and> q \<noteq> 0"
    proof
      fix q assume "q \<in> dom (ml_heap s1)"
      with s1(9) have "q \<in> insert a (dom (ml_heap s))" by (rule subsetD)
      then show "tg_fits z q \<and> q \<noteq> 0" using bspec [OF fits, of q] assms(2,3) by (elim insertE) simp_all
    qed
    moreover have ds: "set (ml_nodes z ?s (qs @ [(p, x)]) fs1) = dom (ml_heap s1)" by (simp only: n(1) s1(8))
    ultimately have "\<forall>q \<in> set (ml_nodes z ?s (qs @ [(p, x)]) fs1). tg_fits z q \<and> q \<noteq> 0" by (simp only:)
    moreover have "dom (ml_heap ?s) = set (ml_nodes z ?s (qs @ [(p, x)]) fs1)" by (simp only: dom ds)
    ultimately show ?thesis unfolding ml_repr_def
      using path free n(2) s1(2,10) by (intro conjI) (simp_all add: ml_write_def del: fun_upd_apply)
  qed
  ultimately show ?thesis using dom s1(9) by blast
qed

lemma pool_free_node:
  assumes "tg_fits z p" and "p \<noteq> 0" and "ml_el s \<in> dom (ml_heap s) \<or> ml_el s = 0" and "tg_fits z (ml_el s)"
    and "free_path z (ml_heap s) (tg_ptr z (ml_cursor s)) fs" and "ml_el s \<notin> set fs"
  obtains s' fs' where "pool_free z bits (Suc n) p s = Inr s'" and "ml_el s' = p"
    and "ml_head s' = ml_head s" and "ml_tail s' = ml_tail s"
    and "ml_heap s' = ml_heap s \<or> (\<exists>w. ml_el s \<noteq> 0 \<and> ml_heap s' = (ml_heap s)(ml_el s \<mapsto> PoolNode w))"
    and "free_path z (ml_heap s') (tg_ptr z (ml_cursor s')) fs'"
    and "fs' = (if ml_el s = 0 then [] else [ml_el s]) @ fs" and "dom (ml_heap s') = dom (ml_heap s)"
proof (cases "ml_el s = 0")
  case True
  show ?thesis
    by (rule that [of "s\<lparr>ml_el := p\<rparr>" fs]) (use assms True in \<open>simp_all add: pool_free_def Let_def\<close>)
next
  case False
  then obtain c where c: "ml_heap s (ml_el s) = Some c" using assms(3) by auto
  obtain old where old: "node_word bits (ml_el s) (s\<lparr>ml_el := p\<rparr>) = Inr old"
    by (cases c) (auto simp: node_word_def c)
  let ?w = "tg_store z old (tg_ptr z (ml_cursor s))"
  let ?s = "(ml_write (ml_el s) (PoolNode ?w) (s\<lparr>ml_el := p\<rparr>))\<lparr>ml_cursor := tg_new z (ml_el s) (tg_add z (ml_cursor s))\<rparr>"
  have e: "pool_free z bits (Suc n) p s = Inr ?s"
    using assms(2) False old by (simp add: pool_free_def ml_write_def Let_def)
  show ?thesis
    by (rule that [OF e, of "ml_el s # fs"])
      (use assms False in \<open>auto simp: ml_write_def tg_store_simp\<close>)
qed

lemma ml_pop_empty:
  assumes "ml_repr z s [] fs"
  shows "ml_pop z bits (Suc n) s = Inr (None, s)"
  using assms by (auto simp: ml_pop_def ml_repr_def node_next_def)

lemma ml_pop_repr:
  assumes "ml_repr z s ((q, x) # qs) fs"
  shows "\<exists>s' fs'. ml_pop z bits (Suc n) s = Inr (Some x, s') \<and> ml_repr z s' qs fs'
    \<and> dom (ml_heap s') = dom (ml_heap s)"
proof -
  let ?p = "tg_ptr z (ml_head s)"
  let ?s = "s\<lparr>ml_head := tg_new z q (tg_add z (ml_head s))\<rparr>"
  obtain d w w' where h: "ml_heap s ?p = Some (ListNode d w)" "tg_ptr z w = q" "ml_heap s q = Some (ListNode x w')"
    "q \<noteq> 0" "node_path z (ml_heap s) q qs"
    using assms by (auto simp: ml_repr_def)
  have t: "tg_ptr z (ml_tail s) = last (q # map fst qs)" using assms by (simp add: ml_repr_def)
  have dist: "distinct (ml_nodes z s ((q, x) # qs) fs)"
    and dom: "dom (ml_heap s) = set (ml_nodes z s ((q, x) # qs) fs)"
    and fits: "\<forall>p \<in> set (ml_nodes z s ((q, x) # qs) fs). tg_fits z p \<and> p \<noteq> 0"
    and free: "free_path z (ml_heap s) (tg_ptr z (ml_cursor s)) fs"
    using assms by (simp_all add: ml_repr_def)
  have "tg_ptr z (ml_tail s) \<in> set (q # map fst qs)" unfolding t by (rule last_in_set) simp
  moreover have "?p \<notin> set (q # map fst qs)" using dist by (simp add: ml_nodes_def)
  ultimately have ne: "?p \<noteq> tg_ptr z (ml_tail s)" by metis
  have "?p \<in> set (ml_nodes z s ((q, x) # qs) fs)" "q \<in> set (ml_nodes z s ((q, x) # qs) fs)"
    by (simp_all add: ml_nodes_def)
  then have p: "tg_fits z ?p" "?p \<noteq> 0" "tg_fits z q" using bspec [OF fits] by blast+
  have el: "ml_el ?s \<in> dom (ml_heap ?s) \<or> ml_el ?s = 0" "tg_fits z (ml_el ?s)" "ml_el ?s \<notin> set fs"
  proof -
    have "ml_el s = 0 \<or> ml_el s \<in> set (ml_nodes z s ((q, x) # qs) fs) \<and> ml_el s \<notin> set fs"
      using dist by (cases "ml_el s = 0") (simp_all add: ml_nodes_def)
    moreover have "0 \<notin> set fs" using bspec [OF fits, of 0] by (auto simp: ml_nodes_def)
    ultimately show "ml_el ?s \<in> dom (ml_heap ?s) \<or> ml_el ?s = 0" "tg_fits z (ml_el ?s)" "ml_el ?s \<notin> set fs"
      using dom bspec [OF fits, of "ml_el s"] by auto
  qed
  obtain s' fs' where s': "pool_free z bits (Suc n) ?p ?s = Inr s'" "ml_el s' = ?p" "ml_head s' = ml_head ?s"
    "ml_tail s' = ml_tail ?s"
    "ml_heap s' = ml_heap ?s \<or> (\<exists>w. ml_el ?s \<noteq> 0 \<and> ml_heap s' = (ml_heap ?s)(ml_el ?s \<mapsto> PoolNode w))"
    "free_path z (ml_heap s') (tg_ptr z (ml_cursor s')) fs'"
    "fs' = (if ml_el ?s = 0 then [] else [ml_el ?s]) @ fs" "dom (ml_heap s') = dom (ml_heap ?s)"
    using free by (rule_tac pool_free_node [OF p(1,2) el(1,2) _ el(3), of bits n]) auto
  have hd: "tg_ptr z (ml_head s') = q" using s'(3) p(3) by simp
  have "ml_el s \<noteq> 0 \<Longrightarrow> ml_el s \<notin> set (q # map fst qs)" using dist by (auto simp: ml_nodes_def)
  then have path: "node_path z (ml_heap s') q qs" using s'(5) h(5) by (auto simp del: fun_upd_apply)
  have "mset (ml_nodes z s' qs fs') = mset (ml_nodes z s ((q, x) # qs) fs)"
    using hd p(2) s'(2,7) by (simp add: ml_nodes_def)
  then have n: "set (ml_nodes z s' qs fs') = set (ml_nodes z s ((q, x) # qs) fs)" "distinct (ml_nodes z s' qs fs')"
    using mset_eq_setD mset_eq_imp_distinct_iff dist by blast+
  have "ml_pop z bits (Suc n) s = Inr (Some x, s')"
    using h ne s'(1) by (simp add: ml_pop_def node_next_def node_data_def)
  moreover have "ml_repr z s' qs fs'"
    unfolding ml_repr_def n(1)
    using path hd t s'(4,6,8) n(2) dom fits by (intro conjI) simp_all
  ultimately show ?thesis using s'(8) by auto
qed

section \<open>Runs\<close>

text \<open>A run of pushes, each with the address of a new node, and pops.\<close>

fun ml_run ::
    "ptr_size \<Rightarrow> ('a \<Rightarrow> u64) \<Rightarrow> nat \<Rightarrow> (u64 \<times> 'a) queue_op list \<Rightarrow> 'a mlist \<Rightarrow> ('a queue_out list \<times> 'a mlist) res" where
  "ml_run z bits n [] s = Inr ([], s)"
| "ml_run z bits n (OpPush (a, x) # os) s =
     bind_res (ml_push z n a x s) (\<lambda>s. bind_res (ml_run z bits n os s) (\<lambda>(outs, s). Inr (OutPush True # outs, s)))"
| "ml_run z bits n (OpPop # os) s =
     bind_res (ml_pop z bits n s) (\<lambda>(v, s). bind_res (ml_run z bits n os s) (\<lambda>(outs, s). Inr (OutPop v # outs, s)))"

fun op_value :: "(u64 \<times> 'a) queue_op \<Rightarrow> 'a queue_op" where
  "op_value (OpPush (a, x)) = OpPush x"
| "op_value OpPop = OpPop"

fun op_nodes :: "(u64 \<times> 'a) queue_op list \<Rightarrow> u64 list" where
  "op_nodes [] = []"
| "op_nodes (OpPush (a, x) # os) = a # op_nodes os"
| "op_nodes (OpPop # os) = op_nodes os"

text \<open>The abstract queue has no limit.\<close>

definition free_push :: "'a \<Rightarrow> 'a list \<Rightarrow> bool \<times> 'a list" where
  "free_push x xs = (True, xs @ [x])"

lemma list_pop_simps: "list_pop [] = (None, [])" "list_pop (x # xs) = (Some x, xs)"
  by (simp_all add: list_pop_def)

lemma queue_run_free:
  "queue_run free_push list_pop (OpPush x # os) xs =
     (case queue_run free_push list_pop os (xs @ [x]) of (outs, q) \<Rightarrow> (OutPush True # outs, q))"
  by (simp only: queue_run.simps free_push_def Let_def prod.case)

lemma ml_run_refines:
  "ml_repr z s qs fs \<Longrightarrow> distinct (op_nodes os) \<Longrightarrow> \<forall>a \<in> set (op_nodes os). tg_fits z a \<and> a \<noteq> 0 \<and> a \<notin> dom (ml_heap s) \<Longrightarrow>
     \<exists>s' qs' fs' outs. ml_run z bits (Suc n) os s = Inr (outs, s') \<and> ml_repr z s' qs' fs'
       \<and> queue_run free_push list_pop (map op_value os) (map snd qs) = (outs, map snd qs')"
proof (induction os arbitrary: s qs fs)
  case (Cons e os)
  note prems = Cons.prems and IH = Cons.IH
  show ?case
  proof (cases e)
    case (OpPush ax)
    obtain a x where e: "e = OpPush (a, x)" using OpPush by (cases ax) simp
    obtain p s1 fs1 where s1: "ml_push z (Suc n) a x s = Inr s1" "ml_repr z s1 (qs @ [(p, x)]) fs1"
      "dom (ml_heap s1) \<subseteq> insert a (dom (ml_heap s))"
      using ml_push_repr [OF prems(1), of a n x] prems(3) e by auto
    have "\<forall>b \<in> set (op_nodes os). tg_fits z b \<and> b \<noteq> 0 \<and> b \<notin> dom (ml_heap s1)"
      using prems(2,3) e s1(3) by auto
    then obtain s' qs' fs' outs where "ml_run z bits (Suc n) os s1 = Inr (outs, s')" "ml_repr z s' qs' fs'"
      "queue_run free_push list_pop (map op_value os) (map snd (qs @ [(p, x)])) = (outs, map snd qs')"
      using IH [OF s1(2)] prems(2) e by auto
    then show ?thesis using e s1(1) by (auto simp: queue_run_free simp del: queue_run.simps(2))
  next
    case OpPop
    show ?thesis
    proof (cases qs)
      case Nil
      have pop: "ml_pop z bits (Suc n) s = Inr (None, s)" using prems(1) Nil by (simp add: ml_pop_empty)
      have "distinct (op_nodes os)" "\<forall>a \<in> set (op_nodes os). tg_fits z a \<and> a \<noteq> 0 \<and> a \<notin> dom (ml_heap s)"
        using prems(2,3) by (simp_all only: OpPop op_nodes.simps)
      from IH [OF prems(1) this] obtain s' qs' fs' outs
        where "ml_run z bits (Suc n) os s = Inr (outs, s')" "ml_repr z s' qs' fs'"
          "queue_run free_push list_pop (map op_value os) [] = (outs, map snd qs')"
        using Nil by auto
      then show ?thesis using OpPop Nil pop by (auto simp: list_pop_simps)
    next
      case (Cons qx qs0)
      obtain q x where qs: "qs = (q, x) # qs0" using Cons by (cases qx) simp
      obtain s1 fs1 where s1: "ml_pop z bits (Suc n) s = Inr (Some x, s1)" "ml_repr z s1 qs0 fs1"
        "dom (ml_heap s1) = dom (ml_heap s)"
        using ml_pop_repr [of z s q x qs0 fs bits n] prems(1) qs by auto
      then obtain s' qs' fs' outs where "ml_run z bits (Suc n) os s1 = Inr (outs, s')" "ml_repr z s' qs' fs'"
        "queue_run free_push list_pop (map op_value os) (map snd qs0) = (outs, map snd qs')"
        using IH [OF s1(2)] prems(2,3) OpPop by auto
      then show ?thesis using OpPop qs s1(1) by (auto simp: list_pop_simps)
    qed
  qed
qed auto

section \<open>Destruction\<close>

lemma pool_destroy_frees:
  "free_path z (ml_heap s) p fs \<Longrightarrow> distinct fs \<Longrightarrow> length fs < n \<Longrightarrow>
     \<exists>s'. pool_destroy z n p s = Inr s' \<and> dom (ml_heap s') = dom (ml_heap s) - set fs"
proof (induction fs arbitrary: p s n)
  case Nil
  then show ?case by (cases n) auto
next
  case (Cons q fs)
  obtain m where m: "n = Suc m" using Cons.prems(3) by (cases n) auto
  obtain w where w: "p = q" "q \<noteq> 0" "ml_heap s q = Some (PoolNode w)" "free_path z (ml_heap s) (tg_ptr z w) fs"
    using Cons.prems(1) by auto
  let ?s = "s\<lparr>ml_heap := (ml_heap s)(q := None)\<rparr>"
  have "free_path z (ml_heap ?s) (tg_ptr z w) fs" using w(4) Cons.prems(2) by simp
  from Cons.IH [OF this, of m] obtain s' where "pool_destroy z m (tg_ptr z w) ?s = Inr s'"
    "dom (ml_heap s') = dom (ml_heap ?s) - set fs"
    using Cons.prems(2,3) m by (metis distinct.simps(2) Suc_less_eq length_Cons)
  moreover have "dom (ml_heap ?s) = dom (ml_heap s) - {q}" by auto
  ultimately have "pool_destroy z n p s = Inr s'" "dom (ml_heap s') = dom (ml_heap s) - set (q # fs)"
    using m w by (auto simp: pool_next_def)
  then show ?case by blast
qed

lemma ml_destroy_leaves:
  assumes "ml_repr z s qs fs"
  shows "\<exists>s'. ml_destroy z (Suc (length fs)) s = Inr s'
    \<and> dom (ml_heap s') = set (tg_ptr z (ml_head s) # map fst qs @ (if ml_el s = 0 then [] else [ml_el s]))"
proof -
  have free: "free_path z (ml_heap s) (tg_ptr z (ml_cursor s)) fs" and nodes: "distinct (ml_nodes z s qs fs)"
    and dom: "dom (ml_heap s) = set (ml_nodes z s qs fs)"
    using assms unfolding ml_repr_def by blast+
  have dist: "distinct fs" using nodes by (simp add: ml_nodes_def)
  obtain s' where "ml_destroy z (Suc (length fs)) s = Inr s'" "dom (ml_heap s') = dom (ml_heap s) - set fs"
    using pool_destroy_frees [of z s "tg_ptr z (ml_cursor s)" fs "Suc (length fs)"] free dist
    by (auto simp: ml_destroy_def)
  moreover have "dom (ml_heap s) - set fs = set (tg_ptr z (ml_head s) # map fst qs @ (if ml_el s = 0 then [] else [ml_el s]))"
    unfolding dom using nodes by (auto simp: ml_nodes_def)
  ultimately show ?thesis by auto
qed

end
