(* ===== verification/Fs_List_Props.thy ===== *)
theory Fs_List_Props
  imports Fs_Mpmc_List_Facts
begin

text \<open>
  The properties of \<open>include/footstone/mpmc_list.h\<close>, with a run of a queue of numbers on an eight byte
  machine at which they are applied.
\<close>

definition sample_list_ops :: "(u64 \<times> nat) queue_op list" where
  "sample_list_ops = [OpPush (32, 7), OpPush (48, 8), OpPop, OpPop, OpPush (64, 9), OpPop, OpPop]"

lemma sample_list_nodes: "op_nodes sample_list_ops = [32, 48, 64]"
  by (simp add: sample_list_ops_def)

lemma small_fits: "tg_fits Bytes8 16" "tg_fits Bytes8 32" "tg_fits Bytes8 48" "tg_fits Bytes8 64"
  by (simp_all add: tg_fits_def tagged_mask_def)

text \<open>C37. Run by one thread, the linked queue answers every sequence of pushes and pops like a list without
  a limit, whatever nodes the pool hands out again, as long as the addresses of new nodes differ and
  fit under the mask; one round of each loop is enough, and no node is used that is not there.\<close>

theorem mpmc_list_run_refines:
  assumes "distinct (a # op_nodes os)" and "\<forall>p \<in> set (a # op_nodes os). tg_fits z p \<and> p \<noteq> 0"
  shows "\<exists>s. ml_run z bits (Suc n) os (ml_new a d) = Inr (fst (queue_run free_push list_pop (map op_value os) []), s)"
proof -
  have r: "ml_repr z (ml_new a d) [] []" using assms(2) by (simp add: ml_new_repr)
  have "\<forall>p \<in> set (op_nodes os). tg_fits z p \<and> p \<noteq> 0 \<and> p \<notin> dom (ml_heap (ml_new a d))"
    using assms by (auto simp: ml_new_def)
  from ml_run_refines [OF r _ this, of bits n] assms(1) show ?thesis by fastforce
qed

theorem mpmc_list_run_refines_witness:
  "\<exists>s. ml_run Bytes8 (\<lambda>_. 5) 1 sample_list_ops (ml_new 16 0)
     = Inr ([OutPush True, OutPush True, OutPop (Some 7), OutPop (Some 8), OutPush True, OutPop (Some 9), OutPop None], s)"
proof -
  have d: "distinct (16 # op_nodes sample_list_ops)" by (simp add: sample_list_nodes)
  have f: "\<forall>p \<in> set (16 # op_nodes sample_list_ops). tg_fits Bytes8 p \<and> p \<noteq> 0"
    by (simp add: sample_list_nodes small_fits)
  have "fst (queue_run free_push list_pop (map op_value sample_list_ops) [])
    = [OutPush True, OutPush True, OutPop (Some 7), OutPop (Some 8), OutPush True, OutPop (Some 9), OutPop None]"
    by code_simp
  then show ?thesis using mpmc_list_run_refines [OF d f, of "\<lambda>_. 5" 0 0] by simp
qed

text \<open>C38. When the counter protects a word: after at least one exchange of a tagged word, a compare-and-exchange
  that expects the word of before succeeds exactly when the pointer is the same again and the number of
  exchanges is a multiple of 2 ^ 16 on an eight byte machine, of 2 ^ 32 on a four byte machine.\<close>

theorem tagged_word_protects:
  assumes "\<forall>p \<in> set ps. tg_fits z p" and "ps \<noteq> []"
  shows "fst (tg_cas z (tg_stores z ps w) w val)
    \<longleftrightarrow> tg_ptr z w = last ps \<and> (case z of Bytes4 \<Rightarrow> 2 ^ 32 | Bytes8 \<Rightarrow> 2 ^ 16) dvd int (length ps)"
  using tg_cas_stale_iff [OF assms] by (simp add: tg_tags_def tg_bits_def split: ptr_size.split)

theorem tagged_word_protects_witness:
  "\<not> fst (tg_cas Bytes8 (tg_stores Bytes8 [32, 48, 32] 32) 32 64)
    \<and> fst (tg_cas Bytes8 (tg_stores Bytes8 (replicate (2 ^ 16) 32) 32) 32 64)"
proof -
  have "tg_ptr Bytes8 32 = 32" using small_fits by simp
  then show ?thesis
    using tagged_word_protects [of "[32, 48, 32]" Bytes8 32 64]
      tagged_word_protects [of "replicate (2 ^ 16) 32" Bytes8 32 64] small_fits
    by simp
qed

text \<open>C39. What the destructor of the linked queue leaves behind.  After any run that pushes nodes at fresh addresses it
  comes back, and the nodes that are still allocated are exactly these: the first node, at which the head points; the
  nodes on the path from there by the links, which carry the elements of the queue in their order; and the node in the
  slot of the pool if there is one.  They are all different, and there is at least one.\<close>

theorem mpmc_list_leaks:
  assumes "distinct (a # op_nodes os)" and "\<forall>p \<in> set (a # op_nodes os). tg_fits z p \<and> p \<noteq> 0"
    and "ml_run z bits (Suc n) os (ml_new a d) = Inr (outs, s)"
  shows "\<exists>fuel s' qs. ml_destroy z fuel s = Inr s'
    \<and> node_path z (ml_heap s) (tg_ptr z (ml_head s)) qs
    \<and> map snd qs = snd (queue_run free_push list_pop (map op_value os) [])
    \<and> dom (ml_heap s') = {tg_ptr z (ml_head s)} \<union> fst ` set qs \<union> (if ml_el s = 0 then {} else {ml_el s})
    \<and> card (dom (ml_heap s')) = Suc (length qs) + (if ml_el s = 0 then 0 else 1)"
proof -
  have r: "ml_repr z (ml_new a d) [] []" using assms(2) by (simp add: ml_new_repr)
  have "\<forall>p \<in> set (op_nodes os). tg_fits z p \<and> p \<noteq> 0 \<and> p \<notin> dom (ml_heap (ml_new a d))"
    using assms by (auto simp: ml_new_def)
  from ml_run_refines [OF r _ this, of bits n] assms(1,3)
  obtain qs fs where q: "ml_repr z s qs fs"
    "snd (queue_run free_push list_pop (map op_value os) []) = map snd qs" by fastforce
  let ?left = "tg_ptr z (ml_head s) # map fst qs @ (if ml_el s = 0 then [] else [ml_el s])"
  obtain s' where s': "ml_destroy z (Suc (length fs)) s = Inr s'" "dom (ml_heap s') = set ?left"
    using ml_destroy_leaves [OF q(1)] by blast
  have "distinct (ml_nodes z s qs fs)" and path: "node_path z (ml_heap s) (tg_ptr z (ml_head s)) qs"
    using q(1) by (simp_all add: ml_repr_def)
  then have "distinct ?left" by (auto simp: ml_nodes_def)
  from distinct_card [OF this] have "card (dom (ml_heap s')) = Suc (length qs) + (if ml_el s = 0 then 0 else 1)"
    by (simp add: s'(2))
  moreover have "set ?left = {tg_ptr z (ml_head s)} \<union> fst ` set qs \<union> (if ml_el s = 0 then {} else {ml_el s})"
    by simp
  ultimately show ?thesis using s' path q(2) by metis
qed

theorem mpmc_list_leaks_witness:
  "\<exists>s fuel s'. ml_run Bytes8 (\<lambda>_. 5) 1 sample_list_ops (ml_new 16 0) = Inr (s :: nat queue_out list \<times> nat mlist)
    \<and> ml_destroy Bytes8 fuel (snd s) = Inr s' \<and> card (dom (ml_heap s')) = 2"
proof -
  have d: "distinct (16 # op_nodes sample_list_ops)" by (simp add: sample_list_nodes)
  have f: "\<forall>p \<in> set (16 # op_nodes sample_list_ops). tg_fits Bytes8 p \<and> p \<noteq> 0"
    by (simp add: sample_list_nodes small_fits)
  have e: "snd (queue_run free_push list_pop (map op_value sample_list_ops) []) = []" by code_simp
  have "case ml_run Bytes8 (\<lambda>_. 5) (Suc 0) sample_list_ops (ml_new 16 0) of Inr (outs, s) \<Rightarrow> ml_el s \<noteq> 0 | Inl _ \<Rightarrow> False"
    by code_simp
  then obtain outs s where r: "ml_run Bytes8 (\<lambda>_. 5) (Suc 0) sample_list_ops (ml_new 16 0) = Inr (outs, s)" "ml_el s \<noteq> 0"
    by (auto split: sum.splits)
  from mpmc_list_leaks [OF d f r(1)] r(2) obtain fuel s' and qs :: "(u64 \<times> nat) list" where
    "ml_destroy Bytes8 fuel s = Inr s'" "card (dom (ml_heap s')) = 2"
    by (auto simp: e numeral_2_eq_2)
  then show ?thesis using r(1) by (intro exI [of _ "(outs, s)"] exI [of _ fuel] exI [of _ s']) simp
qed

end
