(* ===== verification/Fs_Base64.thy ===== *)
theory Fs_Base64
  imports Fs_Prelude
begin

unbundle bit_operations_syntax

text \<open>
  \<open>src/footstone/base64.cc\<close>.  Byte strings are lists of 8 bit words, a \<open>size_t\<close> is a 64 bit word, so that
  \<open>len - 2\<close> wraps; the running indices are natural numbers.  Every access to the input buffer, to the
  strings and to the tables is checked.  The parameter \<open>char_signed\<close> of \<open>Decode\<close> says whether \<open>char\<close>
  is signed, which the language leaves to the platform.
\<close>

section \<open>Tables and accesses\<close>

definition kEncodingTable :: "u8 list" where
  "kEncodingTable = map of_char ''ABCDEFGHIJKLMNOPQRSTUVWXYZabcdefghijklmnopqrstuvwxyz0123456789+/''"

text \<open>\<open>kDecodingTable\<close>, 256 entries: 64 where the character is not in the alphabet.\<close>

definition kDecodingTable :: "nat list" where
  "kDecodingTable =
     replicate 43 64 @ [62] @ replicate 3 64 @ [63] @ [52..<62] @ replicate 7 64 @ [0..<26]
     @ replicate 6 64 @ [26..<52] @ replicate 133 64"

definition pad :: u8 where
  "pad = of_char CHR ''=''"

definition read_byte :: "u8 list \<Rightarrow> nat \<Rightarrow> u32 res" where
  "read_byte bin i = (if i < length bin then Inr (ucast (bin ! i)) else Inl (UB OutOfRange))"

text \<open>A string may be read at its size, where it has the terminating zero, but not written there.\<close>

definition read_char :: "u8 list \<Rightarrow> int \<Rightarrow> u8 res" where
  "read_char s i =
     (if 0 \<le> i \<and> i < int (length s) then Inr (s ! nat i) else if i = int (length s) then Inr 0
      else Inl (UB OutOfRange))"

text \<open>\<open>ret[out_idx++] = c\<close>, and the same with a character of the table.\<close>

definition put_char :: "u8 \<Rightarrow> nat \<times> u8 list \<Rightarrow> (nat \<times> u8 list) res" where
  "put_char c st =
     (if fst st < length (snd st) then Inr (Suc (fst st), (snd st)[fst st := c]) else Inl (UB OutOfRange))"

definition emit :: "u32 \<Rightarrow> nat \<times> u8 list \<Rightarrow> (nat \<times> u8 list) res" where
  "emit v st =
     (if unat v < length kEncodingTable then put_char (kEncodingTable ! unat v) st
      else Inl (UB OutOfRange))"

section \<open>Encode\<close>

text \<open>The indices into the table; a byte is promoted to \<open>int\<close>, here a 32 bit word, before it is masked.\<close>

definition idx0 :: "u32 \<Rightarrow> u32" where
  "idx0 x = drop_bit 2 x AND 0x3F"

definition idx1 :: "u32 \<Rightarrow> u32 \<Rightarrow> u32" where
  "idx1 x y = push_bit 4 (x AND 0x3) OR drop_bit 4 (y AND 0xF0)"

definition idx2 :: "u32 \<Rightarrow> u32 \<Rightarrow> u32" where
  "idx2 y z = push_bit 2 (y AND 0xF) OR drop_bit 6 (z AND 0xC0)"

definition idx3 :: "u32 \<Rightarrow> u32" where
  "idx3 z = z AND 0x3F"

definition idx1_last :: "u32 \<Rightarrow> u32" where
  "idx1_last x = push_bit 4 (x AND 0x3)"

definition idx2_last :: "u32 \<Rightarrow> u32" where
  "idx2_last y = push_bit 2 (y AND 0xF)"

function enc_loop :: "u8 list \<Rightarrow> u64 \<Rightarrow> nat \<Rightarrow> nat \<times> u8 list \<Rightarrow> (nat \<times> nat \<times> u8 list) res" where
  "enc_loop bin lim i st =
     (if int i < uint lim then
        bind_res (read_byte bin i) (\<lambda>x.
        bind_res (emit (idx0 x) st) (\<lambda>st.
        bind_res (read_byte bin (i + 1)) (\<lambda>y.
        bind_res (emit (idx1 x y) st) (\<lambda>st.
        bind_res (read_byte bin (i + 2)) (\<lambda>z.
        bind_res (emit (idx2 y z) st) (\<lambda>st.
        bind_res (emit (idx3 z) st) (\<lambda>st.
        enc_loop bin lim (i + 3) st)))))))
      else Inr (i, st))"
  by pat_completeness auto
termination
  by (relation "measure (\<lambda>(bin, lim, i, st). length bin - i)") (auto simp: read_byte_def split: if_splits)

declare enc_loop.simps [simp del]

text \<open>What follows the loop: the last one or two bytes, and the padding.\<close>

definition enc_tail :: "u8 list \<Rightarrow> u64 \<Rightarrow> nat \<times> nat \<times> u8 list \<Rightarrow> u8 list res" where
  "enc_tail bin len s =
     (let (i, st) = s in
      if int i < uint len then
        bind_res (read_byte bin i) (\<lambda>x.
        bind_res (emit (idx0 x) st) (\<lambda>st.
        bind_res
          (if int i = uint (len - 1) then
             bind_res (emit (idx1_last x) st) (\<lambda>st. put_char pad st)
           else
             bind_res (read_byte bin (i + 1)) (\<lambda>y.
             bind_res (emit (idx1 x y) st) (\<lambda>st.
             emit (idx2_last y) st))) (\<lambda>st.
        bind_res (put_char pad st) (\<lambda>st. Inr (snd st)))))
      else Inr (snd st))"

definition Encode :: "u8 list \<Rightarrow> u64 \<Rightarrow> u8 list res" where
  "Encode bin len =
     (let out_len = 4 * ((len + 2) div 3)
      in bind_res (enc_loop bin (len - 2) 0 (0, replicate (unat out_len) 0)) (enc_tail bin len))"

section \<open>Decode\<close>

definition dec_char :: "bool \<Rightarrow> u8 \<Rightarrow> u32 res" where
  "dec_char char_signed c =
     (if c = pad then Inr 0
      else let k = (if char_signed then sint c else uint c) in
        if k < 0 then Inl (UB OutOfRange) else Inr (word_of_nat (kDecodingTable ! nat k)))"

text \<open>\<open>if (j < out_len) out[j++] = v & 0xFF\<close>.\<close>

definition put_byte :: "u32 \<Rightarrow> nat \<times> u8 list \<Rightarrow> nat \<times> u8 list" where
  "put_byte v st =
     (if fst st < length (snd st) then (Suc (fst st), (snd st)[fst st := ucast (v AND 0xFF)]) else st)"

function dec_loop :: "bool \<Rightarrow> u8 list \<Rightarrow> nat \<Rightarrow> nat \<times> u8 list \<Rightarrow> u8 list res" where
  "dec_loop char_signed s i st =
     (if i < length s then
        bind_res (bind_res (read_char s (int i)) (dec_char char_signed)) (\<lambda>a.
        bind_res (bind_res (read_char s (int (i + 1))) (dec_char char_signed)) (\<lambda>b.
        bind_res (bind_res (read_char s (int (i + 2))) (dec_char char_signed)) (\<lambda>c.
        bind_res (bind_res (read_char s (int (i + 3))) (dec_char char_signed)) (\<lambda>d.
        let triple = push_bit 18 a + push_bit 12 b + push_bit 6 c + d in
        dec_loop char_signed s (i + 4)
          (put_byte triple (put_byte (drop_bit 8 triple) (put_byte (drop_bit 16 triple) st)))))))
      else Inr (snd st))"
  by pat_completeness auto
termination
  by (relation "measure (\<lambda>(sg, s, i, st). length s - i)") auto

declare dec_loop.simps [simp del]

definition Decode :: "bool \<Rightarrow> u8 list \<Rightarrow> u8 list res" where
  "Decode char_signed s =
     (let in_len = length s in
      if in_len mod 4 \<noteq> 0 then Inr []
      else
        bind_res (read_char s (uint (word_of_nat in_len - 1 :: u64))) (\<lambda>c1.
        bind_res (read_char s (uint (word_of_nat in_len - 2 :: u64))) (\<lambda>c2.
        let out_len = in_len div 4 * 3 - (if c1 = pad then 1 else 0) - (if c2 = pad then 1 else 0) in
        dec_loop char_signed s 0 (0, replicate out_len 0))))"

section \<open>The reference encoding\<close>

text \<open>
  Base 64 as the standard has it: three bytes are a number of 24 bits, written as four digits of six
  bits; a last group of one or two bytes is filled up with zero bits, and digits without a bit of the
  input are replaced by the padding character.
\<close>

definition group24 :: "u8 \<Rightarrow> u8 \<Rightarrow> u8 \<Rightarrow> nat" where
  "group24 x y z = 65536 * unat x + 256 * unat y + unat z"

definition digit :: "nat \<Rightarrow> nat \<Rightarrow> u8" where
  "digit n k = kEncodingTable ! (n div 64 ^ k mod 64)"

fun b64 :: "u8 list \<Rightarrow> u8 list" where
  "b64 [] = []"
| "b64 [x] = [digit (group24 x 0 0) 3, digit (group24 x 0 0) 2, pad, pad]"
| "b64 [x, y] = [digit (group24 x y 0) 3, digit (group24 x y 0) 2, digit (group24 x y 0) 1, pad]"
| "b64 (x # y # z # bs) =
     [digit (group24 x y z) 3, digit (group24 x y z) 2, digit (group24 x y z) 1, digit (group24 x y z) 0] @ b64 bs"

end
