(* ===== verification/Fs_Base64_Facts.thy ===== *)
theory Fs_Base64_Facts
  imports Fs_Base64
begin

text \<open>
  \<open>Encode\<close> computes the reference encoding, and \<open>Decode\<close> takes it back.  First the arithmetic of six
  bit digits, then the two loops, by induction over the groups of three bytes.
\<close>

section \<open>Digits\<close>

lemma or_disjoint_nat:
  fixes a b :: nat
  shows "push_bit n a OR take_bit n b = 2 ^ n * a + b mod 2 ^ n"
proof -
  have "push_bit n a OR take_bit n b = push_bit n a + take_bit n b"
    by (rule disjunctive_add [symmetric]) (auto simp: bit_simps)
  then show ?thesis by (simp add: push_bit_eq_mult take_bit_eq_mod mult.commute)
qed

lemma unat_take: "unat (take_bit n (w :: 'u::len word)) = unat w mod 2 ^ n"
  by (simp only: unsigned_take_bit_eq) (simp add: take_bit_eq_mod)

lemma unat_drop: "unat (drop_bit n (w :: 'u::len word)) = unat w div 2 ^ n"
  by (simp only: unsigned_drop_bit_eq) (simp add: drop_bit_eq_div take_bit_eq_mod)

lemma unat_push_take:
  fixes a :: "'u::len word"
  assumes "n + m \<le> LENGTH('u)"
  shows "unat (push_bit n (take_bit m a)) = push_bit n (unat a mod 2 ^ m)"
proof -
  have "unat a mod 2 ^ m < 2 ^ m" by simp
  then have "2 ^ n * (unat a mod 2 ^ m) < 2 ^ n * 2 ^ m" by (rule mult_less_mono2) simp
  also have "(2 :: nat) ^ n * 2 ^ m \<le> 2 ^ LENGTH('u)" using assms by (simp flip: power_add)
  finally have "push_bit n (unat a mod 2 ^ m) < 2 ^ LENGTH('u)" by (simp add: push_bit_eq_mult mult.commute)
  then show ?thesis by (simp only: unsigned_push_bit_eq unat_take take_bit_nat_eq_self)
qed

lemma unat_digit:
  fixes a b :: "'u::len word"
  assumes "n + m \<le> LENGTH('u)"
  shows "unat (push_bit n (take_bit m a) OR take_bit n b) = 2 ^ n * (unat a mod 2 ^ m) + unat b mod 2 ^ n"
proof -
  have "unat (push_bit n (take_bit m a) OR take_bit n b) = push_bit n (unat a mod 2 ^ m) OR take_bit n (unat b)"
    by (simp only: unsigned_or_eq unat_push_take [OF assms] unsigned_take_bit_eq)
  then show ?thesis by (simp only: or_disjoint_nat)
qed

text \<open>The digits of 24 bits in base 64, from the bytes they are made of.\<close>

lemma base64_digits:
  fixes a b c d :: nat
  assumes "a < 64" "b < 64" "c < 64" "d < 64" and n: "n = 64 * (64 * (64 * a + b) + c) + d"
  shows "n div 64 ^ 3 mod 64 = a" "n div 64 ^ 2 mod 64 = b" "n div 64 ^ 1 mod 64 = c" "n div 64 ^ 0 mod 64 = d"
proof -
  have n1: "n div 64 = 64 * (64 * a + b) + c" and n2: "(64 * (64 * a + b) + c) div 64 = 64 * a + b"
    and n3: "(64 * a + b) div 64 = a" using assms by simp_all
  have p: "n div 64 ^ 2 = n div 64 div 64" "n div 64 ^ 3 = n div 64 div 64 div 64" "n div 64 ^ 1 = n div 64"
    by (simp_all only: power2_eq_square power3_eq_cube div_mult2_eq power_one_right)
  have m: "(64 * k + r) mod 64 = r" if "r < 64" for k r :: nat using that by simp
  show "n div 64 ^ 3 mod 64 = a" using assms(1) by (simp only: p n1 n2 n3 mod_less)
  show "n div 64 ^ 2 mod 64 = b" using assms(2) by (simp only: p n1 n2 m)
  show "n div 64 ^ 1 mod 64 = c" using assms(3) by (simp only: p n1 m)
  show "n div 64 ^ 0 mod 64 = d" using assms(4) by (simp only: n power_0 div_by_1 m)
qed

lemma group24_split:
  fixes x y z :: nat
  assumes "x = 4 * a + b" and "y = 16 * c + d" and "z = 64 * e + f"
  shows "65536 * x + 256 * y + z = 64 * (64 * (64 * a + (16 * b + c)) + (4 * d + e)) + f"
  using assms by simp

lemma group24_digits:
  "group24 x y z div 64 ^ 3 mod 64 = unat x div 4"
  "group24 x y z div 64 ^ 2 mod 64 = 16 * (unat x mod 4) + unat y div 16"
  "group24 x y z div 64 ^ 1 mod 64 = 4 * (unat y mod 16) + unat z div 64"
  "group24 x y z div 64 ^ 0 mod 64 = unat z mod 64"
proof -
  have b: "unat x < 256" "unat y < 256" "unat z < 256"
    using unsigned_less [of x] unsigned_less [of y] unsigned_less [of z] by simp_all
  have e: "unat x = 4 * (unat x div 4) + unat x mod 4" "unat y = 16 * (unat y div 16) + unat y mod 16"
    "unat z = 64 * (unat z div 64) + unat z mod 64" by simp_all
  have n: "group24 x y z = 64 * (64 * (64 * (unat x div 4) + (16 * (unat x mod 4) + unat y div 16))
      + (4 * (unat y mod 16) + unat z div 64)) + unat z mod 64"
    unfolding group24_def by (rule group24_split [OF e])
  have s: "p < 4 \<Longrightarrow> q < 16 \<Longrightarrow> 16 * p + q < 64" "p < 16 \<Longrightarrow> q < 4 \<Longrightarrow> 4 * p + q < 64" for p q :: nat
    by simp_all
  have d1: "unat x div 4 < 64" and d4: "unat z mod 64 < 64" using b by simp_all
  have d2: "16 * (unat x mod 4) + unat y div 16 < 64" by (rule s(1)) (use b in simp_all)
  have d3: "4 * (unat y mod 16) + unat z div 64 < 64" by (rule s(2)) (use b in simp_all)
  show "group24 x y z div 64 ^ 3 mod 64 = unat x div 4"
    "group24 x y z div 64 ^ 2 mod 64 = 16 * (unat x mod 4) + unat y div 16"
    "group24 x y z div 64 ^ 1 mod 64 = 4 * (unat y mod 16) + unat z div 64"
    "group24 x y z div 64 ^ 0 mod 64 = unat z mod 64"
    by (rule base64_digits [OF d1 d2 d3 d4 n])+
qed

lemma masks_u32:
  "(w :: u32) AND 0x3F = take_bit 6 w" "w AND 0x3 = take_bit 2 w" "w AND 0xF = take_bit 4 w"
  "drop_bit 4 (w AND 0xF0) = take_bit 4 (drop_bit 4 w)" "drop_bit 6 (w AND 0xC0) = take_bit 2 (drop_bit 6 w)"
  "w AND 0xFF = take_bit 8 w"
proof -
  show "w AND 0x3F = take_bit 6 w" and f2: "w AND 0x3 = take_bit 2 w" and f4: "w AND 0xF = take_bit 4 w"
    and "w AND 0xFF = take_bit 8 w" for w :: u32
    by (simp_all add: take_bit_eq_mask mask_eq_exp_minus_1)
  show "drop_bit 4 (w AND 0xF0) = take_bit 4 (drop_bit 4 w)" "drop_bit 6 (w AND 0xC0) = take_bit 2 (drop_bit 6 w)"
    by (simp_all add: drop_bit_and flip: f2 f4)
qed

text \<open>The four indices of a group, as the code and as the reference compute them.\<close>

lemma digit_indices:
  fixes x y z :: u8
  defines "X \<equiv> ucast x :: u32" and "Y \<equiv> ucast y :: u32" and "Z \<equiv> ucast z :: u32"
  shows "unat (idx0 X) = group24 x y z div 64 ^ 3 mod 64"
    and "unat (idx1 X Y) = group24 x y z div 64 ^ 2 mod 64"
    and "unat (idx2 Y Z) = group24 x y z div 64 ^ 1 mod 64"
    and "unat (idx3 Z) = group24 x y z div 64 ^ 0 mod 64"
    and "unat (idx1_last X) = group24 x 0 0 div 64 ^ 2 mod 64"
    and "unat (idx2_last Y) = group24 x y 0 div 64 ^ 1 mod 64"
proof -
  have e: "unat X = unat x" "unat Y = unat y" "unat Z = unat z"
    by (simp_all add: X_def Y_def Z_def unsigned_ucast_eq take_bit_nat_eq_self order.strict_trans [OF unsigned_less])
  have b: "unat x < 256" "unat y < 256" "unat z < 256"
    using unsigned_less [of x] unsigned_less [of y] unsigned_less [of z] by simp_all
  have g: "unat (push_bit 4 (take_bit 2 a) OR take_bit 4 b) = 2 ^ 4 * (unat a mod 2 ^ 2) + unat b mod 2 ^ 4"
    "unat (push_bit 2 (take_bit 4 a) OR take_bit 2 b) = 2 ^ 2 * (unat a mod 2 ^ 4) + unat b mod 2 ^ 2"
    "unat (push_bit 4 (take_bit 2 a)) = push_bit 4 (unat a mod 2 ^ 2)"
    "unat (push_bit 2 (take_bit 4 a)) = push_bit 2 (unat a mod 2 ^ 4)" for a b :: u32
    by (rule unat_digit unat_push_take, simp)+
  note w = masks_u32 unat_take unat_drop e
  show "unat (idx0 X) = group24 x y z div 64 ^ 3 mod 64"
    using b unfolding group24_digits idx0_def by (simp only: w) simp
  show "unat (idx1 X Y) = group24 x y z div 64 ^ 2 mod 64"
    using b unfolding group24_digits idx1_def by (simp only: w g) simp
  show "unat (idx2 Y Z) = group24 x y z div 64 ^ 1 mod 64"
    using b unfolding group24_digits idx2_def by (simp only: w g) simp
  show "unat (idx3 Z) = group24 x y z div 64 ^ 0 mod 64"
    unfolding group24_digits idx3_def by (simp only: w) simp
  show "unat (idx1_last X) = group24 x 0 0 div 64 ^ 2 mod 64"
    unfolding group24_digits idx1_last_def by (simp only: w g) (simp add: push_bit_eq_mult)
  show "unat (idx2_last Y) = group24 x y 0 div 64 ^ 1 mod 64"
    unfolding group24_digits idx2_last_def by (simp only: w g) (simp add: push_bit_eq_mult)
qed

section \<open>Encode\<close>

text \<open>The output string while it is written: what is there, and zeros for the rest.\<close>

definition fill :: "u8 list \<Rightarrow> nat \<Rightarrow> nat \<times> u8 list" where
  "fill d k = (length d, d @ replicate k 0)"

lemma put_char_fill [simp]: "put_char c (fill d (Suc k)) = Inr (fill (d @ [c]) k)"
  by (simp add: put_char_def fill_def list_update_append)

lemma length_table [simp]: "length kEncodingTable = 64"
  by (simp add: kEncodingTable_def)

lemma emit_fill:
  assumes "unat v = n div 64 ^ k mod 64"
  shows "emit v (fill d (Suc j)) = Inr (fill (d @ [digit n k]) j)"
  using assms by (simp add: emit_def digit_def)

lemmas emit_digits = digit_indices [THEN emit_fill]

lemma read_byte_at [simp]:
  "read_byte (pre @ x # r) (length pre) = Inr (ucast x)"
  "read_byte (pre @ x # y # r) (Suc (length pre)) = Inr (ucast y)"
  "read_byte (pre @ x # y # z # r) (Suc (Suc (length pre))) = Inr (ucast z)"
  by (simp_all add: read_byte_def nth_append)

lemma length_b64: "length (b64 bs) = 4 * ((length bs + 2) div 3)"
proof (induction bs rule: b64.induct)
  case (4 x y z bs)
  have "(5 + length bs) div 3 = Suc ((2 + length bs) div 3)" by presburger
  then show ?case using 4 by simp
qed simp_all

lemma enc_loop_stop: "\<not> int i < uint lim \<Longrightarrow> enc_loop bin lim i st = Inr (i, st)"
  by (subst enc_loop.simps) simp

lemma enc_loop_step:
  assumes "int (length pre) < uint lim"
  shows "enc_loop (pre @ x # y # z # bs) lim (length pre) (fill d (Suc (Suc (Suc (Suc k))))) =
    enc_loop (pre @ x # y # z # bs) lim (length (pre @ [x, y, z]))
      (fill (d @ [digit (group24 x y z) 3, digit (group24 x y z) 2, digit (group24 x y z) 1, digit (group24 x y z) 0]) k)"
  by (subst enc_loop.simps) (simp add: assms emit_digits(1) [where x = x and y = y and z = z] emit_digits(2) [where x = x and y = y and z = z]
      emit_digits(3) [where x = x and y = y and z = z] emit_digits(4) [where x = x and y = y and z = z] numeral_3_eq_3)

lemma enc_loop_b64:
  assumes "uint lim = int (length bin) - 2" and "uint len = int (length bin)"
  shows "bin = pre @ bs \<Longrightarrow>
    bind_res (enc_loop bin lim (length pre) (fill d (length (b64 bs)))) (enc_tail bin len) = Inr (d @ b64 bs)"
proof (induction bs arbitrary: pre d rule: b64.induct)
  case 1
  then show ?case using assms by (simp add: enc_loop_stop enc_tail_def fill_def)
next
  case (2 x)
  have "uint (len - 1) = int (length pre)"
    using assms 2 by (simp add: uint_sub_if')
  then show ?case
    using assms 2 by (simp add: enc_loop_stop enc_tail_def emit_digits(1) [where x = x and y = 0 and z = 0] emit_digits(5) [where x = x])
      (simp add: fill_def)
next
  case (3 x y)
  have "uint (len - 1) \<noteq> int (length pre)"
    using assms 3 by (simp add: uint_sub_if')
  then show ?case
    using assms 3 by (simp add: enc_loop_stop enc_tail_def emit_digits(1) [where x = x and y = y and z = 0]
        emit_digits(2) [where x = x and y = y and z = 0] emit_digits(6) [where x = x and y = y])
      (simp add: fill_def)
next
  case (4 x y z bs)
  have "int (length pre) < uint lim" using assms(1) 4(2) by simp
  then show ?case
    using 4(1) [of "pre @ [x, y, z]" "d @ [digit (group24 x y z) 3, digit (group24 x y z) 2,
        digit (group24 x y z) 1, digit (group24 x y z) 0]"] 4(2)
    by (simp add: enc_loop_step)
qed

lemma unat_out_len:
  assumes "n < 2 ^ 63"
  shows "unat (4 * ((word_of_nat n + 2) div 3) :: u64) = 4 * ((n + 2) div 3)"
proof -
  have "unat (word_of_nat n + 2 :: u64) = n + 2"
    using assms by (simp add: unat_word_ariths unat_of_nat take_bit_nat_eq_self)
  then have "unat ((word_of_nat n + 2) div 3 :: u64) = (n + 2) div 3" by (simp add: unat_div)
  moreover have "4 * ((n + 2) div 3) < 2 ^ 64" using assms by simp
  ultimately show ?thesis by (simp add: unat_word_ariths)
qed

lemma Encode_b64:
  assumes "2 \<le> length bs" and "length bs < 2 ^ 63"
  shows "Encode bs (word_of_nat (length bs)) = Inr (b64 bs)"
proof -
  let ?len = "word_of_nat (length bs) :: u64"
  have u: "uint ?len = int (length bs)"
    using assms by (simp add: uint_nat unat_of_nat take_bit_nat_eq_self)
  have l: "uint (?len - 2) = int (length bs) - 2"
    using assms u by (simp add: uint_sub_if')
  have "(0, replicate (unat (4 * ((?len + 2) div 3))) 0) = fill [] (length (b64 bs))"
    using unat_out_len [OF assms(2)] by (simp add: fill_def length_b64)
  then show ?thesis
    using enc_loop_b64 [OF l u, of "[]" bs "[]"] by (simp add: Encode_def)
qed

lemma emit_then_fault: "bind_res (emit v st) (\<lambda>st. Inl (UB OutOfRange)) = Inl (UB OutOfRange)"
  by (simp add: emit_def put_char_def)

text \<open>With fewer than two bytes \<open>len - 2\<close> wraps and the loop reads behind the buffer.\<close>

lemma Encode_short:
  assumes "length bs < 2"
  shows "Encode bs (word_of_nat (length bs)) = Inl (UB OutOfRange)"
proof -
  have "int 0 < uint (word_of_nat (length bs) - 2 :: u64)"
    using assms by (cases bs rule: b64.cases) (simp_all add: unsigned_minus_1_eq_mask mask_eq_exp_minus_1)
  then show ?thesis using assms
    by (cases bs rule: b64.cases)
      (simp_all add: Encode_def enc_loop.simps [of _ _ 0] read_byte_def emit_then_fault)
qed

section \<open>Decode\<close>

lemma dec_digit: "k < 64 \<Longrightarrow> dec_char sg (kEncodingTable ! k) = Inr (word_of_nat k)"
proof -
  have "\<forall>k \<in> set [0..<64]. \<forall>sg \<in> {True, False}. dec_char sg (kEncodingTable ! k) = Inr (word_of_nat k)"
    by code_simp
  then show "k < 64 \<Longrightarrow> dec_char sg (kEncodingTable ! k) = Inr (word_of_nat k)" by (cases sg) simp_all
qed

lemma digit_not_pad: "digit n k \<noteq> pad"
proof -
  have "pad \<notin> set kEncodingTable" by code_simp
  moreover have "digit n k \<in> set kEncodingTable" unfolding digit_def by (rule nth_mem) simp
  ultimately show ?thesis by auto
qed

lemma dec_char_digit [simp]: "dec_char sg (digit n k) = Inr (word_of_nat (n div 64 ^ k mod 64))"
  unfolding digit_def by (rule dec_digit) simp

lemma dec_char_pad [simp]: "dec_char sg pad = Inr 0"
  by (simp add: dec_char_def)

text \<open>The number that the code puts together from four digits is the one they came from.\<close>

definition triple :: "u32 \<Rightarrow> u32 \<Rightarrow> u32 \<Rightarrow> u32 \<Rightarrow> u32" where
  "triple a b c d = push_bit 18 a + push_bit 12 b + push_bit 6 c + d"

lemma triple_digits:
  assumes "n < 2 ^ 24"
  shows "triple (word_of_nat (n div 64 ^ 3 mod 64)) (word_of_nat (n div 64 ^ 2 mod 64))
    (word_of_nat (n div 64 ^ 1 mod 64)) (word_of_nat (n div 64 ^ 0 mod 64)) = word_of_nat n"
proof -
  define n1 n2 n3 where "n1 = n div 64" and "n2 = n1 div 64" and "n3 = n2 div 64"
  have p: "n div 64 ^ 3 mod 64 = n3 mod 64" "n div 64 ^ 2 mod 64 = n2 mod 64" "n div 64 ^ 1 mod 64 = n1 mod 64"
    "n div 64 ^ 0 mod 64 = n mod 64"
    by (simp_all only: n1_def n2_def n3_def power2_eq_square power3_eq_cube div_mult2_eq power_one_right power_0 div_by_1)
  have "n3 < 64" using assms by (simp add: n1_def n2_def n3_def)
  then have "n3 mod 64 = n3" by simp
  moreover have "n2 = 64 * n3 + n2 mod 64" "n1 = 64 * n2 + n1 mod 64" "n = 64 * n1 + n mod 64"
    by (simp_all add: n1_def n2_def n3_def)
  ultimately have "262144 * (n3 mod 64) + 4096 * (n2 mod 64) + 64 * (n1 mod 64) + n mod 64 = n"
    by linarith
  moreover have "triple (word_of_nat a) (word_of_nat b) (word_of_nat c) (word_of_nat d)
      = word_of_nat (262144 * a + 4096 * b + 64 * c + d)" for a b c d
    by (simp add: triple_def push_bit_of_nat push_bit_eq_mult)
  ultimately show ?thesis by (simp only: p)
qed

lemma unat_u8_less: "unat (x :: u8) < 256"
  using unsigned_less [of x] by simp

lemma group24_less: "group24 x y z < 2 ^ 24"
  using unat_u8_less [of x] unat_u8_less [of y] unat_u8_less [of z] by (simp add: group24_def)

lemma low_byte:
  fixes w :: u32
  assumes "unat w mod 256 = unat x"
  shows "ucast (w AND 0xFF) = (x :: u8)"
proof -
  have "unat (ucast (take_bit 8 w) :: u8) = unat w mod 256"
    by (simp only: unsigned_ucast_eq unat_take) (simp add: take_bit_eq_mod)
  then show ?thesis using assms by (simp only: masks_u32 word_unat_eq_iff)
qed

lemma group24_bytes:
  "ucast (drop_bit 16 (word_of_nat (group24 x y z) :: u32) AND 0xFF) = x"
  "ucast (drop_bit 8 (word_of_nat (group24 x y z) :: u32) AND 0xFF) = y"
  "ucast ((word_of_nat (group24 x y z) :: u32) AND 0xFF) = z"
proof -
  have u: "unat (word_of_nat (group24 x y z) :: u32) = group24 x y z"
    using group24_less [of x y z] by (simp add: unat_of_nat take_bit_nat_eq_self)
  note b = unat_u8_less [of x] unat_u8_less [of y] unat_u8_less [of z]
  have e: "group24 x y z = 256 * (256 * unat x + unat y) + unat z" by (simp add: group24_def)
  have d: "(256 * k + r) div 256 = k" "(256 * k + r) mod 256 = r" if "r < 256" for k r :: nat
    using that by simp_all
  have d8: "group24 x y z div 2 ^ 8 = 256 * unat x + unat y"
    unfolding e using d(1) [OF b(3)] by simp
  have "group24 x y z div 2 ^ 16 = group24 x y z div 2 ^ 8 div 256" by (simp flip: div_mult2_eq)
  then have "group24 x y z div 2 ^ 16 mod 256 = unat x"
    unfolding d8 d(1) [OF b(2)] using b(1) by simp
  moreover have "group24 x y z div 2 ^ 8 mod 256 = unat y" "group24 x y z mod 256 = unat z"
    unfolding d8 using d(2) [OF b(2)] d(2) [OF b(3)] by (simp_all only: e)
  ultimately show "ucast (drop_bit 16 (word_of_nat (group24 x y z) :: u32) AND 0xFF) = x"
    "ucast (drop_bit 8 (word_of_nat (group24 x y z) :: u32) AND 0xFF) = y"
    "ucast ((word_of_nat (group24 x y z) :: u32) AND 0xFF) = z"
    by (intro low_byte, simp only: unat_drop u)+
qed

lemma read_char_at [simp]:
  "read_char (pre @ a # r) (int (length pre)) = Inr a"
  "read_char (pre @ a # b # r) (1 + int (length pre)) = Inr b"
  "read_char (pre @ a # b # c # r) (2 + int (length pre)) = Inr c"
  "read_char (pre @ a # b # c # d # r) (3 + int (length pre)) = Inr d"
  by (simp_all add: read_char_def nth_append nat_add_distrib)

lemma dec_loop_stop: "length s \<le> i \<Longrightarrow> dec_loop sg s i st = Inr (snd st)"
  by (subst dec_loop.simps) simp

lemma put_byte_fill [simp]:
  "put_byte v (fill d (Suc k)) = fill (d @ [ucast (v AND 0xFF)]) k" "put_byte v (fill d 0) = fill d 0"
  by (simp_all add: put_byte_def fill_def list_update_append)

text \<open>One round of the loop, on the four characters of the number \<open>n\<close>.\<close>

definition put_triple :: "u32 \<Rightarrow> nat \<times> u8 list \<Rightarrow> nat \<times> u8 list" where
  "put_triple t st = put_byte t (put_byte (drop_bit 8 t) (put_byte (drop_bit 16 t) st))"

lemma dec_loop_step:
  assumes "dec_char sg a = Inr a'" and "dec_char sg b = Inr b'" and "dec_char sg c = Inr c'" and "dec_char sg d = Inr d'"
  shows "dec_loop sg (pre @ a # b # c # d # r) (length pre) st =
    dec_loop sg (pre @ a # b # c # d # r) (length (pre @ [a, b, c, d])) (put_triple (triple a' b' c' d') st)"
  by (subst dec_loop.simps)
    (simp add: assms triple_def put_triple_def Let_def add.commute [of _ 1] add.commute [of _ 2]
      add.commute [of _ 3] numeral_3_eq_3 eval_nat_numeral)

lemma put_triple_fill:
  "put_triple (word_of_nat (group24 x y z)) (fill d (Suc (Suc (Suc k)))) = fill (d @ [x, y, z]) k"
  "put_triple (word_of_nat (group24 x y z)) (fill d (Suc (Suc 0))) = fill (d @ [x, y]) 0"
  "put_triple (word_of_nat (group24 x y z)) (fill d (Suc 0)) = fill (d @ [x]) 0"
  by (simp_all add: put_triple_def group24_bytes del: drop_bit_of_nat)

lemma zero_digits:
  "group24 x 0 0 div 64 ^ 1 mod 64 = 0" "group24 x y 0 div 64 ^ 0 mod 64 = 0"
  unfolding group24_digits by simp_all

lemma dec_loop_b64: "dec_loop sg (pre @ b64 bs) (length pre) (fill d (length bs)) = Inr (d @ bs)"
proof (induction bs arbitrary: pre d rule: b64.induct)
  case 1
  then show ?case by (simp add: dec_loop_stop fill_def)
next
  case (2 x)
  let ?n = "group24 x 0 0"
  have "triple (word_of_nat (?n div 64 ^ 3 mod 64)) (word_of_nat (?n div 64 ^ 2 mod 64)) 0 0 = word_of_nat ?n"
    using triple_digits [OF group24_less, of x 0 0] by (simp only: zero_digits semiring_1_class.of_nat_0)
  then show ?case
    by (simp only: b64.simps dec_loop_step [OF dec_char_digit dec_char_digit dec_char_pad dec_char_pad])
      (simp add: put_triple_fill dec_loop_stop fill_def [of _ 0])
next
  case (3 x y)
  let ?n = "group24 x y 0"
  have "triple (word_of_nat (?n div 64 ^ 3 mod 64)) (word_of_nat (?n div 64 ^ 2 mod 64))
      (word_of_nat (?n div 64 ^ 1 mod 64)) 0 = word_of_nat ?n"
    using triple_digits [OF group24_less, of x y 0] by (simp only: zero_digits semiring_1_class.of_nat_0)
  then show ?case
    by (simp only: b64.simps dec_loop_step [OF dec_char_digit dec_char_digit dec_char_digit dec_char_pad])
      (simp add: put_triple_fill dec_loop_stop fill_def [of _ 0])
next
  case (4 x y z bs)
  let ?n = "group24 x y z"
  have l: "b64 (x # y # z # bs) = digit ?n 3 # digit ?n 2 # digit ?n 1 # digit ?n 0 # b64 bs" by simp
  have s: "dec_loop sg (pre @ b64 (x # y # z # bs)) (length pre) (fill d (length (x # y # z # bs)))
      = dec_loop sg (pre @ b64 (x # y # z # bs)) (length (pre @ [digit ?n 3, digit ?n 2, digit ?n 1, digit ?n 0]))
        (fill (d @ [x, y, z]) (length bs))"
    unfolding l dec_loop_step [OF dec_char_digit dec_char_digit dec_char_digit dec_char_digit]
      triple_digits [OF group24_less] by (simp only: list.size put_triple_fill add_0_right add_Suc_right)
  show ?case
    using 4 [of "pre @ [digit ?n 3, digit ?n 2, digit ?n 1, digit ?n 0]" "d @ [x, y, z]"]
    unfolding s by simp
qed

text \<open>The padding tells how many bytes the last group has.\<close>

lemma b64_padding:
  "bs \<noteq> [] \<Longrightarrow> b64 bs ! (length (b64 bs) - 1) = pad \<longleftrightarrow> length bs mod 3 \<noteq> 0"
  "bs \<noteq> [] \<Longrightarrow> b64 bs ! (length (b64 bs) - 2) = pad \<longleftrightarrow> length bs mod 3 = 1"
proof -
  have m: "length (x # y # z # bs) mod 3 = length bs mod 3" for x y z :: u8 and bs by simp
  have "bs \<noteq> [] \<longrightarrow> (b64 bs ! (length (b64 bs) - 1) = pad \<longleftrightarrow> length bs mod 3 \<noteq> 0)
    \<and> (b64 bs ! (length (b64 bs) - 2) = pad \<longleftrightarrow> length bs mod 3 = 1)"
  proof (induction bs rule: b64.induct)
    case (4 x y z bs)
    show ?case
    proof (cases "bs = []")
      case False
      then obtain k where "length (b64 bs) = Suc (Suc k)"
        by (cases bs rule: b64.cases) simp_all
      then show ?thesis using 4 False unfolding m by simp
    qed (simp add: digit_not_pad)
  qed (simp_all add: digit_not_pad)
  then show "bs \<noteq> [] \<Longrightarrow> b64 bs ! (length (b64 bs) - 1) = pad \<longleftrightarrow> length bs mod 3 \<noteq> 0"
    "bs \<noteq> [] \<Longrightarrow> b64 bs ! (length (b64 bs) - 2) = pad \<longleftrightarrow> length bs mod 3 = 1" by blast+
qed

lemma read_from_end:
  assumes "length s < 2 ^ 64" and "k \<le> length s" and "0 < k" and "k = unat j"
  shows "read_char s (uint (word_of_nat (length s) - j :: u64)) = Inr (s ! (length s - k))"
proof -
  have n: "uint (word_of_nat (length s) :: u64) = int (length s)"
    using assms(1) by (simp add: uint_nat unat_of_nat take_bit_nat_eq_self)
  have j: "uint j = int k" by (simp only: assms(4) uint_nat)
  have u: "uint (word_of_nat (length s) - j) = int (length s - k)"
    using assms(2) by (simp only: uint_sub_if' n j) simp
  have "read_char s (int i) = Inr (s ! i)" if "i < length s" for i
    using that by (simp add: read_char_def)
  then show ?thesis unfolding u using assms(2,3) by (metis diff_less order.strict_trans2)
qed

lemma Decode_b64:
  assumes "bs \<noteq> []" and "length (b64 bs) < 2 ^ 64"
  shows "Decode sg (b64 bs) = Inr bs"
proof -
  let ?s = "b64 bs" and ?n = "length bs"
  have l: "2 \<le> length ?s" using assms(1) by (cases bs rule: b64.cases) simp_all
  have m: "length ?s mod 4 = 0" by (simp add: length_b64)
  have r: "read_char ?s (uint (word_of_nat (length ?s) - 1 :: u64)) = Inr (?s ! (length ?s - 1))"
    "read_char ?s (uint (word_of_nat (length ?s) - 2 :: u64)) = Inr (?s ! (length ?s - 2))"
    by (rule read_from_end [OF assms(2)], use l in simp_all)+
  have "length ?s div 4 * 3 - (if ?s ! (length ?s - 1) = pad then 1 else 0)
      - (if ?s ! (length ?s - 2) = pad then 1 else 0) = ?n"
  proof -
    have q: "length ?s div 4 = (?n + 2) div 3" by (simp add: length_b64)
    have "(n + 2) div 3 * 3 - (if n mod 3 \<noteq> 0 then 1 else 0) - (if n mod 3 = 1 then 1 else 0) = n" for n :: nat
    proof -
      obtain k r where n: "n = 3 * k + r" and "r < 3" by (metis mult_div_mod_eq mod_less_divisor zero_less_numeral)
      then have "r = 0 \<or> r = 1 \<or> r = 2" by linarith
      then show ?thesis unfolding n by auto
    qed
    then show ?thesis unfolding b64_padding(1) [OF assms(1)] b64_padding(2) [OF assms(1)] q .
  qed
  moreover have "dec_loop sg ?s 0 (0, replicate ?n 0) = Inr bs"
    using dec_loop_b64 [of sg "[]" bs "[]"] by (simp add: fill_def)
  ultimately show ?thesis using m by (simp add: Decode_def Let_def r)
qed

text \<open>Exactly which strings \<open>Decode\<close> survives: every character is looked up, padding apart.\<close>

lemma dec_char_returns: "returns (dec_char sg c) \<longleftrightarrow> \<not> (sg \<and> sint c < 0)"
  by (auto simp: dec_char_def Let_def pad_def)

fun quads :: "'a list \<Rightarrow> nat" where
  "quads (a # b # c # d # r) = Suc (quads r)"
| "quads _ = 0"

lemma dec_loop_returns:
  "length r mod 4 = 0 \<Longrightarrow>
    returns (dec_loop sg (pre @ r) (length pre) st) \<longleftrightarrow> (\<forall>c \<in> set r. returns (dec_char sg c))"
proof (induction r arbitrary: pre st rule: quads.induct)
  case (1 a b c d r)
  show ?case
  proof (cases "\<forall>e \<in> {a, b, c, d}. returns (dec_char sg e)")
    case True
    then obtain a' b' c' d' where "dec_char sg a = Inr a'" "dec_char sg b = Inr b'"
      "dec_char sg c = Inr c'" "dec_char sg d = Inr d'"
      by (auto simp: returns_def)
    from dec_loop_step [OF this] show ?thesis
      using 1(1) [of "pre @ [a, b, c, d]"] 1(2) True by simp
  next
    case False
    then show ?thesis
      by (subst dec_loop.simps) (auto simp: returns_def bind_res_Inr_iff add.commute [of _ "1 :: int"]
          add.commute [of _ "2 :: int"] add.commute [of _ "3 :: int"])
  qed
qed (simp_all add: dec_loop_stop)

lemma Decode_returns:
  assumes "length s < 2 ^ 64"
  shows "returns (Decode sg s) \<longleftrightarrow>
    length s mod 4 \<noteq> 0 \<or> (s \<noteq> [] \<and> (sg \<longrightarrow> (\<forall>c \<in> set s. 0 \<le> sint c)))"
proof (cases "length s mod 4 \<noteq> 0 \<or> s = []")
  case True
  moreover have "\<not> returns (Decode sg [])"
    by (simp add: Decode_def read_char_def unsigned_minus_1_eq_mask mask_eq_exp_minus_1)
  ultimately show ?thesis by (auto simp: Decode_def Let_def)
next
  case False
  then have l: "2 \<le> length s" by (cases s rule: quads.cases) simp_all
  have r: "read_char s (uint (word_of_nat (length s) - 1 :: u64)) = Inr (s ! (length s - 1))"
    "read_char s (uint (word_of_nat (length s) - 2 :: u64)) = Inr (s ! (length s - 2))"
    by (rule read_from_end [OF assms], use l in simp_all)+
  have "returns (Decode sg s) \<longleftrightarrow> (\<forall>c \<in> set s. returns (dec_char sg c))"
    using False dec_loop_returns [of s sg "[]"] by (simp add: Decode_def Let_def r)
  then show ?thesis using False by (auto simp: dec_char_returns linorder_not_less)
qed

end
