(* ===== verification/Fs_String_View.thy ===== *)
theory Fs_String_View
  imports Fs_Prelude "HOL-Library.List_Lexorder"
begin

text \<open>
  \<open>unicode_string_view.h\<close> and its source: a tagged union of four kinds of string.  The union has an
  active member, or none; using another member is a fault.  A string that is constructed over a live one is
  lost, which \<open>sv_leaks\<close> counts.  Comparisons of strings are lexicographic on unsigned units.
\<close>

datatype Encoding = Unkown | Latin1 | Utf8 | Utf16 | Utf32

datatype sv_union =
    NoStr
  | Latin1Str "u8 list"
  | U8Str "u8 list"
  | U16Str "u16 list"
  | U32Str "u32 list"

record usv =
  sv_encoding :: Encoding
  sv_union :: sv_union
  sv_leaks :: nat

section \<open>The union\<close>

definition get_latin1 :: "sv_union \<Rightarrow> u8 list res" where
  "get_latin1 u = (case u of Latin1Str s \<Rightarrow> Inr s | _ \<Rightarrow> Inl (UB BadMember))"

definition get_u8 :: "sv_union \<Rightarrow> u8 list res" where
  "get_u8 u = (case u of U8Str s \<Rightarrow> Inr s | _ \<Rightarrow> Inl (UB BadMember))"

definition get_u16 :: "sv_union \<Rightarrow> u16 list res" where
  "get_u16 u = (case u of U16Str s \<Rightarrow> Inr s | _ \<Rightarrow> Inl (UB BadMember))"

definition get_u32 :: "sv_union \<Rightarrow> u32 list res" where
  "get_u32 u = (case u of U32Str s \<Rightarrow> Inr s | _ \<Rightarrow> Inl (UB BadMember))"

text \<open>\<open>new (&member) string(...)\<close>.\<close>

definition place :: "sv_union \<Rightarrow> usv \<Rightarrow> usv" where
  "place u v = v\<lparr>sv_union := u, sv_leaks := sv_leaks v + (if sv_union v = NoStr then 0 else 1)\<rparr>"

section \<open>Construction and destruction\<close>

definition sv_default :: usv where
  "sv_default = \<lparr>sv_encoding = Unkown, sv_union = NoStr, sv_leaks = 0\<rparr>"

definition sv_latin1 :: "u8 list \<Rightarrow> usv" where
  "sv_latin1 s = \<lparr>sv_encoding = Latin1, sv_union = Latin1Str s, sv_leaks = 0\<rparr>"

definition sv_u8 :: "u8 list \<Rightarrow> usv" where
  "sv_u8 s = \<lparr>sv_encoding = Utf8, sv_union = U8Str s, sv_leaks = 0\<rparr>"

definition sv_u16 :: "u16 list \<Rightarrow> usv" where
  "sv_u16 s = \<lparr>sv_encoding = Utf16, sv_union = U16Str s, sv_leaks = 0\<rparr>"

definition sv_u32 :: "u32 list \<Rightarrow> usv" where
  "sv_u32 s = \<lparr>sv_encoding = Utf32, sv_union = U32Str s, sv_leaks = 0\<rparr>"

text \<open>A string made from a pointer ends before the first zero, from a pointer and a length after that many units.\<close>

definition c_str :: "'u::len word list \<Rightarrow> 'u word list" where
  "c_str p = takeWhile (\<lambda>c. c \<noteq> 0) p"

definition new_from_utf8 :: "u8 list \<Rightarrow> usv" where
  "new_from_utf8 p = sv_u8 (c_str p)"

definition new_from_utf8_length :: "u8 list \<Rightarrow> nat \<Rightarrow> usv res" where
  "new_from_utf8_length p n = (if n \<le> length p then Inr (sv_u8 (take n p)) else Inl (UB OutOfRange))"

text \<open>The literals \<open>_u8_ptr\<close>, a cast of the pointer, and \<open>_u8s\<close>; the compiler passes the characters and their number.\<close>

definition u8_ptr :: "u8 list \<Rightarrow> nat \<Rightarrow> u8 list" where
  "u8_ptr u8 n = u8"

definition u8s :: "u8 list \<Rightarrow> nat \<Rightarrow> usv res" where
  "u8s u8 n = new_from_utf8_length u8 n"

definition encoding :: "usv \<Rightarrow> Encoding" where
  "encoding v = sv_encoding v"

definition sv_copy :: "usv \<Rightarrow> usv res" where
  "sv_copy src =
     (case sv_encoding src of
        Latin1 \<Rightarrow> bind_res (get_latin1 (sv_union src)) (\<lambda>s. Inr (sv_latin1 s))
      | Utf8 \<Rightarrow> bind_res (get_u8 (sv_union src)) (\<lambda>s. Inr (sv_u8 s))
      | Utf16 \<Rightarrow> bind_res (get_u16 (sv_union src)) (\<lambda>s. Inr (sv_u16 s))
      | Utf32 \<Rightarrow> bind_res (get_u32 (sv_union src)) (\<lambda>s. Inr (sv_u32 s))
      | Unkown \<Rightarrow> Inr sv_default)"

definition deallocate :: "usv \<Rightarrow> usv res" where
  "deallocate v =
     bind_res
       (case sv_encoding v of
          Latin1 \<Rightarrow> bind_res (get_latin1 (sv_union v)) (\<lambda>_. Inr (v\<lparr>sv_union := NoStr\<rparr>))
        | Utf8 \<Rightarrow> bind_res (get_u8 (sv_union v)) (\<lambda>_. Inr (v\<lparr>sv_union := NoStr\<rparr>))
        | Utf16 \<Rightarrow> bind_res (get_u16 (sv_union v)) (\<lambda>_. Inr (v\<lparr>sv_union := NoStr\<rparr>))
        | Utf32 \<Rightarrow> bind_res (get_u32 (sv_union v)) (\<lambda>_. Inr (v\<lparr>sv_union := NoStr\<rparr>))
        | Unkown \<Rightarrow> Inr v)
       (\<lambda>v. Inr (v\<lparr>sv_encoding := Unkown\<rparr>))"

section \<open>Assignment\<close>

text \<open>\<open>same\<close> says that the two sides are one object.\<close>

definition sv_assign :: "bool \<Rightarrow> usv \<Rightarrow> usv \<Rightarrow> usv res" where
  "sv_assign same v rhs =
     (if same then Inr v
      else
        bind_res
          (case sv_encoding rhs of
             Latin1 \<Rightarrow>
               if sv_encoding v \<noteq> Latin1 then
                 bind_res (deallocate v) (\<lambda>v.
                 bind_res (get_latin1 (sv_union rhs)) (\<lambda>s. Inr (place (Latin1Str s) v)))
               else
                 bind_res (get_latin1 (sv_union v)) (\<lambda>_.
                 bind_res (get_latin1 (sv_union rhs)) (\<lambda>s. Inr (v\<lparr>sv_union := Latin1Str s\<rparr>)))
           | Utf8 \<Rightarrow>
               if sv_encoding v \<noteq> Utf8 then
                 bind_res (deallocate v) (\<lambda>v.
                 bind_res (get_u8 (sv_union rhs)) (\<lambda>s. Inr (place (U8Str s) v)))
               else
                 bind_res (get_u8 (sv_union v)) (\<lambda>_.
                 bind_res (get_u8 (sv_union rhs)) (\<lambda>s. Inr (v\<lparr>sv_union := U8Str s\<rparr>)))
           | Utf16 \<Rightarrow>
               if sv_encoding v \<noteq> Utf16 then
                 bind_res (deallocate v) (\<lambda>v.
                 bind_res (get_u16 (sv_union rhs)) (\<lambda>s. Inr (place (U16Str s) v)))
               else
                 bind_res (get_u16 (sv_union v)) (\<lambda>_.
                 bind_res (get_u16 (sv_union rhs)) (\<lambda>s. Inr (v\<lparr>sv_union := U16Str s\<rparr>)))
           | Utf32 \<Rightarrow>
               if sv_encoding v \<noteq> Utf32 then
                 bind_res (deallocate v) (\<lambda>v.
                 bind_res (get_u32 (sv_union rhs)) (\<lambda>s. Inr (place (U32Str s) v)))
               else
                 bind_res (get_u32 (sv_union v)) (\<lambda>_.
                 bind_res (get_u32 (sv_union rhs)) (\<lambda>s. Inr (v\<lparr>sv_union := U32Str s\<rparr>)))
           | Unkown \<Rightarrow> Inr v)
          (\<lambda>v. Inr (v\<lparr>sv_encoding := sv_encoding rhs\<rparr>)))"

text \<open>
  Assignment of a Latin-1 string writes the member in every case; assignment of the other kinds does
  nothing when the encoding is already the right one.
\<close>

definition sv_assign_latin1 :: "usv \<Rightarrow> u8 list \<Rightarrow> usv res" where
  "sv_assign_latin1 v s =
     bind_res
       (if sv_encoding v \<noteq> Latin1 then
          bind_res (deallocate v) (\<lambda>v. Inr ((place (Latin1Str []) v)\<lparr>sv_encoding := Latin1\<rparr>))
        else Inr v) (\<lambda>v.
     bind_res (get_latin1 (sv_union v)) (\<lambda>_. Inr (v\<lparr>sv_union := Latin1Str s\<rparr>)))"

definition sv_assign_u8 :: "usv \<Rightarrow> u8 list \<Rightarrow> usv res" where
  "sv_assign_u8 v s =
     (if sv_encoding v \<noteq> Utf8 then
        bind_res (deallocate v) (\<lambda>v. Inr ((place (U8Str s) v)\<lparr>sv_encoding := Utf8\<rparr>))
      else Inr v)"

definition sv_assign_u16 :: "usv \<Rightarrow> u16 list \<Rightarrow> usv res" where
  "sv_assign_u16 v s =
     (if sv_encoding v \<noteq> Utf16 then
        bind_res (deallocate v) (\<lambda>v. Inr ((place (U16Str s) v)\<lparr>sv_encoding := Utf16\<rparr>))
      else Inr v)"

definition sv_assign_u32 :: "usv \<Rightarrow> u32 list \<Rightarrow> usv res" where
  "sv_assign_u32 v s =
     (if sv_encoding v \<noteq> Utf32 then
        bind_res (deallocate v) (\<lambda>v. Inr ((place (U32Str s) v)\<lparr>sv_encoding := Utf32\<rparr>))
      else Inr v)"

section \<open>Comparison\<close>

text \<open>The three comparisons that look at the strings differ only in what they ask of them.\<close>

definition sv_eq :: "usv \<Rightarrow> usv \<Rightarrow> bool res" where
  "sv_eq a b =
     (if sv_encoding a \<noteq> sv_encoding b then Inr False
      else case sv_encoding a of
             Latin1 \<Rightarrow> bind_res (get_latin1 (sv_union a)) (\<lambda>s. bind_res (get_latin1 (sv_union b)) (\<lambda>t. Inr (s = t)))
           | Utf8 \<Rightarrow> bind_res (get_u8 (sv_union a)) (\<lambda>s. bind_res (get_u8 (sv_union b)) (\<lambda>t. Inr (s = t)))
           | Utf16 \<Rightarrow> bind_res (get_u16 (sv_union a)) (\<lambda>s. bind_res (get_u16 (sv_union b)) (\<lambda>t. Inr (s = t)))
           | Utf32 \<Rightarrow> bind_res (get_u32 (sv_union a)) (\<lambda>s. bind_res (get_u32 (sv_union b)) (\<lambda>t. Inr (s = t)))
           | Unkown \<Rightarrow> Inr False)"

definition sv_neq :: "usv \<Rightarrow> usv \<Rightarrow> bool res" where
  "sv_neq a b = bind_res (sv_eq a b) (\<lambda>e. Inr (\<not> e))"

definition sv_less :: "usv \<Rightarrow> usv \<Rightarrow> bool res" where
  "sv_less a b =
     (if sv_encoding a \<noteq> sv_encoding b then Inr False
      else case sv_encoding a of
             Latin1 \<Rightarrow> bind_res (get_latin1 (sv_union a)) (\<lambda>s. bind_res (get_latin1 (sv_union b)) (\<lambda>t. Inr (s < t)))
           | Utf8 \<Rightarrow> bind_res (get_u8 (sv_union a)) (\<lambda>s. bind_res (get_u8 (sv_union b)) (\<lambda>t. Inr (s < t)))
           | Utf16 \<Rightarrow> bind_res (get_u16 (sv_union a)) (\<lambda>s. bind_res (get_u16 (sv_union b)) (\<lambda>t. Inr (s < t)))
           | Utf32 \<Rightarrow> bind_res (get_u32 (sv_union a)) (\<lambda>s. bind_res (get_u32 (sv_union b)) (\<lambda>t. Inr (s < t)))
           | Unkown \<Rightarrow> Inr False)"

definition sv_greater :: "usv \<Rightarrow> usv \<Rightarrow> bool res" where
  "sv_greater a b =
     (if sv_encoding a \<noteq> sv_encoding b then Inr False
      else case sv_encoding a of
             Latin1 \<Rightarrow> bind_res (get_latin1 (sv_union a)) (\<lambda>s. bind_res (get_latin1 (sv_union b)) (\<lambda>t. Inr (s > t)))
           | Utf8 \<Rightarrow> bind_res (get_u8 (sv_union a)) (\<lambda>s. bind_res (get_u8 (sv_union b)) (\<lambda>t. Inr (s > t)))
           | Utf16 \<Rightarrow> bind_res (get_u16 (sv_union a)) (\<lambda>s. bind_res (get_u16 (sv_union b)) (\<lambda>t. Inr (s > t)))
           | Utf32 \<Rightarrow> bind_res (get_u32 (sv_union a)) (\<lambda>s. bind_res (get_u32 (sv_union b)) (\<lambda>t. Inr (s > t)))
           | Unkown \<Rightarrow> Inr False)"

definition sv_less_eq :: "usv \<Rightarrow> usv \<Rightarrow> bool res" where
  "sv_less_eq a b =
     (if sv_encoding a \<noteq> sv_encoding b then Inr False else bind_res (sv_greater a b) (\<lambda>g. Inr (\<not> g)))"

definition sv_greater_eq :: "usv \<Rightarrow> usv \<Rightarrow> bool res" where
  "sv_greater_eq a b =
     (if sv_encoding a \<noteq> sv_encoding b then Inr False else bind_res (sv_less a b) (\<lambda>l. Inr (\<not> l)))"

section \<open>Hash and accessors\<close>

text \<open>The hash functions of the standard library are parameters.\<close>

definition sv_hash ::
    "(u8 list \<Rightarrow> u64) \<Rightarrow> (u8 list \<Rightarrow> u64) \<Rightarrow> (u16 list \<Rightarrow> u64) \<Rightarrow> (u32 list \<Rightarrow> u64) \<Rightarrow> usv \<Rightarrow> u64 res" where
  "sv_hash h1 h8 h16 h32 v =
     (case sv_encoding v of
        Latin1 \<Rightarrow> bind_res (get_latin1 (sv_union v)) (\<lambda>s. Inr (h1 s))
      | Utf8 \<Rightarrow> bind_res (get_u8 (sv_union v)) (\<lambda>s. Inr (h8 s))
      | Utf16 \<Rightarrow> bind_res (get_u16 (sv_union v)) (\<lambda>s. Inr (h16 s))
      | Utf32 \<Rightarrow> bind_res (get_u32 (sv_union v)) (\<lambda>s. Inr (h32 s))
      | Unkown \<Rightarrow> Inr 0)"

definition is_latin1 :: "usv \<Rightarrow> bool" where "is_latin1 v = (sv_encoding v = Latin1)"
definition is_utf8 :: "usv \<Rightarrow> bool" where "is_utf8 v = (sv_encoding v = Utf8)"
definition is_utf16 :: "usv \<Rightarrow> bool" where "is_utf16 v = (sv_encoding v = Utf16)"
definition is_utf32 :: "usv \<Rightarrow> bool" where "is_utf32 v = (sv_encoding v = Utf32)"

text \<open>The accessors assert the encoding in a debug build.\<close>

definition latin1_value :: "bool \<Rightarrow> usv \<Rightarrow> u8 list res" where
  "latin1_value debug v = check (debug \<longrightarrow> sv_encoding v = Latin1) (get_latin1 (sv_union v))"

definition utf8_value :: "bool \<Rightarrow> usv \<Rightarrow> u8 list res" where
  "utf8_value debug v = check (debug \<longrightarrow> sv_encoding v = Utf8) (get_u8 (sv_union v))"

definition utf16_value :: "bool \<Rightarrow> usv \<Rightarrow> u16 list res" where
  "utf16_value debug v = check (debug \<longrightarrow> sv_encoding v = Utf16) (get_u16 (sv_union v))"

definition utf32_value :: "bool \<Rightarrow> usv \<Rightarrow> u32 list res" where
  "utf32_value debug v = check (debug \<longrightarrow> sv_encoding v = Utf32) (get_u32 (sv_union v))"

end
