(* ===== verification/Fs_String_Facts.thy ===== *)
theory Fs_String_Facts
  imports Fs_String_View
begin

text \<open>
  What a \<open>unicode_string_view\<close> promises: its tag tells the member of the union that is alive, so that no
  operation touches another one; a view stands for a value, which copying and assignment carry over;
  the comparisons order the values of one encoding.
\<close>

section \<open>The invariant\<close>

fun kind_of :: "sv_union \<Rightarrow> Encoding" where
  "kind_of NoStr = Unkown"
| "kind_of (Latin1Str _) = Latin1"
| "kind_of (U8Str _) = Utf8"
| "kind_of (U16Str _) = Utf16"
| "kind_of (U32Str _) = Utf32"

text \<open>A view without an encoding may still have a live string, which nobody will destroy.\<close>

definition sv_wf :: "usv \<Rightarrow> bool" where
  "sv_wf v \<longleftrightarrow> sv_encoding v = Unkown \<or> kind_of (sv_union v) = sv_encoding v"

definition sv_tight :: "usv \<Rightarrow> bool" where
  "sv_tight v \<longleftrightarrow> kind_of (sv_union v) = sv_encoding v"

definition sv_value :: "usv \<Rightarrow> sv_union" where
  "sv_value v = (if sv_encoding v = Unkown then NoStr else sv_union v)"

lemma kind_of_value: "sv_wf v \<Longrightarrow> kind_of (sv_value v) = sv_encoding v"
  by (auto simp: sv_wf_def sv_value_def)

lemma sv_wf_cases:
  assumes "sv_wf v"
  obtains "sv_encoding v = Unkown"
  | s where "sv_encoding v = Latin1" "sv_union v = Latin1Str s"
  | s where "sv_encoding v = Utf8" "sv_union v = U8Str s"
  | s where "sv_encoding v = Utf16" "sv_union v = U16Str s"
  | s where "sv_encoding v = Utf32" "sv_union v = U32Str s"
  using assms by (cases "sv_union v") (auto simp: sv_wf_def)

lemmas sv_gets = get_latin1_def get_u8_def get_u16_def get_u32_def

lemma sv_new [simp]:
  "sv_tight sv_default" "sv_tight (sv_latin1 s)" "sv_tight (sv_u8 s)" "sv_tight (sv_u16 t)" "sv_tight (sv_u32 u)"
  "sv_value sv_default = NoStr" "sv_value (sv_latin1 s) = Latin1Str s" "sv_value (sv_u8 s) = U8Str s"
  "sv_value (sv_u16 t) = U16Str t" "sv_value (sv_u32 u) = U32Str u"
  by (simp_all add: sv_tight_def sv_value_def sv_default_def sv_latin1_def sv_u8_def sv_u16_def sv_u32_def)

lemma sv_tight_wf: "sv_tight v \<Longrightarrow> sv_wf v"
  by (simp add: sv_tight_def sv_wf_def)

lemma ex_Inr_iff: "(\<exists>a. m = Inr a \<and> P a) \<longleftrightarrow> (case m of Inr a \<Rightarrow> P a | Inl _ \<Rightarrow> False)"
  by (cases m) simp_all

section \<open>Copies and assignments carry the value over\<close>

lemma sv_copy_value:
  assumes "sv_wf v"
  shows "\<exists>v'. sv_copy v = Inr v' \<and> sv_tight v' \<and> sv_value v' = sv_value v"
  using assms by (cases rule: sv_wf_cases) (simp_all add: sv_copy_def sv_gets sv_value_def [of v])

lemma deallocate_wf:
  assumes "sv_wf v"
  shows "\<exists>v'. deallocate v = Inr v' \<and> sv_encoding v' = Unkown \<and> (sv_tight v \<longrightarrow> sv_union v' = NoStr)
    \<and> sv_leaks v' = sv_leaks v"
  using assms by (cases rule: sv_wf_cases) (auto simp: deallocate_def sv_gets sv_tight_def elim: kind_of.elims)

lemma sv_assign_value:
  assumes "sv_wf v" and "sv_wf rhs" and "same \<Longrightarrow> rhs = v"
  shows "\<exists>v'. sv_assign same v rhs = Inr v' \<and> sv_wf v' \<and> sv_value v' = sv_value rhs"
proof (cases same)
  case True
  then show ?thesis using assms by (simp add: sv_assign_def)
next
  case False
  obtain v1 where d: "deallocate v = Inr v1" using deallocate_wf [OF assms(1)] by blast
  show ?thesis using assms(2)
  proof (cases rule: sv_wf_cases)
    case 1
    then show ?thesis using False by (simp add: sv_assign_def sv_wf_def sv_value_def)
  qed (use assms(1) False d in \<open>auto simp: sv_assign_def sv_gets sv_wf_def sv_value_def place_def ex_Inr_iff
      elim: kind_of.elims split: sv_union.splits\<close>)
qed

lemma sv_assign_string_value:
  assumes "sv_wf v"
  shows "\<exists>v'. sv_assign_latin1 v s = Inr v' \<and> sv_wf v' \<and> sv_value v' = Latin1Str s"
    and "\<exists>v'. sv_assign_u8 v s = Inr v' \<and> sv_wf v'
      \<and> sv_value v' = (if sv_encoding v = Utf8 then sv_value v else U8Str s)"
    and "\<exists>v'. sv_assign_u16 v t = Inr v' \<and> sv_wf v'
      \<and> sv_value v' = (if sv_encoding v = Utf16 then sv_value v else U16Str t)"
    and "\<exists>v'. sv_assign_u32 v u = Inr v' \<and> sv_wf v'
      \<and> sv_value v' = (if sv_encoding v = Utf32 then sv_value v else U32Str u)"
proof -
  obtain v1 where d: "deallocate v = Inr v1" using deallocate_wf [OF assms(1)] by blast
  show "\<exists>v'. sv_assign_latin1 v s = Inr v' \<and> sv_wf v' \<and> sv_value v' = Latin1Str s"
    using assms d by (cases "sv_union v")
      (auto simp: sv_assign_latin1_def sv_gets sv_wf_def sv_value_def place_def)
  show "\<exists>v'. sv_assign_u8 v s = Inr v' \<and> sv_wf v'
      \<and> sv_value v' = (if sv_encoding v = Utf8 then sv_value v else U8Str s)"
    "\<exists>v'. sv_assign_u16 v t = Inr v' \<and> sv_wf v'
      \<and> sv_value v' = (if sv_encoding v = Utf16 then sv_value v else U16Str t)"
    "\<exists>v'. sv_assign_u32 v u = Inr v' \<and> sv_wf v'
      \<and> sv_value v' = (if sv_encoding v = Utf32 then sv_value v else U32Str u)"
    using assms d by (auto simp: sv_assign_u8_def sv_assign_u16_def sv_assign_u32_def sv_wf_def sv_value_def place_def)
qed

section \<open>Programs over views\<close>

datatype sv_op =
    OpAssign nat nat
  | OpCopy nat nat
  | OpLatin1 nat "u8 list"
  | OpU8 nat "u8 list"
  | OpU16 nat "u16 list"
  | OpU32 nat "u32 list"

text \<open>
  The slots hold the views a program uses.  \<open>OpCopy i j\<close> constructs a copy of the view \<open>j\<close> in new memory, destroys the
  view in the slot \<open>i\<close>, and puts the copy there; so \<open>i\<close> and \<open>j\<close> may be the same.
\<close>

fun sv_step :: "sv_op \<Rightarrow> (nat \<Rightarrow> usv) \<Rightarrow> (nat \<Rightarrow> usv) res" where
  "sv_step (OpAssign i j) s = bind_res (sv_assign (i = j) (s i) (s j)) (\<lambda>v. Inr (s(i := v)))"
| "sv_step (OpCopy i j) s =
     bind_res (sv_copy (s j)) (\<lambda>v. bind_res (deallocate (s i)) (\<lambda>_. Inr (s(i := v))))"
| "sv_step (OpLatin1 i t) s = bind_res (sv_assign_latin1 (s i) t) (\<lambda>v. Inr (s(i := v)))"
| "sv_step (OpU8 i t) s = bind_res (sv_assign_u8 (s i) t) (\<lambda>v. Inr (s(i := v)))"
| "sv_step (OpU16 i t) s = bind_res (sv_assign_u16 (s i) t) (\<lambda>v. Inr (s(i := v)))"
| "sv_step (OpU32 i t) s = bind_res (sv_assign_u32 (s i) t) (\<lambda>v. Inr (s(i := v)))"

fun sv_run :: "sv_op list \<Rightarrow> (nat \<Rightarrow> usv) \<Rightarrow> (nat \<Rightarrow> usv) res" where
  "sv_run [] s = Inr s"
| "sv_run (e # es) s = bind_res (sv_step e s) (sv_run es)"

text \<open>The same over values: an assignment of a string in UTF-8, -16 or -32 to a view that has the encoding is lost.\<close>

fun value_step :: "sv_op \<Rightarrow> (nat \<Rightarrow> sv_union) \<Rightarrow> nat \<Rightarrow> sv_union" where
  "value_step (OpAssign i j) s = s(i := s j)"
| "value_step (OpCopy i j) s = s(i := s j)"
| "value_step (OpLatin1 i t) s = s(i := Latin1Str t)"
| "value_step (OpU8 i t) s = (if kind_of (s i) = Utf8 then s else s(i := U8Str t))"
| "value_step (OpU16 i t) s = (if kind_of (s i) = Utf16 then s else s(i := U16Str t))"
| "value_step (OpU32 i t) s = (if kind_of (s i) = Utf32 then s else s(i := U32Str t))"

lemma sv_step_value:
  assumes "\<forall>i. sv_wf (s i)"
  shows "\<exists>s'. sv_step e s = Inr s' \<and> (\<forall>i. sv_wf (s' i)) \<and> sv_value \<circ> s' = value_step e (sv_value \<circ> s)"
proof -
  have w: "sv_wf (s i)" for i using assms by simp
  have upd: "(\<forall>k. sv_wf ((s(i := v)) k)) \<and> sv_value \<circ> s(i := v) = (sv_value \<circ> s)(i := sv_value v)"
    if "sv_wf v" for i v using that w by auto
  have same: "(sv_value \<circ> s)(i := sv_value (s i)) = sv_value \<circ> s" for i by auto
  show ?thesis
  proof (cases e)
    case (OpAssign i j)
    then show ?thesis using sv_assign_value [OF w w, of "i = j" j i] upd by fastforce
  next
    case (OpCopy i j)
    then show ?thesis using deallocate_wf [OF w, of i] sv_copy_value [OF w, of j] upd sv_tight_wf by fastforce
  next
    case (OpLatin1 i t)
    then show ?thesis using sv_assign_string_value(1) [OF w, of i t] upd by fastforce
  next
    case (OpU8 i t)
    then show ?thesis using sv_assign_string_value(2) [OF w, of i t] upd kind_of_value [OF w, of i] same by (auto split: if_splits)
  next
    case (OpU16 i t)
    then show ?thesis using sv_assign_string_value(3) [OF w, of i t] upd kind_of_value [OF w, of i] same by (auto split: if_splits)
  next
    case (OpU32 i t)
    then show ?thesis using sv_assign_string_value(4) [OF w, of i t] upd kind_of_value [OF w, of i] same by (auto split: if_splits)
  qed
qed

lemma sv_run_value:
  "\<forall>i. sv_wf (s i) \<Longrightarrow> \<exists>s'. sv_run es s = Inr s' \<and> (\<forall>i. sv_wf (s' i)) \<and> sv_value \<circ> s' = fold value_step es (sv_value \<circ> s)"
proof (induction es arbitrary: s)
  case (Cons e es)
  obtain s1 where s1: "sv_step e s = Inr s1" "\<forall>i. sv_wf (s1 i)" "sv_value \<circ> s1 = value_step e (sv_value \<circ> s)"
    using sv_step_value [OF Cons.prems] by blast
  then show ?case using Cons.IH [OF s1(2)] unfolding s1(3) by (simp add: comp_def)
qed simp

text \<open>
  Nothing is lost among views with an encoding: the only way to lose a string is to assign a view without one, which
  leaves the old string behind.
\<close>

definition sv_whole :: "usv \<Rightarrow> bool" where
  "sv_whole v \<longleftrightarrow> sv_tight v \<and> sv_encoding v \<noteq> Unkown \<and> sv_leaks v = 0"

lemma deallocate_whole:
  assumes "sv_whole v"
  shows "\<exists>v'. deallocate v = Inr v' \<and> sv_union v' = NoStr \<and> sv_leaks v' = 0"
  using deallocate_wf [of v] assms by (auto simp: sv_whole_def sv_tight_wf)

lemma sv_copy_whole: "sv_whole v \<Longrightarrow> sv_copy v = Inr v' \<Longrightarrow> sv_whole v'"
  by (auto simp: sv_whole_def sv_tight_def sv_copy_def sv_latin1_def sv_u8_def sv_u16_def sv_u32_def sv_gets
      split: Encoding.splits sv_union.splits)

lemma sv_assign_whole:
  assumes "sv_whole v" and "sv_whole rhs" and "sv_assign b v rhs = Inr v'"
  shows "sv_whole v'"
proof -
  obtain v1 where "deallocate v = Inr v1" "sv_union v1 = NoStr" "sv_leaks v1 = 0"
    using deallocate_whole [OF assms(1)] by blast
  note v1 = this
  have v: "sv_wf v" "sv_wf rhs" using assms(1,2) by (simp_all add: sv_whole_def sv_tight_wf)
  have w: "sv_whole v" "sv_encoding v \<noteq> Unkown" "sv_encoding rhs \<noteq> Unkown" "sv_leaks v = 0"
    using assms(1,2) by (simp_all add: sv_whole_def)
  show ?thesis
  proof (cases b)
    case True
    then show ?thesis using assms(1,3) by (simp add: sv_assign_def)
  next
    case False
    show ?thesis using v(2)
    proof (cases rule: sv_wf_cases)
      case 1
      then show ?thesis using w by simp
    qed (use v(1) in \<open>cases rule: sv_wf_cases,
        use False w v1 assms(3) in \<open>auto simp: sv_whole_def sv_tight_def sv_assign_def sv_gets place_def\<close>\<close>)+
  qed
qed

lemma sv_assign_string_whole:
  assumes "sv_whole v"
  shows "sv_assign_latin1 v s = Inr v' \<Longrightarrow> sv_whole v'" and "sv_assign_u8 v s = Inr v' \<Longrightarrow> sv_whole v'"
    and "sv_assign_u16 v t = Inr v' \<Longrightarrow> sv_whole v'" and "sv_assign_u32 v u = Inr v' \<Longrightarrow> sv_whole v'"
proof -
  obtain v1 where "deallocate v = Inr v1" "sv_union v1 = NoStr" "sv_leaks v1 = 0"
    using deallocate_whole [OF assms] by blast
  then show "sv_assign_latin1 v s = Inr v' \<Longrightarrow> sv_whole v'" "sv_assign_u8 v s = Inr v' \<Longrightarrow> sv_whole v'"
    "sv_assign_u16 v t = Inr v' \<Longrightarrow> sv_whole v'" "sv_assign_u32 v u = Inr v' \<Longrightarrow> sv_whole v'"
    using assms
    by (auto simp: sv_whole_def sv_tight_def sv_assign_latin1_def sv_assign_u8_def sv_assign_u16_def sv_assign_u32_def
        sv_gets place_def split: sv_union.splits if_splits)
qed

lemma sv_step_whole:
  assumes "\<forall>i. sv_whole (s i)" and "sv_step e s = Inr s'"
  shows "\<forall>i. sv_whole (s' i)"
proof -
  have w: "sv_whole (s i)" for i using assms(1) by simp
  have "\<exists>i v. s' = s(i := v) \<and> sv_whole v"
  proof (cases e)
    case (OpAssign i j)
    then show ?thesis using assms(2) sv_assign_whole [OF w [of i] w [of j], of "i = j"] by auto
  next
    case (OpCopy i j)
    then show ?thesis using assms(2) sv_copy_whole [OF w, of j] by auto
  next
    case (OpLatin1 i t)
    then show ?thesis using assms(2) sv_assign_string_whole(1) [OF w, of i t] by auto
  next
    case (OpU8 i t)
    then show ?thesis using assms(2) sv_assign_string_whole(2) [OF w, of i t] by auto
  next
    case (OpU16 i t)
    then show ?thesis using assms(2) sv_assign_string_whole(3) [OF w, of i t] by auto
  next
    case (OpU32 i t)
    then show ?thesis using assms(2) sv_assign_string_whole(4) [OF w, of i t] by auto
  qed
  then show ?thesis using w by auto
qed

lemma sv_run_whole: "\<forall>i. sv_whole (s i) \<Longrightarrow> sv_run es s = Inr s' \<Longrightarrow> \<forall>i. sv_whole (s' i)"
proof (induction es arbitrary: s)
  case (Cons e es)
  then obtain s1 where "sv_step e s = Inr s1" "sv_run es s1 = Inr s'" by auto
  then show ?case using Cons.IH sv_step_whole [OF Cons.prems(1)] by blast
qed simp

section \<open>The order\<close>

fun value_less :: "sv_union \<Rightarrow> sv_union \<Rightarrow> bool" where
  "value_less (Latin1Str s) (Latin1Str t) = (s < t)"
| "value_less (U8Str s) (U8Str t) = (s < t)"
| "value_less (U16Str s) (U16Str t) = (s < t)"
| "value_less (U32Str s) (U32Str t) = (s < t)"
| "value_less _ _ = False"

lemma value_less_trans: "value_less a b \<Longrightarrow> value_less b c \<Longrightarrow> value_less a c"
  by (cases a; cases b; cases c) auto

lemma value_less_irrefl [simp]: "\<not> value_less a a"
  by (cases a) auto

lemma value_less_total:
  "kind_of a = kind_of b \<Longrightarrow> value_less a b \<or> a = b \<or> value_less b a"
  by (cases a; cases b) auto

lemma value_less_kind: "value_less a b \<Longrightarrow> kind_of a = kind_of b \<and> kind_of a \<noteq> Unkown"
  by (cases a; cases b) auto

lemma sv_compare_value:
  assumes "sv_wf a" and "sv_wf b"
  shows "sv_eq a b = Inr (sv_encoding a \<noteq> Unkown \<and> sv_value a = sv_value b)"
    and "sv_less a b = Inr (value_less (sv_value a) (sv_value b))"
    and "sv_greater a b = Inr (value_less (sv_value b) (sv_value a))"
    and "sv_less_eq a b = Inr (sv_encoding a = sv_encoding b \<and> \<not> value_less (sv_value b) (sv_value a))"
    and "sv_greater_eq a b = Inr (sv_encoding a = sv_encoding b \<and> \<not> value_less (sv_value a) (sv_value b))"
proof -
  have "sv_eq a b = Inr (sv_encoding a \<noteq> Unkown \<and> sv_value a = sv_value b)
      \<and> sv_less a b = Inr (value_less (sv_value a) (sv_value b))
      \<and> sv_greater a b = Inr (value_less (sv_value b) (sv_value a))"
    using assms(1)
  proof (cases rule: sv_wf_cases)
    case 1
    then show ?thesis by (auto simp: sv_eq_def sv_less_def sv_greater_def sv_value_def)
  qed (use assms(2) in \<open>cases rule: sv_wf_cases,
      auto simp: sv_eq_def sv_less_def sv_greater_def sv_value_def sv_gets\<close>)+
  then show "sv_eq a b = Inr (sv_encoding a \<noteq> Unkown \<and> sv_value a = sv_value b)"
    "sv_less a b = Inr (value_less (sv_value a) (sv_value b))"
    "sv_greater a b = Inr (value_less (sv_value b) (sv_value a))"
    "sv_less_eq a b = Inr (sv_encoding a = sv_encoding b \<and> \<not> value_less (sv_value b) (sv_value a))"
    "sv_greater_eq a b = Inr (sv_encoding a = sv_encoding b \<and> \<not> value_less (sv_value a) (sv_value b))"
    by (auto simp: sv_less_eq_def sv_greater_eq_def)
qed

lemma sv_hash_value:
  assumes "sv_wf v"
  shows "sv_hash h1 h8 h16 h32 v = Inr (case sv_value v of NoStr \<Rightarrow> 0 | Latin1Str s \<Rightarrow> h1 s | U8Str s \<Rightarrow> h8 s
    | U16Str s \<Rightarrow> h16 s | U32Str s \<Rightarrow> h32 s)"
  using assms by (cases rule: sv_wf_cases) (simp_all add: sv_hash_def sv_gets sv_value_def)

end
