(* ===== verification/Fs_Logging.thy ===== *)
theory Fs_Logging
  imports Fs_String_View
begin

text \<open>
  \<open>include/footstone/logging.h\<close>, \<open>log_level.h\<close>, \<open>log_settings.cc\<close> and the five \<open>logging.cc\<close> under \<open>src/platform\<close>,
  which differ in the constant they compare a severity with and in where a message goes.  A severity is
  the integer of its enumerator.  Text is a list of characters; \<open>operator<<\<close> for string views works on bytes.
\<close>

section \<open>Levels and settings\<close>

definition TDF_LOG_INFO :: int where "TDF_LOG_INFO = 0"
definition TDF_LOG_WARNING :: int where "TDF_LOG_WARNING = 1"
definition TDF_LOG_ERROR :: int where "TDF_LOG_ERROR = 2"
definition TDF_LOG_FATAL :: int where "TDF_LOG_FATAL = 3"
definition TDF_LOG_NUM_SEVERITIES :: int where "TDF_LOG_NUM_SEVERITIES = 4"

lemmas log_levels = TDF_LOG_INFO_def TDF_LOG_WARNING_def TDF_LOG_ERROR_def TDF_LOG_FATAL_def
  TDF_LOG_NUM_SEVERITIES_def

text \<open>The state is the global \<open>min_log_level\<close>.\<close>

definition global_log_settings :: int where
  "global_log_settings = TDF_LOG_INFO"

definition SetLogSettings :: "int \<Rightarrow> int" where
  "SetLogSettings min_log_level = min TDF_LOG_FATAL min_log_level"

definition GetLogSettings :: "int \<Rightarrow> int" where
  "GetLogSettings level = level"

definition GetMinLogLevel :: "int \<Rightarrow> int" where
  "GetMinLogLevel level = min level TDF_LOG_FATAL"

definition ShouldCreateLogMessage :: "int \<Rightarrow> int \<Rightarrow> bool" where
  "ShouldCreateLogMessage level severity = (severity \<ge> GetMinLogLevel level)"

section \<open>The platforms\<close>

datatype platform = Android | IOS | LinuxOS | MacOS | Windows

text \<open>
  What the sources call \<open>LOG_INFO\<close>: on Android they name \<open>TDF_LOG_INFO\<close>; the others take the macro of
  \<open>syslog.h\<close>, on Windows a macro of the file with the same value.
\<close>

definition log_info :: "platform \<Rightarrow> int" where
  "log_info p = (if p = Android then TDF_LOG_INFO else 6)"

definition GetVlogVerbosity :: "platform \<Rightarrow> int \<Rightarrow> int" where
  "GetVlogVerbosity p level = max (- 1) (log_info p - GetMinLogLevel level)"

definition kLogSeverityNames :: "string list" where
  "kLogSeverityNames = [''INFO'', ''WARNING'', ''ERROR'', ''FATAL'']"

definition GetNameForLogSeverity :: "platform \<Rightarrow> int \<Rightarrow> string" where
  "GetNameForLogSeverity p severity =
     (if severity \<ge> log_info p \<and> severity < TDF_LOG_NUM_SEVERITIES then kLogSeverityNames ! nat severity
      else ''UNKNOWN'')"

section \<open>Text\<close>

function StripDots :: "string \<Rightarrow> string" where
  "StripDots path = (if take 3 path = ''../'' then StripDots (drop 3 path) else path)"
  by pat_completeness auto
termination
proof (relation "measure length")
  show "(drop 3 path, path) \<in> measure length" if "take 3 path = ''../''" for path :: string
    using that by (cases path) auto
qed simp

declare StripDots.simps [simp del]

text \<open>\<open>strrchr\<close>: the position of the last occurrence.\<close>

fun strrchr :: "char \<Rightarrow> string \<Rightarrow> nat option" where
  "strrchr c [] = None"
| "strrchr c (x # xs) =
     (case strrchr c xs of Some i \<Rightarrow> Some (Suc i) | None \<Rightarrow> if x = c then Some 0 else None)"

definition StripPath :: "string \<Rightarrow> string" where
  "StripPath path = (case strrchr CHR ''/'' path of Some p \<Rightarrow> drop (p + 1) path | None \<Rightarrow> path)"

text \<open>\<open>stream << n\<close> for an \<open>int\<close>.\<close>

fun show_nat :: "nat \<Rightarrow> string" where
  "show_nat n = (if n < 10 then [''0123456789'' ! n] else show_nat (n div 10) @ [''0123456789'' ! (n mod 10)])"

declare show_nat.simps [simp del]

definition show_int :: "int \<Rightarrow> string" where
  "show_int n = (if n < 0 then ''-'' @ show_nat (nat (- n)) else show_nat (nat n))"

definition newline :: string where
  "newline = [CHR 10]"

section \<open>Messages\<close>

text \<open>The text that the constructor puts into the stream.\<close>

definition LogMessage_new :: "platform \<Rightarrow> int \<Rightarrow> string \<Rightarrow> int \<Rightarrow> string option \<Rightarrow> string" where
  "LogMessage_new p severity file line condition =
     ''['' @ (if severity \<ge> log_info p then GetNameForLogSeverity p severity else ''VERBOSE'' @ show_int (- severity))
     @ '':'' @ (if severity > log_info p then StripDots file else StripPath file)
     @ ''('' @ show_int line @ '')] ''
     @ (case condition of Some c \<Rightarrow> ''Check failed: '' @ c @ ''. '' | None \<Rightarrow> '''')"

datatype android_priority =
    ANDROID_LOG_UNKNOWN | ANDROID_LOG_VERBOSE | ANDROID_LOG_INFO | ANDROID_LOG_WARN | ANDROID_LOG_ERROR
  | ANDROID_LOG_FATAL

datatype sink = Syslog string | Stderr string | AndroidLog android_priority string | Delegated nat string

datatype delegate = NoDelegate | Builtin | Client nat

text \<open>\<open>LogMessage::SetDelegate\<close>, with an empty function or one of the client.\<close>

definition SetDelegate :: "nat option \<Rightarrow> delegate" where
  "SetDelegate f = (case f of None \<Rightarrow> NoDelegate | Some k \<Rightarrow> Client k)"

definition GetDelegate :: "delegate \<Rightarrow> delegate" where
  "GetDelegate d = d"

text \<open>The priority that the delegate of Android is initialised with and then switches on.\<close>

definition android_log_priority :: "int \<Rightarrow> android_priority" where
  "android_log_priority severity =
     (if severity = TDF_LOG_INFO then ANDROID_LOG_INFO
      else if severity = TDF_LOG_WARNING then ANDROID_LOG_WARN
      else if severity = TDF_LOG_ERROR then ANDROID_LOG_ERROR
      else if severity = TDF_LOG_FATAL then ANDROID_LOG_FATAL
      else if severity < 0 then ANDROID_LOG_VERBOSE else ANDROID_LOG_UNKNOWN)"

text \<open>The delegates that are compiled in; the second component says that the process aborts.\<close>

definition delegate_adr :: "string \<Rightarrow> int \<Rightarrow> sink list \<times> bool" where
  "delegate_adr text severity = ([AndroidLog (android_log_priority severity) text], severity \<ge> TDF_LOG_FATAL)"

definition delegate_ios :: "string \<Rightarrow> int \<Rightarrow> sink list \<times> bool" where
  "delegate_ios text severity = ([Syslog (''tdf: '' @ text)], severity \<ge> TDF_LOG_FATAL)"

text \<open>The destructors.  A delegate of the client is a parameter that says whether it aborts.\<close>

definition LogMessage_destroy_linux :: "string \<Rightarrow> int \<Rightarrow> sink list \<times> bool" where
  "LogMessage_destroy_linux stream severity = ([Syslog (stream @ newline)], severity \<ge> TDF_LOG_FATAL)"

definition LogMessage_destroy_mac :: "string \<Rightarrow> int \<Rightarrow> sink list \<times> bool" where
  "LogMessage_destroy_mac stream severity = ([Syslog (stream @ newline)], severity \<ge> TDF_LOG_FATAL)"

definition LogMessage_destroy_win :: "string \<Rightarrow> int \<Rightarrow> sink list \<times> bool" where
  "LogMessage_destroy_win stream severity = ([Stderr (stream @ newline)], severity \<ge> TDF_LOG_FATAL)"

definition LogMessage_destroy_adr ::
    "(nat \<Rightarrow> string \<Rightarrow> int \<Rightarrow> bool) \<Rightarrow> delegate \<Rightarrow> string \<Rightarrow> int \<Rightarrow> sink list \<times> bool" where
  "LogMessage_destroy_adr client d stream severity =
     (let text = stream @ newline in
      case d of
        NoDelegate \<Rightarrow> ([], False)
      | Builtin \<Rightarrow> delegate_adr text severity
      | Client k \<Rightarrow> ([Delegated k text], client k text severity))"

definition LogMessage_destroy_ios ::
    "(nat \<Rightarrow> string \<Rightarrow> int \<Rightarrow> bool) \<Rightarrow> delegate \<Rightarrow> string \<Rightarrow> int \<Rightarrow> sink list \<times> bool" where
  "LogMessage_destroy_ios client d stream severity =
     (let text = stream @ newline in
      case d of
        NoDelegate \<Rightarrow> ([], False)
      | Builtin \<Rightarrow> delegate_ios text severity
      | Client k \<Rightarrow> ([Delegated k text], client k text severity))"

definition LogMessage_destroy ::
    "platform \<Rightarrow> (nat \<Rightarrow> string \<Rightarrow> int \<Rightarrow> bool) \<Rightarrow> delegate \<Rightarrow> string \<Rightarrow> int \<Rightarrow> sink list \<times> bool" where
  "LogMessage_destroy p client d stream severity =
     (case p of
        Android \<Rightarrow> LogMessage_destroy_adr client d stream severity
      | IOS \<Rightarrow> LogMessage_destroy_ios client d stream severity
      | LinuxOS \<Rightarrow> LogMessage_destroy_linux stream severity
      | MacOS \<Rightarrow> LogMessage_destroy_mac stream severity
      | Windows \<Rightarrow> LogMessage_destroy_win stream severity)"

section \<open>The macros\<close>

text \<open>
  \<open>TDF_BASE_LOG(severity) << text\<close>: the message is made, filled and destroyed, or not made at all.
  \<open>TDF_BASE_CHECK(condition) << text\<close> makes a fatal message unless the condition holds; \<open>TDF_BASE_DCHECK\<close> is the
  same in a debug build and evaluates nothing otherwise.
\<close>

definition TDF_BASE_LOG ::
    "platform \<Rightarrow> (nat \<Rightarrow> string \<Rightarrow> int \<Rightarrow> bool) \<Rightarrow> delegate \<Rightarrow> int \<Rightarrow> int \<Rightarrow> string \<Rightarrow> int \<Rightarrow> string \<Rightarrow> sink list \<times> bool" where
  "TDF_BASE_LOG p client d level severity file line text =
     (if ShouldCreateLogMessage level severity
      then LogMessage_destroy p client d (LogMessage_new p severity file line None @ text) severity
      else ([], False))"

definition TDF_BASE_CHECK ::
    "platform \<Rightarrow> (nat \<Rightarrow> string \<Rightarrow> int \<Rightarrow> bool) \<Rightarrow> delegate \<Rightarrow> string \<Rightarrow> int \<Rightarrow> string \<Rightarrow> bool \<Rightarrow> string \<Rightarrow> sink list \<times> bool" where
  "TDF_BASE_CHECK p client d file line cond_text holds text =
     (if \<not> holds
      then LogMessage_destroy p client d (LogMessage_new p TDF_LOG_FATAL file line (Some cond_text) @ text) TDF_LOG_FATAL
      else ([], False))"

definition TDF_BASE_DCHECK ::
    "bool \<Rightarrow> platform \<Rightarrow> (nat \<Rightarrow> string \<Rightarrow> int \<Rightarrow> bool) \<Rightarrow> delegate \<Rightarrow> string \<Rightarrow> int \<Rightarrow> string \<Rightarrow> bool \<Rightarrow> string \<Rightarrow> sink list \<times> bool" where
  "TDF_BASE_DCHECK debug p client d file line cond_text holds text =
     (if debug then TDF_BASE_CHECK p client d file line cond_text holds text else ([], False))"

text \<open>\<open>TDF_BASE_NOTREACHED()\<close>: the process aborts in either build, with a message in a debug build.\<close>

definition TDF_BASE_NOTREACHED ::
    "bool \<Rightarrow> platform \<Rightarrow> (nat \<Rightarrow> string \<Rightarrow> int \<Rightarrow> bool) \<Rightarrow> delegate \<Rightarrow> string \<Rightarrow> int \<Rightarrow> sink list \<times> bool" where
  "TDF_BASE_NOTREACHED debug p client d file line =
     (fst (TDF_BASE_DCHECK debug p client d file line ''false'' False ''''), True)"

text \<open>\<open>TDF_BASE_DLOG\<close> is \<open>TDF_BASE_LOG\<close> in a debug build and nothing otherwise.\<close>

definition TDF_BASE_DLOG ::
    "bool \<Rightarrow> platform \<Rightarrow> (nat \<Rightarrow> string \<Rightarrow> int \<Rightarrow> bool) \<Rightarrow> delegate \<Rightarrow> int \<Rightarrow> int \<Rightarrow> string \<Rightarrow> int \<Rightarrow> string \<Rightarrow> sink list \<times> bool" where
  "TDF_BASE_DLOG debug p client d level severity file line text =
     (if debug then TDF_BASE_LOG p client d level severity file line text else ([], False))"

definition TDF_BASE_NOTIMPLEMENTED ::
    "platform \<Rightarrow> (nat \<Rightarrow> string \<Rightarrow> int \<Rightarrow> bool) \<Rightarrow> delegate \<Rightarrow> int \<Rightarrow> string \<Rightarrow> int \<Rightarrow> string \<Rightarrow> sink list \<times> bool" where
  "TDF_BASE_NOTIMPLEMENTED p client d level file line pretty_function =
     TDF_BASE_LOG p client d level TDF_LOG_ERROR file line (''Not implemented in: '' @ pretty_function)"

definition TDF_BASE_VLOG_IS_ON :: "platform \<Rightarrow> int \<Rightarrow> int \<Rightarrow> bool" where
  "TDF_BASE_VLOG_IS_ON p level verbose_level = (verbose_level \<le> GetVlogVerbosity p level)"

text \<open>The output of a string view; the conversions of the standard library to UTF-8 are parameters, \<open>None\<close> where they throw.\<close>

definition stream_view ::
    "(u16 list \<Rightarrow> u8 list option) \<Rightarrow> (u32 list \<Rightarrow> u8 list option) \<Rightarrow> bool \<Rightarrow> usv \<Rightarrow> u8 list option res" where
  "stream_view conv16 conv32 debug v =
     (case sv_encoding v of
        Latin1 \<Rightarrow> bind_res (latin1_value debug v) (\<lambda>s. Inr (Some s))
      | Utf16 \<Rightarrow> bind_res (utf16_value debug v) (\<lambda>s. Inr (conv16 s))
      | Utf32 \<Rightarrow> bind_res (utf32_value debug v) (\<lambda>s. Inr (conv32 s))
      | Utf8 \<Rightarrow> bind_res (utf8_value debug v) (\<lambda>s. Inr (Some s))
      | Unkown \<Rightarrow> if debug then Inl CheckFailed else Inr (Some []))"

section \<open>What the logging does\<close>

lemma StripDots_spec:
  "\<exists>n. path = concat (replicate n ''../'') @ StripDots path \<and> take 3 (StripDots path) \<noteq> ''../''"
proof (induction path rule: StripDots.induct)
  case (1 path)
  show ?case
  proof (cases "take 3 path = ''../''")
    case True
    then obtain n where "drop 3 path = concat (replicate n ''../'') @ StripDots (drop 3 path)"
      "take 3 (StripDots (drop 3 path)) \<noteq> ''../''" using 1 by blast
    then have "path = concat (replicate (Suc n) ''../'') @ StripDots (drop 3 path)"
      using append_take_drop_id [of 3 path] True by simp
    moreover have "StripDots path = StripDots (drop 3 path)"
      using True by (subst StripDots.simps) simp
    ultimately show ?thesis using \<open>take 3 (StripDots (drop 3 path)) \<noteq> ''../''\<close> by metis
  next
    case False
    then have "StripDots path = path" by (subst StripDots.simps) simp
    then show ?thesis using False by (auto intro: exI [of _ 0])
  qed
qed

lemma strrchr_None: "strrchr c xs = None \<longleftrightarrow> c \<notin> set xs"
  by (induction xs) (auto split: option.splits)

lemma strrchr_Some: "strrchr c xs = Some i \<Longrightarrow> xs = take i xs @ c # drop (Suc i) xs \<and> c \<notin> set (drop (Suc i) xs)"
  by (induction xs arbitrary: i) (auto split: option.splits if_splits simp: strrchr_None)

lemma StripPath_spec:
  "CHR ''/'' \<notin> set (StripPath path)
    \<and> (StripPath path = path \<or> (\<exists>dir. path = dir @ ''/'' @ StripPath path))"
proof (cases "strrchr CHR ''/'' path")
  case None
  then have "StripPath path = path" by (simp add: StripPath_def)
  then show ?thesis using None by (simp add: strrchr_None)
next
  case (Some i)
  from strrchr_Some [OF this] show ?thesis using Some by (auto simp: StripPath_def)
qed

end
