(* ===== verification/Fs_Text_Props.thy ===== *)
theory Fs_Text_Props
  imports Fs_Base64_Facts Fs_String_Facts Fs_Logging
begin

text \<open>
  The properties of the components that work on text: Base64, \<open>unicode_string_view\<close> and the logging.
\<close>

section \<open>Base64\<close>

definition sample_bytes :: "u8 list" where
  "sample_bytes = [0, 255, 16, 131, 16]"

text \<open>C31. \<open>Encode\<close> computes the standard encoding, for every buffer of at least two bytes and less than
  \<open>2 ^ 63\<close>, the largest object a program can have: the digits of the groups of three bytes read as
  numbers of 24 bits, and the padding.\<close>

theorem Encode_equals_reference:
  assumes "2 \<le> length bs" and "length bs < 2 ^ 63"
  shows "Encode bs (word_of_nat (length bs)) = Inr (b64 bs)"
  by (rule Encode_b64 [OF assms])

theorem Encode_equals_reference_witness:
  "Encode sample_bytes 5 = Inr (map of_char ''AP8QgxA='')"
proof -
  have b: "b64 sample_bytes = map of_char ''AP8QgxA=''"
    by (simp add: sample_bytes_def digit_def group24_def kEncodingTable_def pad_def)
  have l: "length sample_bytes = 5" by (simp add: sample_bytes_def)
  have "Encode sample_bytes (word_of_nat 5) = Inr (b64 sample_bytes)"
    using Encode_equals_reference [of sample_bytes] unfolding l by simp
  then show ?thesis unfolding b by (simp only: of_nat_numeral)
qed

text \<open>C30. What is encoded is decoded: for every buffer of two bytes or more \<open>Decode\<close>, applied to what
  \<open>Encode\<close> returns, gives the bytes back, whether \<open>char\<close> is signed or not.\<close>

theorem base64_roundtrip:
  assumes "2 \<le> length bs" and "length bs < 2 ^ 63"
  shows "bind_res (Encode bs (word_of_nat (length bs))) (Decode char_signed) = Inr bs"
proof -
  have "bs \<noteq> []" using assms(1) by auto
  moreover have "length (b64 bs) < 2 ^ 64" using assms(2) by (simp add: length_b64)
  ultimately show ?thesis by (simp add: Encode_b64 [OF assms] Decode_b64)
qed

theorem base64_roundtrip_witness:
  "bind_res (Encode sample_bytes 5) (Decode True) = Inr sample_bytes"
  using base64_roundtrip [of sample_bytes True] by (simp add: sample_bytes_def)

text \<open>C32. Exactly which strings \<open>Decode\<close> survives.  A string whose length is not a multiple of four is
  answered with the empty string; any other is read out of range if it is empty, or if \<open>char\<close> is signed
  and the string has a character above 127, which is a negative index into the table; every other
  string is decoded, characters outside the alphabet included.\<close>

theorem Decode_returns_iff:
  assumes "length s < 2 ^ 64"
  shows "returns (Decode char_signed s) \<longleftrightarrow>
    length s mod 4 \<noteq> 0 \<or> (s \<noteq> [] \<and> (char_signed \<longrightarrow> (\<forall>c \<in> set s. 0 \<le> sint c)))"
  by (rule Decode_returns [OF assms])

theorem Decode_returns_iff_witness:
  "\<not> returns (Decode False []) \<and> returns (Decode True (map of_char ''A*B=''))
    \<and> \<not> returns (Decode True [65, 200, 66, 67])"
proof -
  have "\<forall>c \<in> set (map of_char ''A*B=''). 0 \<le> sint (c :: u8)" "\<not> 0 \<le> sint (200 :: u8)" by code_simp+
  then show ?thesis
    using Decode_returns_iff [of "[]" False] Decode_returns_iff [of "map of_char ''A*B=''" True]
      Decode_returns_iff [of "[65, 200, 66, 67]" True] by simp
qed

section \<open>unicode\_string\_view\<close>

definition sample_views :: "nat \<Rightarrow> usv" where
  "sample_views i = (if i = 0 then sv_latin1 [104, 105] else if i = 1 then sv_u8 [195, 164] else sv_default)"

lemma sample_views_wf: "sv_wf (sample_views i)"
  by (simp add: sample_views_def sv_tight_wf)

text \<open>C33. Programs over string views: every sequence of assignments and copies between well-formed views,
  self-assignment and copies of a view onto itself included, returns without touching a member of the union that is
  not alive, leaves the views well-formed, and does to their values what assignment and copying mean, with one
  exception: a UTF-8, UTF-16 or UTF-32 string assigned to a view that has that encoding already is lost.  If all views
  have an encoding, and their string, at the start, they still do at the end, and no string was overwritten without being
  destroyed.\<close>

theorem views_refine_values:
  assumes "\<forall>i. sv_wf (s i)"
  shows "\<exists>s'. sv_run es s = Inr s' \<and> (\<forall>i. sv_wf (s' i)) \<and> sv_value \<circ> s' = fold value_step es (sv_value \<circ> s)
    \<and> ((\<forall>i. sv_whole (s i)) \<longrightarrow> (\<forall>i. sv_whole (s' i)))"
  using sv_run_value [OF assms, of es] sv_run_whole [of s es] by blast

theorem views_refine_values_witness:
  "\<exists>s'. sv_run [OpAssign 2 0, OpU8 1 [97], OpLatin1 0 [98], OpU16 2 [99]] sample_views = Inr s'
    \<and> sv_value (s' 0) = Latin1Str [98] \<and> sv_value (s' 1) = U8Str [195, 164] \<and> sv_value (s' 2) = U16Str [99]"
proof -
  obtain s' where s': "sv_run [OpAssign 2 0, OpU8 1 [97], OpLatin1 0 [98], OpU16 2 [99]] sample_views = Inr s'"
    "sv_value \<circ> s' = fold value_step [OpAssign 2 0, OpU8 1 [97], OpLatin1 0 [98], OpU16 2 [99]] (sv_value \<circ> sample_views)"
    using views_refine_values [of sample_views "[OpAssign 2 0, OpU8 1 [97], OpLatin1 0 [98], OpU16 2 [99]]"]
      sample_views_wf by blast
  have "sv_value (s' i) = fold value_step [OpAssign 2 0, OpU8 1 [97], OpLatin1 0 [98], OpU16 2 [99]]
      (sv_value \<circ> sample_views) i" for i
    using fun_cong [OF s'(2), of i] by simp
  then show ?thesis using s'(1) by (simp add: sample_views_def)
qed

text \<open>C34. The comparisons are those of a strict order of the values.  On views with one known encoding \<open>==\<close> is
  equality of the strings and \<open><\<close> their lexicographic order, irreflexive, transitive and total; \<open>>\<close> is \<open><\<close> the other
  way round, \<open><=\<close> and \<open>>=\<close> are \<open><\<close> or \<open>==\<close>, and \<open>>\<close> or \<open>==\<close>, and \<open>!=\<close> is the negation of \<open>==\<close>.  Between two encodings none holds but
  \<open>!=\<close>; two views without an encoding are neither equal nor ordered, and yet \<open><=\<close> and \<open>>=\<close> hold.\<close>

theorem view_order:
  assumes "sv_wf a" and "sv_wf b" and "sv_wf c"
  shows "\<exists>l e g. sv_less a b = Inr l \<and> sv_eq a b = Inr e \<and> sv_greater a b = Inr g
    \<and> sv_neq a b = Inr (\<not> e) \<and> sv_less b a = Inr g \<and> sv_greater b a = Inr l \<and> sv_less a a = Inr False
    \<and> (e \<longleftrightarrow> sv_encoding a \<noteq> Unkown \<and> sv_value a = sv_value b)
    \<and> (l \<longleftrightarrow> (case (sv_value a, sv_value b) of
          (Latin1Str s, Latin1Str t) \<Rightarrow> s < t | (U8Str s, U8Str t) \<Rightarrow> s < t
        | (U16Str s, U16Str t) \<Rightarrow> s < t | (U32Str s, U32Str t) \<Rightarrow> s < t | _ \<Rightarrow> False))
    \<and> (if sv_encoding a \<noteq> sv_encoding b
       then \<not> l \<and> \<not> e \<and> \<not> g \<and> sv_less_eq a b = Inr False \<and> sv_greater_eq a b = Inr False
       else if sv_encoding a = Unkown
       then \<not> l \<and> \<not> e \<and> \<not> g \<and> sv_less_eq a b = Inr True \<and> sv_greater_eq a b = Inr True
       else (l \<or> e \<or> g) \<and> \<not> (l \<and> e) \<and> \<not> (l \<and> g) \<and> \<not> (e \<and> g)
         \<and> sv_less_eq a b = Inr (l \<or> e) \<and> sv_greater_eq a b = Inr (g \<or> e))
    \<and> (l \<and> sv_less b c = Inr True \<longrightarrow> sv_less a c = Inr True)"
proof -
  let ?a = "sv_value a" and ?b = "sv_value b"
  note cmp = sv_compare_value [OF assms(1,2)] sv_compare_value(2,3) [OF assms(2,1)] sv_compare_value(2) [OF assms(1,1)]
    and k = kind_of_value [OF assms(1)] kind_of_value [OF assms(2)]
  have t: "value_less ?a ?b \<and> sv_less b c = Inr True \<longrightarrow> sv_less a c = Inr True"
    using value_less_trans by (auto simp: sv_compare_value assms)
  have d: "sv_encoding a \<noteq> sv_encoding b \<or> sv_encoding a = Unkown \<Longrightarrow>
      \<not> value_less ?a ?b \<and> \<not> value_less ?b ?a \<and> \<not> (sv_encoding a \<noteq> Unkown \<and> ?a = ?b)"
    using value_less_kind [of ?a ?b] value_less_kind [of ?b ?a] k by auto
  have o: "sv_encoding a = sv_encoding b \<Longrightarrow> value_less ?a ?b \<or> ?a = ?b \<or> value_less ?b ?a"
    using value_less_total [of ?a ?b] k by simp
  have x: "\<not> (value_less ?a ?b \<and> value_less ?b ?a)" using value_less_trans value_less_irrefl by blast
  have lex: "value_less ?a ?b \<longleftrightarrow> (case (?a, ?b) of
      (Latin1Str s, Latin1Str t) \<Rightarrow> s < t | (U8Str s, U8Str t) \<Rightarrow> s < t
    | (U16Str s, U16Str t) \<Rightarrow> s < t | (U32Str s, U32Str t) \<Rightarrow> s < t | _ \<Rightarrow> False)"
    by (simp split: sv_union.split)
  have parts: "sv_less a b = Inr (value_less ?a ?b)" "sv_eq a b = Inr (sv_encoding a \<noteq> Unkown \<and> ?a = ?b)"
    "sv_greater a b = Inr (value_less ?b ?a)" "sv_neq a b = Inr (\<not> (sv_encoding a \<noteq> Unkown \<and> ?a = ?b))"
    "sv_less b a = Inr (value_less ?b ?a)" "sv_greater b a = Inr (value_less ?a ?b)" "sv_less a a = Inr False"
    using cmp by (simp_all add: sv_neq_def)
  have rest: "if sv_encoding a \<noteq> sv_encoding b
     then \<not> value_less ?a ?b \<and> \<not> (sv_encoding a \<noteq> Unkown \<and> ?a = ?b) \<and> \<not> value_less ?b ?a
       \<and> sv_less_eq a b = Inr False \<and> sv_greater_eq a b = Inr False
     else if sv_encoding a = Unkown
     then \<not> value_less ?a ?b \<and> \<not> (sv_encoding a \<noteq> Unkown \<and> ?a = ?b) \<and> \<not> value_less ?b ?a
       \<and> sv_less_eq a b = Inr True \<and> sv_greater_eq a b = Inr True
     else (value_less ?a ?b \<or> (sv_encoding a \<noteq> Unkown \<and> ?a = ?b) \<or> value_less ?b ?a)
       \<and> \<not> (value_less ?a ?b \<and> sv_encoding a \<noteq> Unkown \<and> ?a = ?b) \<and> \<not> (value_less ?a ?b \<and> value_less ?b ?a)
       \<and> \<not> ((sv_encoding a \<noteq> Unkown \<and> ?a = ?b) \<and> value_less ?b ?a)
       \<and> sv_less_eq a b = Inr (value_less ?a ?b \<or> (sv_encoding a \<noteq> Unkown \<and> ?a = ?b))
       \<and> sv_greater_eq a b = Inr (value_less ?b ?a \<or> (sv_encoding a \<noteq> Unkown \<and> ?a = ?b))"
    using cmp(4,5) d o x by auto
  show ?thesis
    by (intro exI conjI) (rule parts refl lex rest t)+
qed

theorem view_order_witness:
  "sv_less (sv_u8 [1, 2]) (sv_u8 [1, 200]) = Inr True \<and> sv_less_eq (sv_u8 [1]) (sv_latin1 [1]) = Inr False
    \<and> sv_greater_eq (sv_u8 [1]) (sv_latin1 [1]) = Inr False"
proof -
  have "sv_less (sv_u8 [1, 2]) (sv_u8 [1, 200]) = Inr True" by code_simp
  moreover have "sv_encoding (sv_u8 [1]) \<noteq> sv_encoding (sv_latin1 [1])" by (simp add: sv_u8_def sv_latin1_def)
  ultimately show ?thesis
    using view_order [of "sv_u8 [1]" "sv_latin1 [1]" "sv_u8 []"] by (auto simp: sv_tight_wf)
qed

text \<open>Views that compare equal have the same hash, whatever the hash functions of the standard library.\<close>

theorem equal_views_hash_alike:
  assumes "sv_wf a" and "sv_wf b" and "sv_eq a b = Inr True"
  shows "sv_hash h1 h8 h16 h32 a = sv_hash h1 h8 h16 h32 b"
  using assms(3) by (simp add: sv_hash_value assms(1,2) sv_compare_value(1) [OF assms(1,2)])

theorem equal_views_hash_alike_witness:
  "sv_hash (\<lambda>_. 1) (\<lambda>s. word_of_nat (length s)) (\<lambda>_. 2) (\<lambda>_. 3) (sv_u8 [5, 6])
    = sv_hash (\<lambda>_. 1) (\<lambda>s. word_of_nat (length s)) (\<lambda>_. 2) (\<lambda>_. 3) ((sv_u8 [5, 6])\<lparr>sv_leaks := 1\<rparr>)"
proof -
  have "sv_eq (sv_u8 [5, 6]) ((sv_u8 [5, 6])\<lparr>sv_leaks := 1\<rparr>) = Inr True" by code_simp
  moreover have "sv_wf ((sv_u8 [5, 6])\<lparr>sv_leaks := 1\<rparr>)" by (simp add: sv_wf_def sv_u8_def)
  ultimately show ?thesis using equal_views_hash_alike [of "sv_u8 [5, 6]"] by (simp add: sv_tight_wf)
qed

section \<open>Logging\<close>

text \<open>What a message says.  On Android a message of the four levels starts with the name of its level;
  the other platforms compare with the \<open>LOG_INFO\<close> of \<open>syslog.h\<close>, which is above all levels, and every
  message says VERBOSE and the negated level, with the path stripped to the file name.\<close>

theorem LogMessage_text:
  assumes "0 \<le> severity" and "severity < TDF_LOG_NUM_SEVERITIES"
  shows "LogMessage_new p severity file line condition =
    (if p = Android
     then ''['' @ kLogSeverityNames ! nat severity @ '':''
       @ (if severity = TDF_LOG_INFO then StripPath file else StripDots file)
     else ''[VERBOSE'' @ (if severity = 0 then ''0'' else ''-'' @ show_nat (nat severity)) @ '':'' @ StripPath file)
    @ ''('' @ show_int line @ '')] ''
    @ (case condition of Some c \<Rightarrow> ''Check failed: '' @ c @ ''. '' | None \<Rightarrow> '''')"
proof -
  have z: "show_nat 0 = ''0''" by (subst show_nat.simps) simp
  show ?thesis
    using assms z by (auto simp: LogMessage_new_def GetNameForLogSeverity_def log_info_def log_levels show_int_def)
qed

theorem LogMessage_text_witness:
  "LogMessage_new Android 2 ''../src/a.cc'' 17 None = ''[ERROR:src/a.cc(17)] ''
   \<and> LogMessage_new LinuxOS 2 ''../src/a.cc'' 17 None = ''[VERBOSE-2:a.cc(17)] ''"
proof -
  have d: "StripDots ''../src/a.cc'' = ''src/a.cc''" "StripPath ''../src/a.cc'' = ''a.cc''"
    "show_int 17 = ''17''" "show_nat 2 = ''2''" by code_simp+
  show ?thesis
    using LogMessage_text [of 2 Android "''../src/a.cc''" 17 None]
      LogMessage_text [of 2 LinuxOS "''../src/a.cc''" 17 None]
    by (simp add: d log_levels kLogSeverityNames_def)
qed

text \<open>When a failed check stops the program: \<open>TDF_BASE_CHECK\<close> aborts exactly when its condition does not
  hold and the platform writes its messages itself, or the delegate is the one compiled in, or the
  client's delegate aborts; on Android and iOS a delegate of the client that returns lets the program go on.\<close>

theorem failed_check_aborts:
  "snd (TDF_BASE_CHECK p client d file line cond_text holds text) \<longleftrightarrow>
    \<not> holds \<and> (p = LinuxOS \<or> p = MacOS \<or> p = Windows \<or> d = Builtin
      \<or> (\<exists>k. d = Client k
          \<and> client k (LogMessage_new p TDF_LOG_FATAL file line (Some cond_text) @ text @ newline) TDF_LOG_FATAL))"
  by (cases p; cases d)
    (auto simp: TDF_BASE_CHECK_def LogMessage_destroy_def LogMessage_destroy_adr_def LogMessage_destroy_ios_def
      LogMessage_destroy_linux_def LogMessage_destroy_mac_def LogMessage_destroy_win_def delegate_adr_def
      delegate_ios_def Let_def)

end
