(* ===== verification/Fs_Thread_Pool.thy ===== *)
theory Fs_Thread_Pool
  imports Fs_Prelude
begin

text \<open>
  \<open>include/footstone/thread_pool.h\<close>: worker threads that share a queue of tasks under a mutex and sleep on a
  condition variable.  A step is a critical section, a notification, or the run of a task; \<open>None\<close> means that it
  cannot be made.  Clients enqueue, which is a critical section and a notification after it; the destructor
  stops the pool, notifies all, and joins.  The state records what was enqueued, started and finished.
\<close>

section \<open>The pool\<close>

text \<open>
  A worker is about to test the predicate of \<open>condition_.wait\<close> with the lock (\<open>Awake\<close>), sleeps in the condition
  variable, runs a task, or has left.
\<close>

datatype 'a tp_pc = Awake | Asleep | Running 'a | Exited

text \<open>
  Of the destructor: it has not begun, it has set \<open>stop_\<close>, it has called \<open>notify_all\<close> and joins.  \<open>tp_due\<close> counts the
  clients that have enqueued a task and not yet called \<open>notify_one\<close>.
\<close>

datatype tp_phase = Open | Stopping | Joining

record 'a pool =
  tp_threads :: nat
  tp_pc :: "nat \<Rightarrow> 'a tp_pc"
  tp_tasks :: "'a list"
  tp_stop :: bool
  tp_phase :: tp_phase
  tp_due :: nat
  tp_enqueued :: "'a list"
  tp_started :: "'a list"
  tp_finished :: "'a list"

definition ThreadPool_new :: "nat \<Rightarrow> 'a pool" where
  "ThreadPool_new n = \<lparr>tp_threads = n, tp_pc = (\<lambda>_. Awake), tp_tasks = [], tp_stop = False, tp_phase = Open,
     tp_due = 0, tp_enqueued = [], tp_started = [], tp_finished = []\<rparr>"

text \<open>
  \<open>Enqueue\<close> up to the end of its critical section, after which its \<open>notify_one\<close> is due.  \<open>None\<close> is the exception
  that says that the pool is stopped.
\<close>

definition Enqueue :: "'a \<Rightarrow> 'a pool \<Rightarrow> 'a pool option" where
  "Enqueue x s =
     (if tp_stop s then None
      else Some (s\<lparr>tp_tasks := tp_tasks s @ [x], tp_enqueued := tp_enqueued s @ [x], tp_due := Suc (tp_due s)\<rparr>))"

text \<open>
  The body of a worker.  \<open>condition_.wait\<close> tests its predicate and goes to sleep, which releases the lock, in one
  step.  A worker leaves when the pool is stopped and there is no task, takes the first task otherwise, and
  runs it without the lock.
\<close>

definition worker_step :: "nat \<Rightarrow> 'a pool \<Rightarrow> 'a pool option" where
  "worker_step i s =
     (case tp_pc s i of
        Awake \<Rightarrow>
          (if \<not> (tp_stop s \<or> tp_tasks s \<noteq> []) then Some (s\<lparr>tp_pc := (tp_pc s)(i := Asleep)\<rparr>)
           else if tp_stop s \<and> tp_tasks s = [] then Some (s\<lparr>tp_pc := (tp_pc s)(i := Exited)\<rparr>)
           else Some (s\<lparr>tp_pc := (tp_pc s)(i := Running (hd (tp_tasks s))), tp_tasks := tl (tp_tasks s),
                       tp_started := tp_started s @ [hd (tp_tasks s)]\<rparr>))
      | Asleep \<Rightarrow> None
      | Running x \<Rightarrow> Some (s\<lparr>tp_pc := (tp_pc s)(i := Awake), tp_finished := tp_finished s @ [x]\<rparr>)
      | Exited \<Rightarrow> None)"

text \<open>Waking up: the worker tests the predicate again.  Without a notification it is spurious.\<close>

definition wake :: "nat \<Rightarrow> 'a pool \<Rightarrow> 'a pool option" where
  "wake i s = (if i < tp_threads s \<and> tp_pc s i = Asleep then Some (s\<lparr>tp_pc := (tp_pc s)(i := Awake)\<rparr>) else None)"

text \<open>\<open>notify_one\<close> of a client wakes one of the sleeping workers, whichever it is, and is lost when none sleeps.\<close>

definition notify_one :: "nat option \<Rightarrow> 'a pool \<Rightarrow> 'a pool option" where
  "notify_one w s =
     (if tp_due s = 0 then None
      else case w of
        Some i \<Rightarrow> map_option (\<lambda>s. s\<lparr>tp_due := tp_due s - 1\<rparr>) (wake i s)
      | None \<Rightarrow> if \<exists>i \<in> {0..<tp_threads s}. tp_pc s i = Asleep then None else Some (s\<lparr>tp_due := tp_due s - 1\<rparr>))"

text \<open>The destructor, in three parts: it sets \<open>stop_\<close>, notifies all, and joins every thread.\<close>

definition pool_stop :: "'a pool \<Rightarrow> 'a pool option" where
  "pool_stop s = (if tp_phase s = Open then Some (s\<lparr>tp_stop := True, tp_phase := Stopping\<rparr>) else None)"

definition notify_all :: "'a pool \<Rightarrow> 'a pool option" where
  "notify_all s =
     (if tp_phase s = Stopping
      then Some (s\<lparr>tp_pc := (\<lambda>i. if tp_pc s i = Asleep then Awake else tp_pc s i), tp_phase := Joining\<rparr>)
      else None)"

definition joined :: "'a pool \<Rightarrow> bool" where
  "joined s = (tp_phase s = Joining \<and> (\<forall>i \<in> {0..<tp_threads s}. tp_pc s i = Exited))"

section \<open>Interleavings\<close>

text \<open>What happens without a new call from outside: steps of the workers, and notifications that are due.\<close>

datatype pool_event = Work nat | NotifyOne "nat option" | NotifyAll | Spurious nat

fun pool_do :: "pool_event \<Rightarrow> 'a pool \<Rightarrow> 'a pool option" where
  "pool_do (Work i) s = (if i < tp_threads s then worker_step i s else None)"
| "pool_do (NotifyOne w) s = notify_one w s"
| "pool_do NotifyAll s = notify_all s"
| "pool_do (Spurious i) s = wake i s"

inductive tp_step :: "'a pool \<Rightarrow> 'a pool \<Rightarrow> bool" where
  step_enqueue: "Enqueue x s = Some s' \<Longrightarrow> tp_step s s'"
| step_stop: "pool_stop s = Some s' \<Longrightarrow> tp_step s s'"
| step_event: "pool_do e s = Some s' \<Longrightarrow> tp_step s s'"

inductive_cases tp_stepE: "tp_step s s'"

inductive tp_reach :: "nat \<Rightarrow> 'a pool \<Rightarrow> bool" for n where
  reach_new: "tp_reach n (ThreadPool_new n)"
| reach_next: "tp_reach n s \<Longrightarrow> tp_step s s' \<Longrightarrow> tp_reach n s'"

section \<open>The invariant\<close>

fun running_task :: "'a tp_pc \<Rightarrow> 'a multiset" where
  "running_task (Running x) = {#x#}"
| "running_task _ = {#}"

definition running :: "'a pool \<Rightarrow> 'a multiset" where
  "running s = (\<Sum>i = 0..<tp_threads s. running_task (tp_pc s i))"

text \<open>
  The last two parts are about sleep: a task in the queue has a worker that will look for it or a notification that
  is due, and nobody sleeps while the destructor joins.
\<close>

definition pool_ok :: "nat \<Rightarrow> 'a pool \<Rightarrow> bool" where
  "pool_ok n s \<longleftrightarrow> tp_threads s = n \<and> tp_enqueued s = tp_started s @ tp_tasks s
     \<and> mset (tp_started s) = mset (tp_finished s) + running s
     \<and> (\<forall>i < n. tp_pc s i = Exited \<longrightarrow> tp_stop s \<and> tp_tasks s = [])
     \<and> (tp_stop s \<longleftrightarrow> tp_phase s \<noteq> Open)
     \<and> (tp_tasks s \<noteq> [] \<longrightarrow> 0 < n \<longrightarrow> 0 < tp_due s \<or> (\<exists>i < n. tp_pc s i \<noteq> Asleep))
     \<and> (tp_phase s = Joining \<longrightarrow> (\<forall>i < n. tp_pc s i \<noteq> Asleep))"

lemma pool_okD:
  assumes "pool_ok n s"
  shows "tp_threads s = n" and "tp_enqueued s = tp_started s @ tp_tasks s"
    and "mset (tp_started s) = mset (tp_finished s) + running s"
    and "i < n \<Longrightarrow> tp_pc s i = Exited \<Longrightarrow> tp_stop s \<and> tp_tasks s = []"
    and "tp_stop s \<longleftrightarrow> tp_phase s \<noteq> Open"
    and "tp_tasks s \<noteq> [] \<Longrightarrow> 0 < n \<Longrightarrow> 0 < tp_due s \<or> (\<exists>i < n. tp_pc s i \<noteq> Asleep)"
    and "tp_phase s = Joining \<Longrightarrow> i < n \<Longrightarrow> tp_pc s i \<noteq> Asleep"
  using assms by (auto simp: pool_ok_def)

lemma sum_upd:
  fixes f :: "'b \<Rightarrow> 'c::comm_monoid_add" and i n :: nat
  assumes "i < n"
  shows "(\<Sum>k = 0..<n. f ((g(i := c)) k)) + f (g i) = (\<Sum>k = 0..<n. f (g k)) + f c"
proof -
  have r: "(\<Sum>k \<in> {0..<n} - {i}. f ((g(i := c)) k)) = (\<Sum>k \<in> {0..<n} - {i}. f (g k))"
    by (rule sum.cong) auto
  have "i \<in> {0..<n}" using assms by simp
  then show ?thesis
    using sum.remove [of "{0..<n}" i "\<lambda>k. f ((g(i := c)) k)"] sum.remove [of "{0..<n}" i "\<lambda>k. f (g k)"] r
    by (simp add: ac_simps)
qed

lemma running_upd:
  assumes "i < tp_threads s"
  shows "running (s\<lparr>tp_pc := (tp_pc s)(i := c)\<rparr>) + running_task (tp_pc s i) = running s + running_task c"
  using sum_upd [OF assms, of running_task "tp_pc s" c] by (simp add: running_def)

lemma worker_step_cases:
  assumes "worker_step i s = Some s'"
  obtains "tp_pc s i = Awake" "\<not> tp_stop s" "tp_tasks s = []" "s' = s\<lparr>tp_pc := (tp_pc s)(i := Asleep)\<rparr>"
  | "tp_pc s i = Awake" "tp_stop s" "tp_tasks s = []" "s' = s\<lparr>tp_pc := (tp_pc s)(i := Exited)\<rparr>"
  | x xs where "tp_pc s i = Awake" "tp_tasks s = x # xs"
      "s' = s\<lparr>tp_pc := (tp_pc s)(i := Running x), tp_tasks := xs, tp_started := tp_started s @ [x]\<rparr>"
  | x where "tp_pc s i = Running x" "s' = s\<lparr>tp_pc := (tp_pc s)(i := Awake), tp_finished := tp_finished s @ [x]\<rparr>"
  using assms by (cases "tp_tasks s") (auto simp: worker_step_def split: tp_pc.splits if_splits)

lemma pool_ok_worker:
  assumes ok: "pool_ok n s" and "i < tp_threads s" and "worker_step i s = Some s'"
  shows "pool_ok n s'"
  using assms(3)
proof (cases rule: worker_step_cases)
  case 1
  then show ?thesis using ok running_upd [OF assms(2), of Asleep] by (auto simp: pool_ok_def)
next
  case 2
  then show ?thesis using ok running_upd [OF assms(2), of Exited] by (auto simp: pool_ok_def)
next
  case (3 x xs)
  have "running s' = running (s\<lparr>tp_pc := (tp_pc s)(i := Running x)\<rparr>)" using 3 by (simp add: running_def)
  then show ?thesis using ok 3 assms(2) running_upd [OF assms(2), of "Running x"]
    by (auto simp: pool_ok_def intro: exI [of _ i])
next
  case (4 x)
  have "running s' = running (s\<lparr>tp_pc := (tp_pc s)(i := Awake)\<rparr>)" using 4 by (simp add: running_def)
  then show ?thesis using ok 4 assms(2) running_upd [OF assms(2), of Awake]
    by (auto simp: pool_ok_def intro: exI [of _ i])
qed

lemma wake_Some_iff:
  "wake i s = Some s' \<longleftrightarrow> i < tp_threads s \<and> tp_pc s i = Asleep \<and> s' = s\<lparr>tp_pc := (tp_pc s)(i := Awake)\<rparr>"
  by (auto simp: wake_def)

lemma pool_ok_wake:
  assumes "pool_ok n s" and "wake i s = Some s'"
  shows "pool_ok n s'"
proof -
  have i: "i < tp_threads s" "tp_pc s i = Asleep" and s': "s' = s\<lparr>tp_pc := (tp_pc s)(i := Awake)\<rparr>"
    using assms(2) by (simp_all add: wake_Some_iff)
  have "running s' = running s" using running_upd [OF i(1), of Awake] i(2) s' by simp
  then show ?thesis using assms(1) i s' by (auto simp: pool_ok_def)
qed

lemma notify_one_cases:
  assumes "notify_one w s = Some s'"
  obtains i s1 where "wake i s = Some s1" "0 < tp_due s" "s' = s1\<lparr>tp_due := tp_due s - 1\<rparr>"
  | "\<forall>i < tp_threads s. tp_pc s i \<noteq> Asleep" "0 < tp_due s" "s' = s\<lparr>tp_due := tp_due s - 1\<rparr>"
  using assms by (auto simp: notify_one_def wake_Some_iff split: option.splits if_splits)

lemma pool_ok_notify_one:
  assumes "pool_ok n s" and "notify_one w s = Some s'"
  shows "pool_ok n s'"
  using assms(2)
proof (cases rule: notify_one_cases)
  case (1 i s1)
  have "pool_ok n s1" by (rule pool_ok_wake [OF assms(1) 1(1)])
  moreover have "i < tp_threads s1" "tp_pc s1 i = Awake" using 1(1) by (auto simp: wake_Some_iff)
  ultimately show ?thesis using 1(3) by (auto simp: pool_ok_def running_def intro: exI [of _ i])
next
  case 2
  then show ?thesis using assms(1) by (auto simp: pool_ok_def running_def intro: exI [of _ 0])
qed

lemma pool_ok_notify_all:
  assumes "pool_ok n s" and "notify_all s = Some s'"
  shows "pool_ok n s'"
proof -
  have s': "s' = s\<lparr>tp_pc := (\<lambda>i. if tp_pc s i = Asleep then Awake else tp_pc s i), tp_phase := Joining\<rparr>"
    and p: "tp_phase s = Stopping"
    using assms(2) by (auto simp: notify_all_def split: if_splits)
  have "running s' = running s" unfolding running_def s' by (rule sum.cong) auto
  then show ?thesis using assms(1) p s' by (auto simp: pool_ok_def split: if_splits)
qed

lemma pool_ok_do: "pool_ok n s \<Longrightarrow> pool_do e s = Some s' \<Longrightarrow> pool_ok n s'"
  by (cases e) (auto intro: pool_ok_worker pool_ok_notify_one pool_ok_notify_all pool_ok_wake split: if_splits)

lemma pool_ok_step:
  assumes "pool_ok n s" and "tp_step s s'"
  shows "pool_ok n s'"
  using assms(2)
proof (cases rule: tp_step.cases)
  case (step_enqueue x)
  then show ?thesis using assms(1)
    by (auto simp: pool_ok_def Enqueue_def running_def split: if_splits)
next
  case step_stop
  then show ?thesis using assms(1) by (auto simp: pool_ok_def pool_stop_def running_def split: if_splits)
next
  case (step_event e)
  then show ?thesis using pool_ok_do [OF assms(1)] by blast
qed

lemma tp_reach_ok: "tp_reach n s \<Longrightarrow> pool_ok n s"
proof (induction rule: tp_reach.induct)
  case reach_new
  show ?case by (simp add: pool_ok_def ThreadPool_new_def running_def)
next
  case (reach_next s s')
  then show ?case using pool_ok_step by blast
qed

section \<open>Stopping\<close>

fun pc_work :: "'a tp_pc \<Rightarrow> nat" where
  "pc_work Awake = 1"
| "pc_work Asleep = 2"
| "pc_work (Running _) = 2"
| "pc_work Exited = 0"

text \<open>An upper bound of the events that can still happen in a stopped pool.\<close>

definition pool_work :: "'a pool \<Rightarrow> nat" where
  "pool_work s = 3 * length (tp_tasks s) + (\<Sum>i = 0..<tp_threads s. pc_work (tp_pc s i)) + tp_due s
     + (if tp_phase s = Joining then 0 else 1)"

lemma worker_step_work:
  assumes "i < tp_threads s" and "tp_stop s" and "worker_step i s = Some s'"
  shows "pool_work s' < pool_work s \<and> tp_stop s'"
  using assms(3)
proof (cases rule: worker_step_cases)
  case 2
  then show ?thesis using sum_upd [OF assms(1), of pc_work "tp_pc s" Exited] assms(2) by (simp add: pool_work_def)
next
  case (3 x xs)
  then show ?thesis using sum_upd [OF assms(1), of pc_work "tp_pc s" "Running x"] assms(2) by (simp add: pool_work_def)
next
  case (4 x)
  then show ?thesis using sum_upd [OF assms(1), of pc_work "tp_pc s" Awake] assms(2) by (simp add: pool_work_def)
qed (use assms(2) in simp)

lemma wake_work: "wake i s = Some s' \<Longrightarrow> pool_work s' < pool_work s \<and> tp_stop s' = tp_stop s \<and> tp_due s' = tp_due s"
  using sum_upd [of i "tp_threads s" pc_work "tp_pc s" Awake] by (auto simp: wake_Some_iff pool_work_def)

lemma notify_all_work:
  assumes "notify_all s = Some s'"
  shows "pool_work s' < pool_work s \<and> tp_stop s' = tp_stop s"
proof -
  have s': "s' = s\<lparr>tp_pc := (\<lambda>i. if tp_pc s i = Asleep then Awake else tp_pc s i), tp_phase := Joining\<rparr>"
    and p: "tp_phase s = Stopping"
    using assms by (auto simp: notify_all_def split: if_splits)
  have "(\<Sum>i = 0..<tp_threads s. pc_work (tp_pc s' i)) \<le> (\<Sum>i = 0..<tp_threads s. pc_work (tp_pc s i))"
    by (rule sum_mono) (simp add: s')
  then show ?thesis using p by (simp add: pool_work_def s')
qed

lemma pool_do_work:
  assumes "tp_stop s" and "pool_do e s = Some s'"
  shows "pool_work s' < pool_work s \<and> tp_stop s'"
proof (cases e)
  case (NotifyOne w)
  then have "notify_one w s = Some s'" using assms(2) by simp
  then show ?thesis
  proof (cases rule: notify_one_cases)
    case (1 i s1)
    have "pool_work s' \<le> pool_work s1" using wake_work [OF 1(1)] 1(3) by (simp add: pool_work_def)
    then show ?thesis using wake_work [OF 1(1)] 1(3) assms(1) by simp
  next
    case 2
    then show ?thesis using assms(1) by (simp add: pool_work_def)
  qed
next
  case (Work i)
  then have "i < tp_threads s" "worker_step i s = Some s'" using assms(2) by (auto split: if_splits)
  then show ?thesis using worker_step_work [OF _ assms(1)] by blast
next
  case NotifyAll
  then show ?thesis using notify_all_work [of s s'] assms by simp
next
  case (Spurious i)
  then show ?thesis using wake_work [of i s s'] assms by simp
qed

fun pool_run :: "pool_event list \<Rightarrow> 'a pool \<Rightarrow> 'a pool option" where
  "pool_run [] s = Some s"
| "pool_run (e # es) s = (case pool_do e s of Some s' \<Rightarrow> pool_run es s' | None \<Rightarrow> None)"

lemma pool_run_bounded:
  "tp_stop s \<Longrightarrow> pool_ok n s \<Longrightarrow> pool_run es s = Some s' \<Longrightarrow>
     length es + pool_work s' \<le> pool_work s \<and> tp_stop s' \<and> pool_ok n s'"
proof (induction es arbitrary: s)
  case (Cons e es)
  then obtain s1 where s1: "pool_do e s = Some s1" "pool_run es s1 = Some s'"
    by (auto split: option.splits)
  note w = pool_do_work [OF Cons.prems(1) s1(1)] and ok = pool_ok_do [OF Cons.prems(2) s1(1)]
  show ?case using Cons.IH [OF conjunct2 [OF w] ok s1(2)] w by simp
qed simp

text \<open>
  The events that must happen, because the threads that make them run; a spurious wake-up may not.  As long as one is
  possible the pool is not stuck.
\<close>

definition can_go_on :: "'a pool \<Rightarrow> bool" where
  "can_go_on s \<longleftrightarrow> (\<exists>e. (\<forall>i. e \<noteq> Spurious i) \<and> pool_do e s \<noteq> None)"

lemma can_work: "i < tp_threads s \<Longrightarrow> tp_pc s i \<notin> {Asleep, Exited} \<Longrightarrow> can_go_on s"
  unfolding can_go_on_def
  by (intro exI [of _ "Work i"]) (cases "tp_pc s i", auto simp: worker_step_def)

lemma can_notify: "0 < tp_due s \<Longrightarrow> can_go_on s"
proof (cases "\<exists>i < tp_threads s. tp_pc s i = Asleep")
  case True
  moreover assume "0 < tp_due s"
  ultimately obtain i where "i < tp_threads s" "tp_pc s i = Asleep" "0 < tp_due s" by blast
  then show ?thesis unfolding can_go_on_def
    by (intro exI [of _ "NotifyOne (Some i)"]) (simp add: notify_one_def wake_def)
next
  case False
  moreover assume "0 < tp_due s"
  ultimately show ?thesis unfolding can_go_on_def
    by (intro exI [of _ "NotifyOne None"]) (auto simp: notify_one_def)
qed

lemma stopped_not_stuck:
  assumes ok: "pool_ok n s" and "tp_stop s" and "\<not> joined s"
  shows "can_go_on s"
proof (cases "tp_phase s = Joining")
  case True
  then obtain i where i: "i < tp_threads s" "tp_pc s i \<noteq> Exited" using assms(3) by (auto simp: joined_def)
  moreover have "tp_pc s i \<noteq> Asleep" using pool_okD(7) [OF ok True] i(1) pool_okD(1) [OF ok] by blast
  ultimately show ?thesis by (intro can_work) auto
next
  case False
  then have "tp_phase s = Stopping" using pool_okD(5) [OF ok] assms(2) by (cases "tp_phase s") auto
  then show ?thesis unfolding can_go_on_def by (intro exI [of _ NotifyAll]) (simp add: notify_all_def)
qed

text \<open>Before the pool is stopped a queued task never waits for a worker that nobody will wake.\<close>

lemma queued_not_stuck:
  assumes ok: "pool_ok n s" and "tp_tasks s \<noteq> []" and "0 < n"
  shows "can_go_on s"
proof (cases "0 < tp_due s")
  case False
  then obtain i where i: "i < n" "tp_pc s i \<noteq> Asleep" using pool_okD(6) [OF ok assms(2,3)] by auto
  moreover have "tp_pc s i \<noteq> Exited" using pool_okD(4) [OF ok i(1)] assms(2) by blast
  ultimately show ?thesis using pool_okD(1) [OF ok] by (intro can_work) auto
qed (rule can_notify)

end
