(* ===== verification/Fs_Pool_Props.thy ===== *)
theory Fs_Pool_Props
  imports Fs_Thread_Pool
begin

text \<open>The properties of the thread pool, with a pool of one thread at which they are applied.\<close>

text \<open>C35. However clients and workers interleave, the tasks start in the order in which they were enqueued,
  each once, and what has started has finished or is running on a thread; when the destructor of a
  pool with at least one thread returns, every task that was enqueued has been run.\<close>

theorem pool_runs_everything:
  assumes "tp_reach n s"
  shows "tp_enqueued s = tp_started s @ tp_tasks s \<and> mset (tp_started s) = mset (tp_finished s) + running s
    \<and> (joined s \<and> 0 < n \<longrightarrow> mset (tp_finished s) = mset (tp_enqueued s))"
proof -
  have ok: "pool_ok n s" by (rule tp_reach_ok [OF assms])
  have "mset (tp_finished s) = mset (tp_enqueued s)" if j: "joined s" and n: "0 < n"
  proof -
    have t: "tp_tasks s = []" using ok j n by (auto simp: pool_ok_def joined_def)
    have "running s = {#}" using j by (simp add: running_def joined_def)
    then show ?thesis using ok t by (simp add: pool_ok_def)
  qed
  then show ?thesis using ok by (auto simp: pool_ok_def)
qed

text \<open>One thread that has run the one task of the pool and left.\<close>

definition sample_joined :: "nat pool" where
  "sample_joined = \<lparr>tp_threads = 1, tp_pc = (\<lambda>_. Awake)(0 := Exited), tp_tasks = [], tp_stop = True,
     tp_phase = Joining, tp_due = 0, tp_enqueued = [7], tp_started = [7], tp_finished = [7]\<rparr>"

text \<open>
  The thread goes to sleep, a client enqueues a task and wakes it, it runs the task and sleeps again until the
  destructor wakes it.
\<close>

lemma sample_joined_reach: "tp_reach 1 sample_joined"
proof -
  let ?s0 = "ThreadPool_new 1 :: nat pool"
  let ?s1 = "?s0\<lparr>tp_pc := (\<lambda>_. Awake)(0 := Asleep)\<rparr>"
  let ?s2 = "?s1\<lparr>tp_tasks := [7], tp_enqueued := [7], tp_due := 1\<rparr>"
  let ?s3 = "?s2\<lparr>tp_pc := (\<lambda>_. Awake)(0 := Awake), tp_due := 0\<rparr>"
  let ?s4 = "?s3\<lparr>tp_pc := (\<lambda>_. Awake)(0 := Running 7), tp_tasks := [], tp_started := [7]\<rparr>"
  let ?s5 = "?s4\<lparr>tp_pc := (\<lambda>_. Awake)(0 := Awake), tp_finished := [7]\<rparr>"
  let ?s6 = "?s5\<lparr>tp_pc := (\<lambda>_. Awake)(0 := Asleep)\<rparr>"
  let ?s7 = "?s6\<lparr>tp_stop := True, tp_phase := Stopping\<rparr>"
  let ?s8 = "?s7\<lparr>tp_pc := (\<lambda>_. Awake), tp_phase := Joining\<rparr>"
  note d = worker_step_def ThreadPool_new_def
  have "tp_step ?s0 ?s1" by (rule step_event [of "Work 0"]) (simp add: d)
  moreover have "tp_step ?s1 ?s2" by (rule step_enqueue [of 7]) (simp add: Enqueue_def ThreadPool_new_def)
  moreover have "tp_step ?s2 ?s3"
    by (rule step_event [of "NotifyOne (Some 0)"]) (simp add: d notify_one_def wake_def)
  moreover have "tp_step ?s3 ?s4" by (rule step_event [of "Work 0"]) (simp add: d)
  moreover have "tp_step ?s4 ?s5" by (rule step_event [of "Work 0"]) (simp add: d)
  moreover have "tp_step ?s5 ?s6" by (rule step_event [of "Work 0"]) (simp add: d)
  moreover have "tp_step ?s6 ?s7" by (rule step_stop) (simp add: pool_stop_def ThreadPool_new_def)
  moreover have "tp_step ?s7 ?s8"
    by (rule step_event [of NotifyAll]) (simp add: notify_all_def ThreadPool_new_def fun_eq_iff)
  moreover have "tp_step ?s8 sample_joined"
    by (rule step_event [of "Work 0"]) (simp add: d sample_joined_def)
  ultimately show ?thesis by (meson reach_new reach_next)
qed

theorem pool_runs_everything_witness:
  "mset (tp_finished sample_joined) = mset (tp_enqueued sample_joined)"
proof -
  have "joined sample_joined" by (simp add: joined_def sample_joined_def)
  moreover have "(0 :: nat) < 1" by (rule zero_less_one)
  ultimately show ?thesis using pool_runs_everything [OF sample_joined_reach] by blast
qed

text \<open>C36. The destructor returns.  From any state in which the pool is stopped, whoever sleeps then, the threads and
  the notifications together make at most three steps for each task in the queue, two for each thread, one for each
  \<open>notify_one\<close> that is due and one more; and as long as a thread has not left, a step other than a spurious
  wake-up is possible; so that every run ends, with all threads joined.\<close>

theorem stopped_pool_joins:
  assumes "tp_reach n s" and "tp_stop s" and "pool_run es s = Some s'"
  shows "length es \<le> 3 * length (tp_tasks s) + 2 * n + tp_due s + 1 \<and> (joined s' \<or> can_go_on s')"
proof -
  have ok: "pool_ok n s" by (rule tp_reach_ok [OF assms(1)])
  have "pc_work pc \<le> 2" for pc :: "'a tp_pc" by (cases pc) simp_all
  then have "(\<Sum>i = 0..<tp_threads s. pc_work (tp_pc s i)) \<le> (\<Sum>i = 0..<tp_threads s. 2)"
    by (intro sum_mono)
  then have "pool_work s \<le> 3 * length (tp_tasks s) + 2 * n + tp_due s + 1"
    using pool_okD(1) [OF ok] by (simp add: pool_work_def)
  moreover have r: "length es + pool_work s' \<le> pool_work s \<and> tp_stop s' \<and> pool_ok n s'"
    by (rule pool_run_bounded [OF assms(2) ok assms(3)])
  ultimately show ?thesis using stopped_not_stuck [of n s'] by auto
qed

text \<open>A pool of one thread that was asleep when the pool was stopped.\<close>

definition sample_stopped :: "nat pool" where
  "sample_stopped = \<lparr>tp_threads = 1, tp_pc = (\<lambda>_. Awake)(0 := Asleep), tp_tasks = [], tp_stop = True,
     tp_phase = Stopping, tp_due = 0, tp_enqueued = [], tp_started = [], tp_finished = []\<rparr>"

lemma sample_stopped_reach: "tp_reach 1 sample_stopped"
proof -
  let ?s0 = "ThreadPool_new 1 :: nat pool"
  let ?s1 = "?s0\<lparr>tp_pc := (\<lambda>_. Awake)(0 := Asleep)\<rparr>"
  have "tp_step ?s0 ?s1" by (rule step_event [of "Work 0"]) (simp add: worker_step_def ThreadPool_new_def)
  moreover have "tp_step ?s1 sample_stopped"
    by (rule step_stop) (simp add: pool_stop_def ThreadPool_new_def sample_stopped_def)
  ultimately show ?thesis by (meson reach_new reach_next)
qed

theorem stopped_pool_joins_witness:
  "\<exists>s'. pool_run [NotifyAll, Work 0] sample_stopped = Some s' \<and> (joined s' \<or> can_go_on s')"
proof -
  have stop: "tp_stop sample_stopped" by (simp add: sample_stopped_def)
  obtain s' where "pool_run [NotifyAll, Work 0] sample_stopped = Some s'"
    by (simp add: sample_stopped_def notify_all_def worker_step_def)
  then show ?thesis using stopped_pool_joins [OF sample_stopped_reach stop] by blast
qed

end
