(* ===== verification/Fs_Loop_Worker.thy ===== *)
theory Fs_Loop_Worker
  imports Fs_Worker_Progress
begin

text \<open>
  \<open>src/platform/adr/loop_worker_impl.cc\<close>: a worker that runs on the looper of its thread.  A timer of the
  kernel wakes the looper, whose callback runs one task.  What \<open>ALooper_pollOnce\<close> does is an input: the list
  of the results of its calls, each with the callback it made; the end of the list is a call that does not
  return.  The state is the flag \<open>has_task_pending_\<close> beside the state of the scheduler.
\<close>

section \<open>The kernel timer\<close>

record itimerspec =
  it_value :: timespec
  it_interval :: timespec

definition SetItimerspec :: "u64 \<Rightarrow> itimerspec" where
  "SetItimerspec nano_secs =
     (let v = \<lparr>tv_sec = sint (nano_secs div 1000000000), tv_nsec = sint (nano_secs mod 1000000000)\<rparr>
      in \<lparr>it_value = v, it_interval = v\<rparr>)"

text \<open>\<open>timerfd_settime(fd_, TFD_TIMER_ABSTIME, ...)\<close>: how the timer is armed, as an absolute time.\<close>

datatype timer_call = SetAbsolute itimerspec

definition adr_Notify :: timer_call where
  "adr_Notify = SetAbsolute (SetItimerspec 1)"

definition adr_WaitFor :: "time_delta \<Rightarrow> timer_call" where
  "adr_WaitFor d =
     (let nano_secs = word_of_int (td_ToNanoseconds d) :: u64
      in SetAbsolute (SetItimerspec (if nano_secs < 1 then 1 else nano_secs)))"

section \<open>Creation and destruction\<close>

text \<open>The calls that the constructor and the destructor make to the looper of the thread, in order.\<close>

datatype looper_call = LooperPrepare | LooperAcquire | LooperAddFd | LooperRemoveFd | LooperWake | LooperRelease

definition AcquireLooperForThread :: "bool \<Rightarrow> looper_call list" where
  "AcquireLooperForThread has_looper = (if has_looper then [] else [LooperPrepare]) @ [LooperAcquire]"

text \<open>The constructor also sets \<open>has_task_pending_\<close>.\<close>

definition adr_new :: "bool \<Rightarrow> looper_call list \<times> bool" where
  "adr_new has_looper = (AcquireLooperForThread has_looper @ [LooperAddFd], True)"

definition adr_destroy :: "looper_call list" where
  "adr_destroy = [LooperRemoveFd, LooperWake]"

text \<open>The reference to the looper that a worker acquires is never given back.\<close>

lemma looper_never_released:
  "count_list (fst (adr_new h) @ adr_destroy) LooperAcquire = 1"
  "count_list (fst (adr_new h) @ adr_destroy) LooperRelease = 0"
  by (simp_all add: adr_new_def AcquireLooperForThread_def adr_destroy_def)

section \<open>The loop\<close>

text \<open>A call of \<open>ALooper_pollOnce\<close>: the callback was called with a wake event, it was woken up without, or it failed.\<close>

datatype poll = PollEvent | PollWake | PollTimeout | PollError

type_synonym adr_state = "bool \<times> sys"

definition OnEventFired ::
    "(nat \<Rightarrow> exec_code \<Rightarrow> sys \<Rightarrow> sys res) \<Rightarrow> clock \<Rightarrow> nat \<Rightarrow> adr_state \<Rightarrow> adr_state res" where
  "OnEventFired exec clk me st = RunTask exec clk me (snd st)"

definition adr_TerminateWorker :: "nat \<Rightarrow> adr_state \<Rightarrow> adr_state" where
  "adr_TerminateWorker me st =
     (fst st, set_worker me ((s_workers (snd st) me)\<lparr>is_terminated := True\<rparr>) (snd st))"

definition adr_poll ::
    "(nat \<Rightarrow> exec_code \<Rightarrow> sys \<Rightarrow> sys res) \<Rightarrow> clock \<Rightarrow> nat \<Rightarrow> poll \<Rightarrow> adr_state \<Rightarrow> adr_state res" where
  "adr_poll exec clk me e st =
     (case e of
        PollEvent \<Rightarrow> OnEventFired exec clk me st
      | PollWake \<Rightarrow> Inr st
      | PollTimeout \<Rightarrow> Inr (adr_TerminateWorker me st)
      | PollError \<Rightarrow> Inr (adr_TerminateWorker me st))"

definition adr_done :: "nat \<Rightarrow> adr_state \<Rightarrow> bool" where
  "adr_done me st =
     (if is_exit_immediately (s_workers (snd st) me) then is_terminated (s_workers (snd st) me)
      else \<not> (\<not> is_terminated (s_workers (snd st) me) \<or> fst st))"

fun adr_RunLoop ::
    "(nat \<Rightarrow> exec_code \<Rightarrow> sys \<Rightarrow> sys res) \<Rightarrow> clock \<Rightarrow> nat \<Rightarrow> poll list \<Rightarrow> adr_state \<Rightarrow> adr_state res option" where
  "adr_RunLoop exec clk me [] st = (if adr_done me st then Some (Inr st) else None)"
| "adr_RunLoop exec clk me (e # es) st =
     (if adr_done me st then Some (Inr st)
      else case adr_poll exec clk me e st of
             Inl f \<Rightarrow> Some (Inl f)
           | Inr st' \<Rightarrow> adr_RunLoop exec clk me es st')"

section \<open>What the timer is set to\<close>

definition spec_nanoseconds :: "timespec \<Rightarrow> int" where
  "spec_nanoseconds v = tv_sec v * 1000000000 + tv_nsec v"

lemma SetItimerspec_value:
  "spec_nanoseconds (it_value (SetItimerspec n)) = uint n"
  "0 \<le> tv_nsec (it_value (SetItimerspec n)) \<and> tv_nsec (it_value (SetItimerspec n)) < 1000000000"
  "0 \<le> tv_sec (it_value (SetItimerspec n))"
  "it_interval (SetItimerspec n) = it_value (SetItimerspec n)"
proof -
  have small: "sint (w :: u64) = uint w" if "uint w < 2 ^ 63" for w
  proof -
    have "- (2 ^ 63) \<le> uint w" by (rule order_trans [OF _ uint_ge_0]) simp
    then show ?thesis using that signed_take_bit_int_eq_self [of 63 "uint w"] by (simp add: sint_uint)
  qed
  have b: "uint n < 2 ^ 64" "0 \<le> uint n" using unsigned_less [of n] by simp_all
  have q: "uint (n div 1000000000) = uint n div 1000000000" "uint (n mod 1000000000) = uint n mod 1000000000"
    by (simp_all add: uint_div uint_mod)
  have "sint (n div 1000000000) = uint n div 1000000000" using small [of "n div 1000000000"] q b by simp
  moreover have "sint (n mod 1000000000) = uint n mod 1000000000" using small [of "n mod 1000000000"] q by simp
  ultimately show "spec_nanoseconds (it_value (SetItimerspec n)) = uint n"
    "0 \<le> tv_nsec (it_value (SetItimerspec n)) \<and> tv_nsec (it_value (SetItimerspec n)) < 1000000000"
    "0 \<le> tv_sec (it_value (SetItimerspec n))"
    "it_interval (SetItimerspec n) = it_value (SetItimerspec n)"
    using b by (simp_all add: SetItimerspec_def spec_nanoseconds_def Let_def pos_imp_zdiv_nonneg_iff)
qed

lemma adr_WaitFor_value:
  assumes "td_ok d" and "adr_WaitFor d = SetAbsolute spec"
  shows "spec_nanoseconds (it_value spec)
      = (if delta d < 0 then 2 ^ 64 + delta d else if delta d = 0 then 1 else delta d)"
    and "0 \<le> tv_nsec (it_value spec) \<and> tv_nsec (it_value spec) < 1000000000 \<and> 0 \<le> tv_sec (it_value spec)"
proof -
  let ?n = "word_of_int (delta d) :: u64"
  have u: "uint ?n = (if delta d < 0 then 2 ^ 64 + delta d else delta d)"
  proof -
    have "- (2 ^ 63) \<le> delta d" "delta d < 2 ^ 63" using assms(1) by (simp_all add: td_ok_def in_i64_def)
    then have "delta d mod 2 ^ 64 = (if delta d < 0 then 2 ^ 64 + delta d else delta d)"
      using mod_pos_pos_trivial [of "2 ^ 64 + delta d" "2 ^ 64"] mod_pos_pos_trivial [of "delta d" "2 ^ 64"]
      by (cases "delta d < 0") simp_all
    then show ?thesis by (simp add: uint_word_of_int)
  qed
  have "?n < 1 \<longleftrightarrow> uint ?n < 1" by (simp add: word_less_def)
  also have "\<dots> \<longleftrightarrow> delta d = 0" using u assms(1) by (auto simp: td_ok_def in_i64_def)
  finally have "spec = SetItimerspec (if delta d = 0 then 1 else ?n)"
    using assms(2) by (simp add: adr_WaitFor_def Let_def td_ToNanoseconds_def)
  then show "spec_nanoseconds (it_value spec)
      = (if delta d < 0 then 2 ^ 64 + delta d else if delta d = 0 then 1 else delta d)"
    and "0 \<le> tv_nsec (it_value spec) \<and> tv_nsec (it_value spec) < 1000000000 \<and> 0 \<le> tv_sec (it_value spec)"
    using u by (simp_all add: SetItimerspec_value)
qed

text \<open>A terminated worker that must drain its queues ends when there are callbacks enough.\<close>

lemma adr_RunLoop_drains:
  "posts_nothing exec \<Longrightarrow> \<forall>r. tr_ok (s_runners s r) \<Longrightarrow> is_terminated (s_workers s me) \<Longrightarrow>
   \<not> is_exit_immediately (s_workers s me) \<Longrightarrow> total_work me s < n \<Longrightarrow>
     adr_RunLoop exec clk me (replicate n PollEvent) (pending, s) \<noteq> None"
proof (induction n arbitrary: s pending)
  case (Suc n)
  show ?case
  proof (cases "adr_done me (pending, s)")
    case False
    show ?thesis
    proof (cases "RunTask exec clk me s")
      case (Inr r)
      obtain again s' where r: "r = (again, s')" by (cases r)
      have w: "again \<longrightarrow> total_work me s' < total_work me s \<and> is_terminated (s_workers s' me) \<and> (\<forall>r. tr_ok (s_runners s' r))
        \<and> is_exit_immediately (s_workers s' me) = is_exit_immediately (s_workers s me)"
        using RunTask_work [OF Suc.prems(1-3), of clk s'] Inr r by (cases again) simp_all
      show ?thesis
      proof (cases again)
        case True
        then have "adr_RunLoop exec clk me (replicate n PollEvent) (True, s') \<noteq> None"
          using Suc.prems w by (intro Suc.IH) auto
        then show ?thesis using False Inr r True by (simp add: adr_poll_def OnEventFired_def)
      next
        case again: False
        then have "is_terminated (s_workers s' me)"
          using Inr r by (auto simp: RunTask_def Let_def bind_res_Inr_iff split: option.splits prod.splits)
        then have "adr_done me (False, s')" by (simp add: adr_done_def)
        then have "adr_RunLoop exec clk me (replicate n PollEvent) (False, s') \<noteq> None"
          by (cases n) simp_all
        then show ?thesis using False again Inr r by (simp add: adr_poll_def OnEventFired_def)
      qed
    qed (use False in \<open>simp add: adr_poll_def OnEventFired_def\<close>)
  qed simp
qed simp

text \<open>Arming the timer of the Android worker: \<open>WaitFor\<close> hands the kernel a valid specification, seconds not
  negative and nanoseconds below a second, whose sum is the delay, at least one nanosecond; a
  negative delay becomes 2 ^ 64 plus the delay, more than five hundred years.\<close>

theorem adr_WaitFor_armed:
  assumes "td_ok d" and "adr_WaitFor d = SetAbsolute spec"
  shows "spec_nanoseconds (it_value spec)
      = (if delta d < 0 then 2 ^ 64 + delta d else if delta d = 0 then 1 else delta d)
    \<and> 0 \<le> tv_nsec (it_value spec) \<and> tv_nsec (it_value spec) < 1000000000 \<and> 0 \<le> tv_sec (it_value spec)"
  using adr_WaitFor_value [OF assms] by blast

theorem adr_WaitFor_armed_witness:
  "spec_nanoseconds (it_value (SetItimerspec (word_of_int (- 1)))) = 2 ^ 64 - 1"
proof -
  have ok: "td_ok (TimeDelta (- 1))" by (simp add: td_ok_def in_i64_def)
  have "adr_WaitFor (TimeDelta (- 1)) = SetAbsolute (SetItimerspec (word_of_int (- 1)))" by code_simp
  from adr_WaitFor_armed [OF ok this] show ?thesis by simp
qed

end
