(* ===== verification/Fs_Double.thy ===== *)
theory Fs_Double
  imports Fs_Time Complex_Main
begin

text \<open>
  The conversions of \<open>include/footstone/time_delta.h\<close> between durations and \<open>double\<close>.  A finite \<open>double\<close> is the rational
  number it stands for, and an operation is the exact one followed by \<open>rnd64\<close>: rounding to nearest,
  ties to even, with a significand of 53 bits and an exponent not below that of the subnormal numbers.
  An intermediate value of the conversions to \<open>double\<close> has far less than the largest exponent.  Infinities
  and not-a-number are one value, \<open>NotFinite\<close>, whose conversion to an integer is undefined.
\<close>

section \<open>Rounding\<close>

text \<open>The number of binary digits, and the exponent \<open>e\<close> with 2 powi e \<open>\<le>\<close> |x| \<open><\<close> 2 powi (e + 1).\<close>

function ilen :: "int \<Rightarrow> nat" where
  "ilen n = (if n \<le> 0 then 0 else Suc (ilen (n div 2)))"
  by pat_completeness auto
termination by (relation "measure nat") auto

declare ilen.simps [simp del]

definition dexp :: "rat \<Rightarrow> int" where
  "dexp x =
     (let (n, d) = quotient_of \<bar>x\<bar>; k = int (ilen n) - int (ilen d)
      in if 2 powi k \<le> \<bar>x\<bar> then k else k - 1)"

definition half_even :: "rat \<Rightarrow> int" where
  "half_even x =
     (let f = \<lfloor>x\<rfloor>; r = x - of_int f
      in if r < 1 / 2 then f else if r > 1 / 2 then f + 1 else if even f then f else f + 1)"

definition rnd64 :: "rat \<Rightarrow> rat" where
  "rnd64 x =
     (if x = 0 then 0
      else let u = 2 powi (max (dexp x - 52) (- 1074)) in of_int (half_even (x / u)) * u)"

lemma ilen_bounds:
  "0 < n \<Longrightarrow> 2 ^ (ilen n - 1) \<le> n \<and> n < 2 ^ ilen n \<and> 0 < ilen n"
proof (induction n rule: ilen.induct)
  case (1 n)
  have s: "ilen n = Suc (ilen (n div 2))" using 1 by (subst ilen.simps) simp
  show ?case
  proof (cases "n = 1")
    case True
    have "ilen 0 = 0" by (subst ilen.simps) simp
    then show ?thesis using s True by simp
  next
    case False
    then have "0 < n div 2" using 1 by linarith
    then have "2 ^ (ilen (n div 2) - 1) \<le> n div 2 \<and> n div 2 < 2 ^ ilen (n div 2) \<and> 0 < ilen (n div 2)"
      using 1 by simp
    moreover obtain m where "ilen (n div 2) = Suc m" using calculation by (cases "ilen (n div 2)") auto
    ultimately show ?thesis using s by auto
  qed
qed

lemma ilen_rat:
  assumes "0 < n"
  shows "(2 :: rat) powi (int (ilen n) - 1) \<le> of_int n" and "of_int n < (2 :: rat) powi (int (ilen n))"
proof -
  have b: "2 ^ (ilen n - 1) \<le> n" "n < 2 ^ ilen n" "0 < ilen n" using ilen_bounds [OF assms] by blast+
  have p: "(2 :: rat) powi (int k) = of_int (2 ^ k)" for k by (simp add: power_int_def)
  have k: "int (ilen n) - 1 = int (ilen n - 1)" using b(3) by linarith
  show "(2 :: rat) powi (int (ilen n) - 1) \<le> of_int n" "of_int n < (2 :: rat) powi (int (ilen n))"
    unfolding k p of_int_le_iff of_int_less_iff by (fact b(1), fact b(2))
qed

lemma dexp_bounds:
  assumes "x \<noteq> 0"
  shows "2 powi (dexp x) \<le> \<bar>x\<bar>" and "\<bar>x\<bar> < 2 powi (dexp x + 1)"
proof -
  obtain n d where q: "quotient_of \<bar>x\<bar> = (n, d)" by (cases "quotient_of \<bar>x\<bar>")
  have d: "0 < d" using quotient_of_denom_pos [OF q] .
  have x: "\<bar>x\<bar> = of_int n / of_int d" using quotient_of_div [OF q] .
  have n: "0 < n"
  proof (rule ccontr)
    assume "\<not> 0 < n"
    then have "of_int n / of_int d \<le> (0 :: rat)" using d by (simp add: divide_nonpos_pos)
    then show False using x assms by simp
  qed
  let ?a = "ilen n" and ?b = "ilen d"
  let ?k = "int ?a - int ?b"
  note a = ilen_rat [OF n] and b = ilen_rat [OF d]
  have lo: "(2 :: rat) powi (?k - 1) \<le> \<bar>x\<bar>"
  proof -
    have "?k - 1 = (int ?a - 1) - int ?b" by simp
    moreover have "(2 :: rat) powi ((int ?a - 1) - int ?b) = 2 powi (int ?a - 1) / 2 powi (int ?b)"
      by (rule power_int_diff) simp
    ultimately have "(2 :: rat) powi (?k - 1) = 2 powi (int ?a - 1) / 2 powi (int ?b)" by (simp only:)
    also have "\<dots> \<le> of_int n / of_int d" using a(1) b(2) d n by (intro frac_le) auto
    finally show ?thesis by (simp add: x)
  qed
  have hi: "\<bar>x\<bar> < 2 powi (?k + 1)"
  proof -
    have "of_int n / of_int d < 2 powi (int ?a) / (2 :: rat) powi (int ?b - 1)"
      using a(2) b(1) d n by (intro frac_less) auto
    also have "\<dots> = 2 powi (int ?a - (int ?b - 1))" by (subst power_int_diff) simp_all
    also have "int ?a - (int ?b - 1) = ?k + 1" by simp
    finally show ?thesis by (simp add: x)
  qed
  show "2 powi (dexp x) \<le> \<bar>x\<bar>" and "\<bar>x\<bar> < 2 powi (dexp x + 1)"
    using lo hi by (auto simp: dexp_def q Let_def)
qed

lemma half_even_error: "\<bar>of_int (half_even x) - x\<bar> \<le> 1 / 2"
proof -
  have "of_int \<lfloor>x\<rfloor> \<le> x" "x < of_int \<lfloor>x\<rfloor> + 1" using floor_correct [of x] by simp_all
  then show ?thesis by (auto simp: half_even_def Let_def abs_le_iff)
qed

text \<open>A number that is not subnormal is changed by a factor of at most 2 ^ 53.\<close>

lemma rnd64_error:
  assumes "2 powi (- 1022) \<le> \<bar>x\<bar>"
  shows "\<bar>rnd64 x - x\<bar> \<le> \<bar>x\<bar> / 2 ^ 53"
proof -
  have z: "x \<noteq> 0"
  proof
    assume "x = 0"
    moreover have "(0 :: rat) < 2 powi (- 1022)" by (rule zero_less_power_int) simp
    ultimately show False using assms by simp
  qed
  have "(2 :: rat) powi (- 1022) < 2 powi (dexp x + 1)" using assms dexp_bounds(2) [OF z] by linarith
  then have "\<not> (2 :: rat) powi (dexp x + 1) \<le> 2 powi (- 1022)" by (simp only: not_le)
  moreover have "dexp x + 1 \<le> - 1022 \<Longrightarrow> (2 :: rat) powi (dexp x + 1) \<le> 2 powi (- 1022)"
    by (rule power_int_increasing) simp_all
  ultimately have e: "- 1022 \<le> dexp x" by linarith
  let ?u = "(2 :: rat) powi (dexp x - 52)"
  have u: "0 < ?u" by (rule zero_less_power_int) simp
  have r: "rnd64 x = of_int (half_even (x / ?u)) * ?u" 
  proof -
    have "max (dexp x - 52) (- 1074) = dexp x - 52" using e by (intro max_absorb1) linarith
    then show ?thesis using z by (simp only: rnd64_def Let_def if_False)
  qed
  have "rnd64 x - x = (of_int (half_even (x / ?u)) - x / ?u) * ?u" using u by (simp add: r field_simps)
  then have "\<bar>rnd64 x - x\<bar> = \<bar>of_int (half_even (x / ?u)) - x / ?u\<bar> * ?u" using u by (simp add: abs_mult)
  also have "\<dots> \<le> 1 / 2 * ?u" using half_even_error [of "x / ?u"] u by (intro mult_right_mono) auto
  also have "\<dots> = 2 powi (dexp x) / 2 ^ 53"
    by (simp add: power_int_diff)
  also have "\<dots> \<le> \<bar>x\<bar> / 2 ^ 53" using dexp_bounds(1) [OF z] by (intro divide_right_mono) auto
  finally show ?thesis .
qed

section \<open>Values\<close>

datatype double = Finite rat | NotFinite

text \<open>The result of an operation whose exact value is \<open>x\<close>.\<close>

definition dbl :: "rat \<Rightarrow> double" where
  "dbl x = (let r = rnd64 x in if \<bar>r\<bar> < 2 ^ 1024 then Finite r else NotFinite)"

fun dbl_times :: "double \<Rightarrow> rat \<Rightarrow> double" where
  "dbl_times (Finite x) y = dbl (x * y)"
| "dbl_times NotFinite y = NotFinite"

fun dbl_div :: "double \<Rightarrow> rat \<Rightarrow> double" where
  "dbl_div (Finite x) y = dbl (x / y)"
| "dbl_div NotFinite y = NotFinite"

definition trunc :: "rat \<Rightarrow> int" where
  "trunc x = (if x < 0 then \<lceil>x\<rceil> else \<lfloor>x\<rfloor>)"

text \<open>\<open>static_cast<int64_t>\<close>: towards zero, undefined where the result does not fit.\<close>

fun dbl_to_i64 :: "double \<Rightarrow> int res" where
  "dbl_to_i64 (Finite x) = i64 (trunc x)"
| "dbl_to_i64 NotFinite = Inl (UB SignedOverflow)"

section \<open>Durations\<close>

text \<open>The products of constants in the code are exact: a thousand, a million, a thousand million.\<close>

definition td_FromSecondsF :: "double \<Rightarrow> time_delta res" where
  "td_FromSecondsF seconds =
     bind_res (dbl_to_i64 (dbl_times seconds (1000 * 1000 * 1000))) (\<lambda>n. Inr (td_FromNanoseconds n))"

definition td_ToNanosecondsF :: "time_delta \<Rightarrow> double" where
  "td_ToNanosecondsF d = dbl (of_int (delta d))"

definition td_ToMicrosecondsF :: "time_delta \<Rightarrow> double" where
  "td_ToMicrosecondsF d = dbl_div (dbl (of_int (delta d))) 1000"

definition td_ToMillisecondsF :: "time_delta \<Rightarrow> double" where
  "td_ToMillisecondsF d = dbl_div (dbl (of_int (delta d))) (1000 * 1000)"

definition td_ToSecondsF :: "time_delta \<Rightarrow> double" where
  "td_ToSecondsF d = dbl_div (dbl (of_int (delta d))) (1000 * 1000 * 1000)"

text \<open>A frame budget in milliseconds: one second over the refresh rate.\<close>

definition RefreshRateToFrameBudget :: "rat \<Rightarrow> double" where
  "RefreshRateToFrameBudget refresh_rate = (if refresh_rate = 0 then NotFinite else dbl_div (Finite 1000) refresh_rate)"

definition kDefaultFrameBudget :: double where
  "kDefaultFrameBudget = dbl_div (Finite 1000) 60"

section \<open>There and back\<close>

lemma one_ge_tiny: "2 powi (- 1022) \<le> (x :: rat)" if "2 powi (- 100) \<le> x"
proof -
  have "(2 :: rat) powi (- 1022) \<le> 2 powi (- 100)" by (rule power_int_increasing) simp_all
  then show ?thesis using that by linarith
qed

lemma dbl_small:
  assumes "2 powi (- 100) \<le> \<bar>x\<bar>" and "\<bar>x\<bar> \<le> 2 ^ 100"
  obtains r where "dbl x = Finite r" and "\<bar>r - x\<bar> \<le> \<bar>x\<bar> / 2 ^ 53"
proof -
  have e: "\<bar>rnd64 x - x\<bar> \<le> \<bar>x\<bar> / 2 ^ 53" by (rule rnd64_error) (rule one_ge_tiny [OF assms(1)])
  moreover have "\<bar>x\<bar> / 2 ^ 53 \<le> \<bar>x\<bar>" by (simp add: field_simps)
  ultimately have "\<bar>rnd64 x\<bar> \<le> 2 * \<bar>x\<bar>" by linarith
  then have "\<bar>rnd64 x\<bar> \<le> 2 ^ 101" using assms(2) by simp
  moreover have "(2 :: rat) ^ 101 < 2 ^ 1024" by (rule power_strict_increasing) simp_all
  ultimately have "dbl x = Finite (rnd64 x)" by (simp add: dbl_def Let_def)
  then show ?thesis using that e by blast
qed

lemma half_even_int [simp]: "half_even (of_int n) = n"
  by (simp add: half_even_def)

text \<open>Integers of up to 53 bits are exact.\<close>

lemma rnd64_int:
  assumes "\<bar>n\<bar> < 2 ^ 53"
  shows "rnd64 (of_int n) = of_int n"
proof (cases "n = 0")
  case False
  let ?x = "of_int n :: rat"
  have z: "?x \<noteq> 0" using False by simp
  have ab: "1 \<le> \<bar>?x\<bar>" "\<bar>?x\<bar> < 2 ^ 53"
  proof -
    have "(of_int \<bar>n\<bar> :: rat) < of_int (2 ^ 53)" by (rule of_int_less_iff [THEN iffD2]) (rule assms)
    moreover have "(of_int 1 :: rat) \<le> of_int \<bar>n\<bar>" by (rule of_int_le_iff [THEN iffD2]) (use False in linarith)
    ultimately show "1 \<le> \<bar>?x\<bar>" "\<bar>?x\<bar> < 2 ^ 53" by simp_all
  qed
  have "\<not> (2 :: rat) powi 53 \<le> 2 powi (dexp ?x)" using dexp_bounds(1) [OF z] ab(2) by simp
  moreover have "53 \<le> dexp ?x \<Longrightarrow> (2 :: rat) powi 53 \<le> 2 powi (dexp ?x)" by (rule power_int_increasing) simp_all
  ultimately have hi: "dexp ?x \<le> 52" by linarith
  have "\<not> (2 :: rat) powi (dexp ?x + 1) \<le> 2 powi 0" using dexp_bounds(2) [OF z] ab(1) by simp
  moreover have "dexp ?x + 1 \<le> 0 \<Longrightarrow> (2 :: rat) powi (dexp ?x + 1) \<le> 2 powi 0" by (rule power_int_increasing) simp_all
  ultimately have lo: "0 \<le> dexp ?x" by linarith
  let ?u = "(2 :: rat) powi (dexp ?x - 52)"
  have u: "?u * of_int (2 ^ nat (52 - dexp ?x)) = 1"
  proof -
    have "?u = inverse (2 ^ nat (52 - dexp ?x))" using hi by (auto simp: power_int_def power_one_over inverse_eq_divide)
    then show ?thesis by simp
  qed
  then have u0: "?u \<noteq> 0" by (intro notI) simp
  have q: "?x / ?u = of_int (n * 2 ^ nat (52 - dexp ?x))"
  proof -
    have "?x = ?x * (?u * of_int (2 ^ nat (52 - dexp ?x)))" by (simp only: u mult_1_right)
    then show ?thesis using u0 by (simp add: field_simps)
  qed
  have "max (dexp ?x - 52) (- 1074) = dexp ?x - 52" using lo by (intro max_absorb1) linarith
  then have "rnd64 ?x = of_int (half_even (?x / ?u)) * ?u" using z by (simp only: rnd64_def Let_def if_False)
  also have "\<dots> = ?x / ?u * ?u" unfolding q half_even_int ..
  also have "\<dots> = ?x" using u0 by simp
  finally show ?thesis .
qed (simp add: rnd64_def)

lemma trunc_near:
  assumes "\<bar>y - of_int n\<bar> < 1"
  shows "trunc y = n \<or> (0 < n \<and> trunc y = n - 1) \<or> (n < 0 \<and> trunc y = n + 1)"
proof -
  have y: "of_int n - 1 < y" "y < of_int n + 1" using assms by linarith+
  show ?thesis
  proof (cases "y < 0")
    case True
    then have "(of_int n :: rat) < of_int 1" using y by simp
    then have n: "n < 1" by (simp only: of_int_less_iff)
    have "\<lceil>y\<rceil> \<le> n + 1" "n - 1 < \<lceil>y\<rceil>" "\<lceil>y\<rceil> \<le> 0" using y True by (simp_all add: ceiling_le_iff less_ceiling_iff)
    then have "\<lceil>y\<rceil> = n \<or> (n < 0 \<and> \<lceil>y\<rceil> = n + 1)" using n by arith
    then show ?thesis using True by (auto simp: trunc_def)
  next
    case False
    then have "(of_int (- 1) :: rat) < of_int n" using y by simp
    then have n: "- 1 < n" by (simp only: of_int_less_iff)
    have "of_int (n - 1) \<le> y" "y < of_int (n + 1)" using y by simp_all
    then have "n - 1 \<le> \<lfloor>y\<rfloor>" "\<lfloor>y\<rfloor> < n + 1" "0 \<le> \<lfloor>y\<rfloor>"
      using False by (simp_all only: le_floor_iff floor_less_iff zero_le_floor not_less)
    then have "\<lfloor>y\<rfloor> = n \<or> (0 < n \<and> \<lfloor>y\<rfloor> = n - 1)" using n by arith
    then show ?thesis using False by (auto simp: trunc_def)
  qed
qed

lemma secondsF_roundtrip:
  assumes "\<bar>delta d\<bar> \<le> 2 ^ 51"
  shows "\<exists>n. td_FromSecondsF (td_ToSecondsF d) = Inr (TimeDelta n)
    \<and> (n = delta d \<or> (0 < delta d \<and> n = delta d - 1) \<or> (delta d < 0 \<and> n = delta d + 1))"
proof (cases "delta d = 0")
  case True
  then show ?thesis
    by (simp add: td_FromSecondsF_def td_ToSecondsF_def dbl_def rnd64_def trunc_def i64_def in_i64_def
        td_FromNanoseconds_def Let_def)
next
  case False
  let ?x = "of_int (delta d) :: rat"
  have small: "(2 :: rat) powi (- 100) = 1 / 2 ^ 100" by (simp add: power_int_def power_divide inverse_eq_divide)
  have x1: "1 \<le> \<bar>?x\<bar>" "\<bar>?x\<bar> \<le> 2 ^ 51"
  proof -
    have "(of_int 1 :: rat) \<le> of_int \<bar>delta d\<bar>" by (rule of_int_le_iff [THEN iffD2]) (use False in linarith)
    moreover have "(of_int \<bar>delta d\<bar> :: rat) \<le> of_int (2 ^ 51)" by (rule of_int_le_iff [THEN iffD2]) (rule assms)
    ultimately show "1 \<le> \<bar>?x\<bar>" "\<bar>?x\<bar> \<le> 2 ^ 51" by simp_all
  qed
  have ex: "dbl ?x = Finite ?x"
  proof -
    have "rnd64 ?x = ?x" by (intro rnd64_int order.strict_trans1 [OF assms]) simp
    moreover have "(2 :: rat) ^ 51 < 2 ^ 1024" by (rule power_strict_increasing) simp_all
    ultimately show ?thesis using x1(2) by (simp add: dbl_def Let_def)
  qed
  let ?s = "?x / 1000000000"
  have s1: "2 powi (- 100) \<le> \<bar>?s\<bar>" "\<bar>?s\<bar> \<le> 2 ^ 100" using x1 by (simp_all add: small)
  obtain s where s: "dbl ?s = Finite s" "\<bar>s - ?s\<bar> \<le> \<bar>?s\<bar> / 2 ^ 53"
    using dbl_small [OF s1] by blast
  let ?y = "s * 1000000000"
  have e1: "\<bar>?y - ?x\<bar> \<le> \<bar>?x\<bar> / 2 ^ 53"
  proof -
    have "?y - ?x = (s - ?s) * 1000000000" by simp
    then have "\<bar>?y - ?x\<bar> = \<bar>s - ?s\<bar> * 1000000000" by (simp only: abs_mult abs_numeral)
    also have "\<dots> \<le> \<bar>?s\<bar> / 2 ^ 53 * 1000000000" using s(2) by (intro mult_right_mono) simp_all
    finally show ?thesis by simp
  qed
  moreover have "\<bar>?x\<bar> / 2 ^ 53 \<le> \<bar>?x\<bar> / 2" by simp
  ultimately have y2: "\<bar>?x\<bar> / 2 \<le> \<bar>?y\<bar>" "\<bar>?y\<bar> \<le> 2 * \<bar>?x\<bar>" by linarith+
  have "(2 :: rat) powi (- 100) \<le> 1 / 2" "(2 :: rat) * 2 ^ 51 \<le> 2 ^ 100" by (simp_all add: small)
  then have y1: "2 powi (- 100) \<le> \<bar>?y\<bar>" "\<bar>?y\<bar> \<le> 2 ^ 100" "\<bar>?y\<bar> \<le> 2 * \<bar>?x\<bar>"
    using y2 x1 by linarith+
  obtain y where y: "dbl ?y = Finite y" "\<bar>y - ?y\<bar> \<le> \<bar>?y\<bar> / 2 ^ 53"
    using dbl_small [OF y1(1,2)] by blast
  have "\<bar>y - ?x\<bar> \<le> \<bar>?y\<bar> / 2 ^ 53 + \<bar>?x\<bar> / 2 ^ 53" using y(2) e1 by linarith
  then have "\<bar>y - ?x\<bar> < 1" using y1(3) x1(2) by simp
  from trunc_near [OF this] have t: "trunc y = delta d \<or> (0 < delta d \<and> trunc y = delta d - 1)
      \<or> (delta d < 0 \<and> trunc y = delta d + 1)" .
  then have "in_i64 (trunc y)" using assms by (auto simp: in_i64_def)
  then have "td_FromSecondsF (td_ToSecondsF d) = Inr (TimeDelta (trunc y))"
    using ex s(1) y(1) by (simp add: td_FromSecondsF_def td_ToSecondsF_def i64_def td_FromNanoseconds_def)
  then show ?thesis using t by blast
qed

end
