(* ===== verification/Fs_Ios_Worker.thy ===== *)
theory Fs_Ios_Worker
  imports Fs_Worker_Progress Fs_Double
begin

text \<open>
  \<open>src/platform/ios/loop_worker_impl.cc\<close>: a worker on the run loop of the main thread, and the names of threads in
  \<open>src/platform/*/thread_worker_impl.cc\<close>.  What the run loop answers is an input: for each call of
  \<open>CFRunLoopRunInMode\<close> how often it called the callback of the timer, and its result.  The times of the
  run loop are values of \<open>double\<close>, in seconds.  The file calls its class \<open>MainWorker\<close> in the constructor and the
  destructor, and \<open>OnRun\<close> and \<open>DoGetNextTask\<close> are not methods of the class it includes; the functions are taken as
  they are written.
\<close>

section \<open>The timer\<close>

definition dbl_plus :: "double \<Rightarrow> double \<Rightarrow> double" where
  "dbl_plus a b = (case (a, b) of (Finite x, Finite y) \<Rightarrow> dbl (x + y) | _ \<Rightarrow> NotFinite)"

text \<open>A \<open>CFRunLoopTimer\<close>: its next date, whether it is valid, and whether it is one of the timers of the loop.\<close>

record cf_timer =
  next_fire :: double
  cf_valid :: bool
  cf_in_loop :: bool

definition kInterval :: double where
  "kInterval = Finite (10 ^ 10)"

text \<open>The constructor creates the timer and does not add it to the loop; the destructor removes it.\<close>

definition ios_new :: cf_timer where
  "ios_new = \<lparr>next_fire = kInterval, cf_valid = True, cf_in_loop = False\<rparr>"

definition ios_destroy :: "cf_timer \<Rightarrow> cf_timer" where
  "ios_destroy t = (t\<lparr>cf_valid := False\<rparr>)\<lparr>cf_in_loop := False\<rparr>"

text \<open>\<open>now\<close> is the value of \<open>CFAbsoluteTimeGetCurrent\<close>.\<close>

definition ios_Notify :: "double \<Rightarrow> cf_timer \<Rightarrow> cf_timer" where
  "ios_Notify now t = t\<lparr>next_fire := now\<rparr>"

definition ios_WaitFor :: "double \<Rightarrow> time_delta \<Rightarrow> cf_timer \<Rightarrow> cf_timer" where
  "ios_WaitFor now d t = t\<lparr>next_fire := dbl_plus now (td_ToSecondsF d)\<rparr>"

text \<open>No operation of the worker ever puts the timer into the loop.\<close>

lemma ios_timer_never_in_loop:
  "\<not> cf_in_loop ios_new" "cf_in_loop (ios_Notify now t) = cf_in_loop t"
  "cf_in_loop (ios_WaitFor now d t) = cf_in_loop t" "\<not> cf_in_loop (ios_destroy t)"
  by (simp_all add: ios_new_def ios_Notify_def ios_WaitFor_def ios_destroy_def)

section \<open>The loop\<close>

definition ios_DoGetNextTask :: "clock \<Rightarrow> nat \<Rightarrow> sys \<Rightarrow> (task option \<times> sys) res" where
  "ios_DoGetNextTask clk me s = GetNextTask clk me s"

definition ios_OnTimerFire ::
    "(nat \<Rightarrow> exec_code \<Rightarrow> sys \<Rightarrow> sys res) \<Rightarrow> clock \<Rightarrow> nat \<Rightarrow> sys \<Rightarrow> sys res" where
  "ios_OnTimerFire exec clk me s = bind_res (RunTask exec clk me s) (\<lambda>(again, s'). Inr s')"

fun ios_fires ::
    "(nat \<Rightarrow> exec_code \<Rightarrow> sys \<Rightarrow> sys res) \<Rightarrow> clock \<Rightarrow> nat \<Rightarrow> nat \<Rightarrow> sys \<Rightarrow> sys res" where
  "ios_fires exec clk me 0 s = Inr s"
| "ios_fires exec clk me (Suc n) s = bind_res (ios_OnTimerFire exec clk me s) (ios_fires exec clk me n)"

datatype cf_result = RunFinished | RunStopped | RunTimedOut | RunHandledSource

fun ios_OnRun ::
    "(nat \<Rightarrow> exec_code \<Rightarrow> sys \<Rightarrow> sys res) \<Rightarrow> clock \<Rightarrow> nat \<Rightarrow> (nat \<times> cf_result) list \<Rightarrow> sys \<Rightarrow> sys res option" where
  "ios_OnRun exec clk me [] s = (if is_terminated (s_workers s me) then Some (Inr s) else None)"
| "ios_OnRun exec clk me ((fires, result) # cs) s =
     (if is_terminated (s_workers s me) then Some (Inr s)
      else (case ios_fires exec clk me fires s of
              Inl f \<Rightarrow> Some (Inl f)
            | Inr s1 \<Rightarrow>
                if result = RunStopped \<or> result = RunFinished then
                  (case RunTask exec clk me s1 of
                     Inl f \<Rightarrow> Some (Inl f)
                   | Inr (again, s2) \<Rightarrow>
                       ios_OnRun exec clk me cs (set_worker me ((s_workers s2 me)\<lparr>is_terminated := True\<rparr>) s2))
                else ios_OnRun exec clk me cs s1))"

text \<open>The loop ends at the first result that says the run loop is stopped or has nothing left, with one more task.\<close>

lemma ios_OnRun_ends:
  assumes "\<exists>c \<in> set cs. snd c = RunStopped \<or> snd c = RunFinished"
  shows "ios_OnRun exec clk me cs s \<noteq> None"
  using assms
proof (induction cs arbitrary: s)
  case (Cons c cs)
  obtain k r where c: "c = (k, r)" by (cases c)
  have t: "ios_OnRun exec clk me cs s' \<noteq> None" if "is_terminated (s_workers s' me)" for s'
    using that by (cases cs) auto
  show ?case using Cons t by (auto simp: c set_worker_def split: sum.split prod.split)
qed simp

text \<open>
  With a run loop that has no source and no timer, which answers \<open>RunFinished\<close> at once, a worker runs one task and
  is terminated, whatever waits in its queues.
\<close>

lemma ios_OnRun_single:
  assumes "\<not> is_terminated (s_workers s me)" and "RunTask exec clk me s = Inr (again, s1)"
  shows "ios_OnRun exec clk me ((0, RunFinished) # cs) s
    = Some (Inr (set_worker me ((s_workers s1 me)\<lparr>is_terminated := True\<rparr>) s1))"
  using assms by (cases cs) (auto simp: set_worker_def)

section \<open>Names of threads\<close>

text \<open>
  What \<open>SetName\<close> asks of the system, if anything; a C string ends before the first null character.
  \<open>thread_id\<close> is the value of \<open>GetCurrentThreadId()\<close>.
\<close>

definition c_str :: "string \<Rightarrow> string" where
  "c_str name = takeWhile (\<lambda>c. c \<noteq> CHR 0x00) name"

datatype name_call = SetSelfName string | SetThreadName string | RaiseName u32 "u32 \<times> string \<times> u32 \<times> u32"

definition adr_SetName :: "string \<Rightarrow> name_call option" where
  "adr_SetName name = (if name = '''' then None else Some (SetThreadName (c_str name)))"

definition ios_SetName :: "string \<Rightarrow> name_call option" where
  "ios_SetName name = (if name = '''' then None else Some (SetSelfName (c_str name)))"

definition linux_SetName :: "string \<Rightarrow> name_call option" where
  "linux_SetName name = (if name = '''' then None else Some (SetThreadName (c_str name)))"

definition mac_SetName :: "string \<Rightarrow> name_call option" where
  "mac_SetName name = (if name = '''' then None else Some (SetSelfName (c_str name)))"

definition win_SetName :: "u32 \<Rightarrow> string \<Rightarrow> name_call option" where
  "win_SetName thread_id name =
     (if name = '''' then None
      else Some (RaiseName 0x406D1388 (0x1000, c_str name, thread_id, 0)))"

end
