(* ===== verification/Fs_Time_Props.thy ===== *)
theory Fs_Time_Props
  imports Fs_Double
begin

text \<open>
  The properties of durations and points of time that are not about the scheduler: every operation stays in
  64 bits or is undefined, and what a conversion to seconds in \<open>double\<close> and back loses.
\<close>

section \<open>Division stays in range\<close>

text \<open>The quotient of two values of 64 bits fits, but for the least one by -1.\<close>

lemma sdiv_in_i64:
  assumes "in_i64 a" and "b \<noteq> 0"
  shows "in_i64 (a sdiv b) \<longleftrightarrow> \<not> (a = - (2 ^ 63) \<and> b = - 1)"
proof -
  have le: "\<bar>a\<bar> div \<bar>b\<bar> \<le> \<bar>a\<bar>" 
    using zdiv_mono2 [of "\<bar>a\<bar>" 1 "\<bar>b\<bar>"] assms(2) by simp
  have s: "a sdiv b = sgn a * sgn b * (\<bar>a\<bar> div \<bar>b\<bar>)" by (simp add: signed_divide_int_def)
  have p: "0 \<le> \<bar>a\<bar> div \<bar>b\<bar>" using assms(2) by (simp add: pos_imp_zdiv_nonneg_iff)
  then have q: "\<bar>a sdiv b\<bar> \<le> \<bar>a\<bar> div \<bar>b\<bar>" by (auto simp: s abs_mult sgn_if)
  then have ab: "\<bar>a sdiv b\<bar> \<le> \<bar>a\<bar>" using le by simp
  show ?thesis
  proof (cases "a = - (2 ^ 63)")
    case False
    then have "\<bar>a\<bar> < 2 ^ 63" using assms(1) by (auto simp: in_i64_def abs_if)
    then show ?thesis using ab False by (auto simp: in_i64_def)
  next
    case min: True
    show ?thesis
    proof (cases "b = - 1 \<or> b = 1")
      case True
      then show ?thesis using min by (auto simp: in_i64_def s)
    next
      case False
      then have "2 \<le> \<bar>b\<bar>" using assms(2) by arith
      then have "\<bar>a\<bar> div \<bar>b\<bar> \<le> \<bar>a\<bar> div 2" by (intro zdiv_mono2) simp_all
      then have "\<bar>a sdiv b\<bar> \<le> 2 ^ 62" using q min by simp
      then show ?thesis using False by (auto simp: in_i64_def)
    qed
  qed
qed

lemma smod_in_i64:
  assumes "in_i64 a" and "in_i64 b" and "b \<noteq> 0"
  shows "in_i64 (a smod b)"
proof -
  have "\<bar>a smod b\<bar> < \<bar>b\<bar>"
    using assms(3) abs_mod_less [of "\<bar>b\<bar>" "\<bar>a\<bar>"] by (simp add: signed_modulo_int_def abs_mult sgn_if)
  then show ?thesis using assms(2) by (auto simp: in_i64_def)
qed

lemma i64_div_returns:
  "in_i64 a \<Longrightarrow> returns (i64_div a b) \<longleftrightarrow> b \<noteq> 0 \<and> \<not> (a = - (2 ^ 63) \<and> b = - 1)"
  using sdiv_in_i64 [of a b] by (simp add: i64_div_def i64_def)

lemma i64_mod_returns:
  "in_i64 a \<Longrightarrow> in_i64 b \<Longrightarrow> returns (i64_mod a b) \<longleftrightarrow> b \<noteq> 0 \<and> \<not> (a = - (2 ^ 63) \<and> b = - 1)"
  using sdiv_in_i64 [of a b] smod_in_i64 [of a b] by (simp add: i64_mod_def i64_def)

section \<open>Rounding, computed\<close>

text \<open>A number is rounded at the binary place that its size gives.\<close>

lemma dexp_unique:
  assumes "2 powi e \<le> \<bar>x\<bar>" and "\<bar>x\<bar> < 2 powi (e + 1)" and "x \<noteq> 0"
  shows "dexp x = e"
proof -
  have up: "(2 :: rat) powi (a + 1) \<le> 2 powi b" if "a < b" for a b
    by (rule power_int_increasing) (use that in simp_all)
  note d = dexp_bounds [OF assms(3)]
  have "\<not> dexp x < e" "\<not> e < dexp x" using up [of "dexp x" e] up [of e "dexp x"] d assms(1,2) by auto
  then show ?thesis by linarith
qed

lemma rnd64_scaled:
  assumes "2 ^ 52 \<le> \<bar>x\<bar> * 2 ^ k" and "\<bar>x\<bar> * 2 ^ k < 2 ^ 53" and "k \<le> 1074"
  shows "rnd64 x = of_int (half_even (x * 2 ^ k)) / 2 ^ k"
proof -
  have e: "(2 :: rat) powi (int n - int k) = 2 ^ n / 2 ^ k" for n by (simp add: power_int_diff)
  have z: "x \<noteq> 0" using assms(1) by auto
  have "dexp x = int 52 - int k"
  proof (rule dexp_unique)
    have "int 52 - int k + 1 = int 53 - int k" by simp
    then show "\<bar>x\<bar> < 2 powi (int 52 - int k + 1)" using assms(2) by (simp only: e) (simp add: field_simps)
    show "2 powi (int 52 - int k) \<le> \<bar>x\<bar>" unfolding e using assms(1) by (simp add: field_simps)
  qed (rule z)
  then have "max (dexp x - 52) (- 1074) = int 0 - int k" using assms(3) by simp
  then show ?thesis using z by (simp only: rnd64_def Let_def if_False e) simp
qed

lemma rnd64_small_Finite: "rnd64 x = r \<Longrightarrow> \<bar>r\<bar> < 2 ^ 64 \<Longrightarrow> dbl x = Finite r"
proof -
  assume a: "rnd64 x = r" "\<bar>r\<bar> < 2 ^ 64"
  have "(2 :: rat) ^ 64 < 2 ^ 1024" by (rule power_strict_increasing) simp_all
  then have "\<bar>r\<bar> < 2 ^ 1024" using a(2) by (rule less_trans [rotated])
  then show ?thesis using a(1) by (simp only: dbl_def Let_def if_True)
qed

lemma half_even_near: "\<bar>x - of_int n\<bar> < 1 / 2 \<Longrightarrow> half_even x = n"
  using half_even_error [of x] by linarith

lemma secondsF_15: "td_FromSecondsF (td_ToSecondsF (TimeDelta 15)) = Inr (TimeDelta 14)"
proof -
  have "rnd64 15 = 15" using rnd64_int [of 15] by simp
  then have 1: "dbl 15 = Finite 15" by (rule rnd64_small_Finite) simp
  have "rnd64 (15 / 1000000000) = 4533471823554859 / 2 ^ 78"
    by (subst rnd64_scaled [where k = 78]) (simp_all add: half_even_near [where n = 4533471823554859])
  then have 2: "dbl (15 / 1000000000) = Finite (4533471823554859 / 2 ^ 78)" by (rule rnd64_small_Finite) simp
  have "rnd64 (4533471823554859 / 2 ^ 78 * 1000000000) = 8444249301319679 / 2 ^ 49"
    by (subst rnd64_scaled [where k = 49]) (simp_all add: half_even_near [where n = 8444249301319679])
  then have 3: "dbl (4533471823554859 / 2 ^ 78 * 1000000000) = Finite (8444249301319679 / 2 ^ 49)" by (rule rnd64_small_Finite) simp
  have 4: "trunc (8444249301319679 / 2 ^ 49) = 14" by (simp add: trunc_def floor_eq_iff)
  have c: "(1000 * 1000 * 1000 :: rat) = 1000000000" by simp
  have 5: "td_ToSecondsF (TimeDelta 15) = Finite (4533471823554859 / 2 ^ 78)"
    by (simp only: td_ToSecondsF_def time_delta.sel of_int_numeral 1 dbl_div.simps c 2)
  have "dbl_to_i64 (Finite (8444249301319679 / 2 ^ 49)) = Inr 14"
    by (simp only: dbl_to_i64.simps 4) (simp add: in_i64_def)
  then show ?thesis
    by (simp only: td_FromSecondsF_def 5 c dbl_times.simps 3) (simp add: td_FromNanoseconds_def)
qed

section \<open>The properties\<close>

text \<open>An operation that returns exactly under \<open>c\<close>, and then a value with the property \<open>P\<close>.\<close>

definition yields :: "'a res \<Rightarrow> bool \<Rightarrow> ('a \<Rightarrow> bool) \<Rightarrow> bool" where
  "yields m c P \<longleftrightarrow> (returns m \<longleftrightarrow> c) \<and> (case m of Inr x \<Rightarrow> P x | Inl _ \<Rightarrow> True)"

text \<open>Division that truncates towards zero, said without an operator for it.\<close>

definition truncating :: "int \<Rightarrow> int \<Rightarrow> int \<Rightarrow> int \<Rightarrow> bool" where
  "truncating a b q r \<longleftrightarrow> a = q * b + r \<and> \<bar>r\<bar> < \<bar>b\<bar> \<and> (r = 0 \<or> sgn r = sgn a)"

lemma truncating_sdiv: "b \<noteq> 0 \<Longrightarrow> truncating a b (a sdiv b) (a smod b)"
proof -
  assume b: "b \<noteq> 0"
  have s: "a smod b = sgn a * (\<bar>a\<bar> mod \<bar>b\<bar>)" by (simp add: signed_modulo_int_def)
  have m: "0 \<le> \<bar>a\<bar> mod \<bar>b\<bar>" "\<bar>a\<bar> mod \<bar>b\<bar> < \<bar>b\<bar>" using b by simp_all
  have "\<bar>a smod b\<bar> < \<bar>b\<bar>" using m b by (auto simp: s abs_mult sgn_if)
  moreover have "a smod b = 0 \<or> sgn (a smod b) = sgn a" using m(1) by (auto simp: s sgn_mult sgn_if)
  moreover have "a = a sdiv b * b + a smod b" using sdiv_smod_eq [of b a] by (simp add: mult.commute)
  ultimately show ?thesis by (simp add: truncating_def)
qed

lemma yields_bind:
  "yields m c P \<Longrightarrow> (\<And>n. P n \<Longrightarrow> Q (f n)) \<Longrightarrow> yields (bind_res m (\<lambda>n. Inr (f n))) c Q"
  by (cases m) (simp_all add: yields_def)

lemma yields_i64: "yields (i64 z) (in_i64 z) (\<lambda>n. in_i64 n \<and> n = z)"
  by (simp add: yields_def i64_def)

lemma yields_div:
  assumes "in_i64 a"
  shows "yields (i64_div a b) (b \<noteq> 0 \<and> \<not> (a = - (2 ^ 63) \<and> b = - 1)) (\<lambda>q. in_i64 q \<and> (\<exists>r. truncating a b q r))"
  unfolding yields_def using i64_div_returns [OF assms, of b] truncating_sdiv [of b a]
  by (auto simp: i64_div_def i64_def)

lemma yields_mod:
  assumes "in_i64 a" and "in_i64 b"
  shows "yields (i64_mod a b) (b \<noteq> 0 \<and> \<not> (a = - (2 ^ 63) \<and> b = - 1)) (\<lambda>r. in_i64 r \<and> (\<exists>q. truncating a b q r))"
  unfolding yields_def using i64_mod_returns [OF assms] truncating_sdiv [of b a]
  by (auto simp: i64_mod_def i64_def)

text \<open>The product of the quotient and the divisor lies between zero and the dividend, so it never overflows.\<close>

lemma sdiv_times_in_i64:
  assumes "in_i64 a" and "b \<noteq> 0"
  shows "in_i64 (b * (a sdiv b))"
proof -
  have e: "b * (a sdiv b) = sgn a * (\<bar>b\<bar> * (\<bar>a\<bar> div \<bar>b\<bar>))"
    by (simp add: signed_divide_int_def abs_sgn ac_simps)
  have "0 \<le> \<bar>a\<bar> mod \<bar>b\<bar>" using assms(2) by simp
  then have "\<bar>b\<bar> * (\<bar>a\<bar> div \<bar>b\<bar>) \<le> \<bar>a\<bar>" by (metis mult_div_mod_eq le_add_same_cancel1)
  moreover have "0 \<le> \<bar>b\<bar> * (\<bar>a\<bar> div \<bar>b\<bar>)" using assms(2) by (simp add: pos_imp_zdiv_nonneg_iff)
  ultimately show ?thesis using assms(1) by (auto simp: e in_i64_def sgn_if abs_if split: if_splits)
qed

lemma td_ok_From [simp]: "td_ok (td_FromNanoseconds n) = in_i64 n" "tp_ok (TimePoint n) = in_i64 n"
  "delta (td_FromNanoseconds n) = n"
  by (simp_all add: td_ok_def tp_ok_def td_FromNanoseconds_def)

lemma td_quotient_remainder:
  assumes "td_ok a" and "td_div a b = Inr k" and "td_mod a b = Inr r"
  shows "bind_res (td_times b k) (\<lambda>x. td_plus x r) = Inr a"
proof -
  have b: "delta b \<noteq> 0" and k: "k = delta a sdiv delta b" and r: "r = td_FromNanoseconds (delta a smod delta b)"
    using assms(2,3) by (auto simp: td_div_def td_mod_def i64_div_def i64_mod_def bind_res_Inr_iff split: if_splits)
  have "in_i64 (delta b * k)" unfolding k using assms(1) b by (intro sdiv_times_in_i64) (simp_all add: td_ok_def)
  moreover have "delta b * k + delta a smod delta b = delta a" unfolding k by (rule sdiv_smod_eq)
  ultimately show ?thesis using assms(1)
    by (simp add: td_times_def td_plus_def td_ok_def r) (simp add: td_FromNanoseconds_def)
qed

lemma tp_moved_back:
  assumes "tp_ok p" and "td_ok a" and "tp_plus p a = Inr x"
  shows "tp_diff x p = Inr a \<and> tp_minus x a = Inr p"
  using assms
  by (auto simp: tp_plus_def tp_diff_def tp_minus_def td_ToNanoseconds_def bind_res_Inr_iff td_ok_def tp_ok_def
      td_FromNanoseconds_def)

text \<open>C17. The arithmetic of durations and points of time is typed and exact: on objects whose count fits 64 bits an
  operation returns exactly when the exact result fits (for a division and a remainder, when the divisor is
  not zero and it is not the least duration by -1, the remainder of which is 0 and undefined all the same), and it
  returns that result, an object of 64 bits again; quotients truncate towards zero.  The operators fit together: the
  divisor times the quotient plus the remainder is computed without overflow and is the dividend, and a point of time
  moved by a duration gives the duration as its distance and the point when it is moved back.\<close>

theorem time_arithmetic_typed:
  assumes "td_ok a" and "td_ok b" and "tp_ok p" and "tp_ok q" and "in_i64 n"
  shows "yields (td_plus a b) (in_i64 (delta a + delta b)) (\<lambda>d. td_ok d \<and> delta d = delta a + delta b)
    \<and> yields (td_minus a b) (in_i64 (delta a - delta b)) (\<lambda>d. td_ok d \<and> delta d = delta a - delta b)
    \<and> yields (td_times a n) (in_i64 (delta a * n)) (\<lambda>d. td_ok d \<and> delta d = delta a * n)
    \<and> yields (td_div_int a n) (n \<noteq> 0 \<and> \<not> (a = td_Min \<and> n = - 1))
        (\<lambda>d. td_ok d \<and> (\<exists>r. truncating (delta a) n (delta d) r))
    \<and> yields (td_div a b) (b \<noteq> td_Zero \<and> \<not> (a = td_Min \<and> b = TimeDelta (- 1)))
        (\<lambda>k. in_i64 k \<and> (\<exists>r. truncating (delta a) (delta b) k r))
    \<and> yields (td_mod a b) (b \<noteq> td_Zero \<and> \<not> (a = td_Min \<and> b = TimeDelta (- 1)))
        (\<lambda>d. td_ok d \<and> (\<exists>k. truncating (delta a) (delta b) k (delta d)))
    \<and> yields (tp_diff p q) (in_i64 (ticks p - ticks q)) (\<lambda>d. td_ok d \<and> delta d = ticks p - ticks q)
    \<and> yields (tp_plus p a) (in_i64 (ticks p + delta a)) (\<lambda>x. tp_ok x \<and> ticks x = ticks p + delta a)
    \<and> yields (tp_minus p a) (in_i64 (ticks p - delta a)) (\<lambda>x. tp_ok x \<and> ticks x = ticks p - delta a)
    \<and> (\<forall>k r. td_div a b = Inr k \<and> td_mod a b = Inr r \<longrightarrow> bind_res (td_times b k) (\<lambda>x. td_plus x r) = Inr a)
    \<and> (\<forall>x. tp_plus p a = Inr x \<longrightarrow> tp_diff x p = Inr a \<and> tp_minus x a = Inr p)"
proof -
  have a: "in_i64 (delta a)" and b: "in_i64 (delta b)" using assms(1,2) by (simp_all add: td_ok_def)
  have z: "a = td_Min \<longleftrightarrow> delta a = - (2 ^ 63)" "b = td_Zero \<longleftrightarrow> delta b = 0" "b = TimeDelta (- 1) \<longleftrightarrow> delta b = - 1"
    by (auto simp: td_const_defs intro: time_delta.expand)
  note y = yields_bind [OF yields_i64] yields_bind [OF yields_div [OF a]] yields_bind [OF yields_mod [OF a b]]
  note defs = td_plus_def td_minus_def td_times_def td_div_int_def td_div_def td_mod_def tp_diff_def
      tp_plus_def tp_minus_def td_ToNanoseconds_def
  have arith: "yields (td_plus a b) (in_i64 (delta a + delta b)) (\<lambda>d. td_ok d \<and> delta d = delta a + delta b)"
    "yields (td_minus a b) (in_i64 (delta a - delta b)) (\<lambda>d. td_ok d \<and> delta d = delta a - delta b)"
    "yields (td_times a n) (in_i64 (delta a * n)) (\<lambda>d. td_ok d \<and> delta d = delta a * n)"
    "yields (tp_diff p q) (in_i64 (ticks p - ticks q)) (\<lambda>d. td_ok d \<and> delta d = ticks p - ticks q)"
    "yields (tp_plus p a) (in_i64 (ticks p + delta a)) (\<lambda>x. tp_ok x \<and> ticks x = ticks p + delta a)"
    "yields (tp_minus p a) (in_i64 (ticks p - delta a)) (\<lambda>x. tp_ok x \<and> ticks x = ticks p - delta a)"
    unfolding defs by (rule y, simp)+
  have division: "yields (td_div_int a n) (n \<noteq> 0 \<and> \<not> (a = td_Min \<and> n = - 1))
        (\<lambda>d. td_ok d \<and> (\<exists>r. truncating (delta a) n (delta d) r))"
    "yields (td_div a b) (b \<noteq> td_Zero \<and> \<not> (a = td_Min \<and> b = TimeDelta (- 1)))
        (\<lambda>k. in_i64 k \<and> (\<exists>r. truncating (delta a) (delta b) k r))"
    "yields (td_mod a b) (b \<noteq> td_Zero \<and> \<not> (a = td_Min \<and> b = TimeDelta (- 1)))
        (\<lambda>d. td_ok d \<and> (\<exists>k. truncating (delta a) (delta b) k (delta d)))"
    unfolding defs z by ((rule y, simp) | rule yields_div [OF a])+
  show ?thesis
    using arith division td_quotient_remainder [OF assms(1), of b] tp_moved_back [OF assms(3,1)] by blast
qed

theorem time_arithmetic_typed_witness:
  "\<not> returns (td_mod td_Min (TimeDelta (- 1))) \<and> returns (td_div_int td_Min 2)
    \<and> returns (tp_plus tp_Max (TimeDelta (- 1))) \<and> \<not> returns (tp_minus tp_Max (TimeDelta (- 1)))"
proof -
  have t: "td_ok td_Min" "td_ok (TimeDelta (- 1))" "tp_ok tp_Max" "in_i64 2" by code_simp+
  have c: "TimeDelta (- 1) \<noteq> td_Zero" "in_i64 (ticks tp_Max + delta (TimeDelta (- 1)))"
    "\<not> in_i64 (ticks tp_Max - delta (TimeDelta (- 1)))" by code_simp+
  show ?thesis
    using time_arithmetic_typed [OF t(1,2,3,3,4)] time_arithmetic_typed [OF t(2,2,3,3,4)] c
    by (simp add: yields_def)
qed

text \<open>C18. \<open>FromSecondsF\<close> undoes \<open>ToSecondsF\<close> but for one nanosecond: for durations of up to 2 ^ 51 nanoseconds (26 days)
  the way there and back returns, in spite of two roundings and the truncation, the duration or the one that
  is a nanosecond closer to zero.  The loss is real: 15 nanoseconds come back as 14.\<close>

theorem secondsF_back:
  assumes "\<bar>delta d\<bar> \<le> 2 ^ 51"
  shows "(\<exists>n. td_FromSecondsF (td_ToSecondsF d) = Inr (TimeDelta n)
      \<and> (n = delta d \<or> (0 < delta d \<and> n = delta d - 1) \<or> (delta d < 0 \<and> n = delta d + 1)))
    \<and> td_FromSecondsF (td_ToSecondsF (TimeDelta 15)) = Inr (TimeDelta 14)"
  using secondsF_roundtrip [OF assms] secondsF_15 by blast

theorem secondsF_back_witness:
  "\<exists>n \<in> {- 999999999, - 999999998}. td_FromSecondsF (td_ToSecondsF (TimeDelta (- 999999999))) = Inr (TimeDelta n)"
  using secondsF_back [of "TimeDelta (- 999999999)"] by auto

end
