(* ===== verification/Fs_Scheduler.thy ===== *)
theory Fs_Scheduler
  imports Fs_Manager_Facts
begin

text \<open>
  The manager, its workers, their runners and the client together.  A run is a list of events: the client creates
  a runner, posts from outside, removes a runner, makes the pool smaller or terminates a worker, and a worker makes
  a round of its loop (\<open>Worker::RunTask\<close>), in which a closure of the client may post in its turn.  Every event is
  an operation of the code, on the state the other components use; what a closure of the client does is a
  list of posts.  Two lists beside the state record which closures were posted and which ran.

  Growing the pool and binding sub runners are not events: the first loses groups, the second leaves
  the runner without a worker.
\<close>

section \<open>Posts of the client\<close>

datatype action = APost nat nat | APostDelayed nat nat time_delta | APostIdle nat idle_task

fun do_action :: "clock \<Rightarrow> action \<Rightarrow> sys \<Rightarrow> sys res" where
  "do_action clk (APost r f) s =
     bind_res (PostTask_callable (s_alive s) f (s_task_counter s) (s_runners s r))
       (\<lambda>((wk, tr), c). Inr (notify wk ((set_runner r tr s)\<lparr>s_task_counter := c\<rparr>)))"
| "do_action clk (APostDelayed r f delay) s =
     (let (now, s1) = Now clk s in
      bind_res (PostDelayedTask_callable (s_alive s1) now f delay (s_task_counter s1) (s_runners s1 r))
        (\<lambda>((wk, tr), c). Inr (notify wk ((set_runner r tr s1)\<lparr>s_task_counter := c\<rparr>))))"
| "do_action clk (APostIdle r it) s =
     bind_res (PostIdleTask (s_alive s) (Some it) (s_runners s r))
       (\<lambda>(wk, tr). Inr (notify wk (set_runner r tr s)))"

fun do_actions :: "clock \<Rightarrow> action list \<Rightarrow> sys \<Rightarrow> sys res" where
  "do_actions clk [] s = Inr s"
| "do_actions clk (a # as) s = bind_res (do_action clk a s) (do_actions clk as)"

text \<open>The closures that an action posts as tasks.\<close>

fun action_posts :: "action \<Rightarrow> nat list" where
  "action_posts (APost r f) = [f]"
| "action_posts (APostDelayed r f delay) = [f]"
| "action_posts (APostIdle r it) = []"

text \<open>
  A client gives the actions of each closure and of each idle closure; \<open>client_exec\<close> is what a task does when it
  runs, the closures of the library included.
\<close>

record client =
  on_task :: "nat \<Rightarrow> action list"
  on_idle :: "nat \<Rightarrow> action list"

definition idle_actions :: "client \<Rightarrow> idle_code \<Rightarrow> action list" where
  "idle_actions c u = (case u of UserIdle k \<Rightarrow> on_idle c k | TimerIdle i \<Rightarrow> [])"

definition client_exec :: "clock \<Rightarrow> client \<Rightarrow> nat \<Rightarrow> exec_code \<Rightarrow> sys \<Rightarrow> sys res" where
  "client_exec clk c =
     lib_exec (\<lambda>f. do_actions clk (on_task c f)) (\<lambda>u p. do_actions clk (idle_actions c u)) (\<lambda>n. Inr)"

definition code_actions :: "client \<Rightarrow> exec_code option \<Rightarrow> action list" where
  "code_actions c u =
     (case u of
        Some (UserCode f) \<Rightarrow> on_task c f
      | Some (RunIdle i p) \<Rightarrow> (case idle_unit i of Some k \<Rightarrow> idle_actions c k | None \<Rightarrow> [])
      | _ \<Rightarrow> [])"

section \<open>Runs\<close>

record sched =
  sd_manager :: manager
  sd_sys :: sys
  sd_fresh :: nat
  sd_counter :: u32
  sd_posted :: "nat list"
  sd_ran :: "nat list"

datatype event =
    EvCreate u32 u32 bool string
  | EvAction action
  | EvRound nat
  | EvRemove nat
  | EvShrink nat
  | EvTerminate nat

definition unit_of :: "task option \<Rightarrow> exec_code option" where
  "unit_of t = (case t of Some x \<Rightarrow> task_unit x | None \<Rightarrow> None)"

fun user_codes :: "exec_code option \<Rightarrow> nat list" where
  "user_codes (Some (UserCode f)) = [f]"
| "user_codes _ = []"

fun sched_do :: "clock \<Rightarrow> client \<Rightarrow> event \<Rightarrow> sched \<Rightarrow> sched res" where
  "sched_do clk c (EvCreate g prio sched name) d =
     bind_res (CreateTaskRunner (sd_fresh d) (sd_counter d) g prio sched name (sd_manager d, sd_sys d))
       (\<lambda>(n, m, s). Inr (d\<lparr>sd_manager := m, sd_sys := s, sd_fresh := Suc (sd_fresh d), sd_counter := n\<rparr>))"
| "sched_do clk c (EvAction a) d =
     bind_res (do_action clk a (sd_sys d)) (\<lambda>s. Inr (d\<lparr>sd_sys := s, sd_posted := sd_posted d @ action_posts a\<rparr>))"
| "sched_do clk c (EvRound wk) d =
     bind_res (GetNextTask clk wk (sd_sys d)) (\<lambda>(t, _).
     bind_res (RunTask (client_exec clk c) clk wk (sd_sys d)) (\<lambda>(_, s).
       Inr (d\<lparr>sd_sys := s, sd_ran := sd_ran d @ user_codes (unit_of t),
         sd_posted := sd_posted d @ concat (map action_posts (code_actions c (unit_of t)))\<rparr>)))"
| "sched_do clk c (EvRemove r) d = Inr (d\<lparr>sd_sys := RemoveTaskRunner r (sd_manager d, sd_sys d)\<rparr>)"
| "sched_do clk c (EvShrink k) d =
     bind_res (Resize False (\<lambda>_. 0) 0 (m_size (sd_manager d) - int k) (sd_manager d, sd_sys d))
       (\<lambda>(m, s). Inr (d\<lparr>sd_manager := m, sd_sys := s\<rparr>))"
| "sched_do clk c (EvTerminate wk) d = Inr (d\<lparr>sd_sys := Terminate wk (sd_sys d)\<rparr>)"

fun sched_run :: "clock \<Rightarrow> client \<Rightarrow> event list \<Rightarrow> sched \<Rightarrow> sched res" where
  "sched_run clk c [] d = Inr d"
| "sched_run clk c (e # es) d = bind_res (sched_do clk c e d) (sched_run clk c es)"

text \<open>A process that has created its manager, with \<open>n\<close> workers, and nothing else.\<close>

definition empty_sys :: sys where
  "empty_sys =
     \<lparr>s_workers = (\<lambda>_. Worker_new 0 True ''''), s_alive = (\<lambda>_. False),
      s_runners = (\<lambda>_. fst (TaskRunner_new 0 0 1 True '''')), s_threads = (\<lambda>_. fresh_thread), s_clock = 0,
      s_task_counter = 0, s_worker_counter = 0, s_waits = [], s_notified = []\<rparr>"

definition boot :: "(nat \<Rightarrow> u32) \<Rightarrow> int \<Rightarrow> sched" where
  "boot mem n =
     (let (m, s) = WorkerManager_new mem 0 n empty_sys
      in \<lparr>sd_manager = m, sd_sys = s, sd_fresh = 0, sd_counter = 0, sd_posted = [], sd_ran = []\<rparr>)"

section \<open>What an operation leaves alone\<close>

lemma TaskRunner_new_simps [simp]:
  "tr_worker (fst (TaskRunner_new c g p b n)) = None"
  "pending_tasks (fst (TaskRunner_new c g p b n)) = {#}"
  by (simp_all add: TaskRunner_new_def pending_tasks_def dq_empty_def)

text \<open>
  \<open>keeps_seats s s'\<close>: every worker has the groups, the flag and the immediate tasks it had, every runner its
  worker, and no worker was created or destroyed.
\<close>

definition keeps_seats :: "sys \<Rightarrow> sys \<Rightarrow> bool" where
  "keeps_seats s s' \<longleftrightarrow> (\<forall>a. groups_of (s_workers s' a) = groups_of (s_workers s a)
       \<and> same_flags (s_workers s a) (s_workers s' a))
     \<and> (\<forall>r. tr_worker (s_runners s' r) = tr_worker (s_runners s r)) \<and> s_alive s' = s_alive s"

lemma keeps_seats_refl [simp]: "keeps_seats s s"
  by (simp add: keeps_seats_def)

lemma keeps_seats_trans: "keeps_seats a b \<Longrightarrow> keeps_seats b c \<Longrightarrow> keeps_seats a c"
  by (auto simp: keeps_seats_def intro: same_flags_trans)


lemma GetNext_worker: "tr_ok r \<Longrightarrow> GetNext now r = (t, r') \<Longrightarrow> tr_worker r' = tr_worker r"
proof -
  assume a: "tr_ok r" "GetNext now r = (t, r')"
  have "tr_worker (gather now r) = tr_worker r" by (rule gather_spec [OF a(1), of now]) simp
  then show ?thesis using a(2) by (auto simp: GetNext_gather PopTask_def split: list.splits)
qed

lemma scan_miss_worker:
  assumes "scan_miss now f sc = Inr sc'"
  shows "tr_worker (sc_runners sc' r) = tr_worker (sc_runners sc r)"
proof -
  obtain i f' where pop: "PopIdleTask (sc_runners sc f) = (i, f')" by (cases "PopIdleTask (sc_runners sc f)")
  then have "tr_worker f' = tr_worker (sc_runners sc f)" by (auto simp: PopIdleTask_def split: list.splits)
  then show ?thesis
    using assms pop by (auto simp: scan_miss_def Let_def bind_res_Inr_iff split: option.splits if_splits)
qed

lemma scan_groups_worker:
  "\<forall>r. tr_ok (sc_runners sc r) \<Longrightarrow> scan_groups clk now gs sc = Inr (found, sc') \<Longrightarrow>
     tr_worker (sc_runners sc' r) = tr_worker (sc_runners sc r)"
proof (induction gs arbitrary: sc)
  case Nil
  then show ?case by simp
next
  case (Cons g gs)
  obtain t r' where g: "GetNext (clk (sc_clock sc)) (sc_runners sc (last g)) = (t, r')"
    by (cases "GetNext (clk (sc_clock sc)) (sc_runners sc (last g))")
  define sc1 where "sc1 = sc\<lparr>sc_runners := (sc_runners sc)(last g := r'), sc_clock := Suc (sc_clock sc)\<rparr>"
  have ok1: "\<forall>r. tr_ok (sc_runners sc1 r)" using Cons.prems(1) tr_ok_GetNext [OF _ g] by (simp add: sc1_def)
  have w1: "tr_worker (sc_runners sc1 r) = tr_worker (sc_runners sc r)"
    using Cons.prems(1) GetNext_worker [OF _ g] by (simp add: sc1_def)
  have run: "(case t of Some x \<Rightarrow> Inr (Some (x, last g, g), sc1)
      | None \<Rightarrow> bind_res (scan_miss now (hd g) sc1) (scan_groups clk now gs)) = Inr (found, sc')"
    using Cons.prems(2) unfolding sc1_def by (simp add: scan_groups_Cons g Let_def split: if_splits)
  show ?case
  proof (cases t)
    case (Some x)
    then show ?thesis using run w1 by auto
  next
    case None
    then obtain sc2 where m: "scan_miss now (hd g) sc1 = Inr sc2" and rest: "scan_groups clk now gs sc2 = Inr (found, sc')"
      using run by auto
    have "\<forall>r. tr_ok (sc_runners sc2 r)"
      using ok1 same_tasksD(2) scan_miss_spec [OF m] by blast
    then show ?thesis using Cons.IH [OF _ rest] scan_miss_worker [OF m, of r] w1 by simp
  qed
qed

lemma prepare_groups_worker:
  "prepare_groups R w = Inr (R', w') \<Longrightarrow> tr_worker (R' r) = tr_worker (R r)"
  by (auto simp: prepare_groups_def BalanceNoLock_def set_times_apply SetTime_def bind_res_Inr_iff split: if_splits)

lemma after_scan_alive: "after_scan me i s = (t, s') \<Longrightarrow> s_alive s' = s_alive s"
  by (auto simp: after_scan_def Let_def Task_new_def split: if_splits option.splits)

lemma set_thread_alive [simp]: "s_alive (set_thread me th s) = s_alive s"
  by (simp add: set_thread_def)

lemma scan_end_alive [simp]: "s_alive (scan_end me s w sc) = s_alive s"
  by (simp add: scan_end_def set_worker_def)

lemma GetNextTask_keeps:
  assumes "\<forall>r. tr_ok (s_runners s r)" and "immediate_task_queue (s_workers s me) = []"
    and "GetNextTask clk me s = Inr (t, s')"
  shows "keeps_seats s s'"
proof -
  obtain R1 w1 found sc where prep: "prepare_groups (s_runners s) (s_workers s me) = Inr (R1, w1)"
    and scan: "scan_groups clk (clk (s_clock s)) (running_groups w1) (scan_start clk s R1 w1) = Inr (found, sc)"
    and res: "(case found of
            Some (x, runner, g) \<Rightarrow> t = Some x \<and> s' = set_thread me
              ((s_threads s me)\<lparr>curr_group := g, local_runner := Some runner\<rparr>) (scan_end me s w1 sc)
          | None \<Rightarrow> (t, s') = after_scan me (sc_idle sc) (scan_end me s w1 sc))"
    using GetNextTask_elim [OF assms(3,2)] by blast
  have s': "s_runners s' = sc_runners sc" "s_workers s' = s_workers (scan_end me s w1 sc)" "s_alive s' = s_alive s"
    using res after_scan_keeps(1,2) [of me "sc_idle sc" "scan_end me s w1 sc" t s']
      after_scan_alive [of me "sc_idle sc" "scan_end me s w1 sc" t s']
    by (auto split: option.splits prod.splits)
  have "\<forall>r. tr_ok (sc_runners (scan_start clk s R1 w1) r)"
    using assms(1) same_tasksD(2) [OF prepare_groups_spec(6) [OF prep]] by (simp add: scan_start_def)
  then have "tr_worker (sc_runners sc r) = tr_worker (s_runners s r)" for r
    using scan_groups_worker [OF _ scan, of r] prepare_groups_worker [OF prep, of r] by (simp add: scan_start_def)
  moreover have "groups_of (s_workers s' a) = groups_of (s_workers s a) \<and> same_flags (s_workers s a) (s_workers s' a)" for a
    using prepare_groups_spec(2,3,4) [OF prep] s'(2)
    by (cases "a = me") (auto simp: groups_of_def same_flags_def)
  ultimately show ?thesis using s'(1,3) by (simp add: keeps_seats_def)
qed

text \<open>A post, from outside or by a closure, touches one runner.\<close>

lemma lock_worker_alive: "lock_worker alive r = Some w \<longleftrightarrow> tr_worker r = Some w \<and> alive w"
  by (auto simp: lock_worker_def split: option.splits)

lemma set_runner_simps [simp]:
  "s_workers (set_runner r tr s) = s_workers s" "s_alive (set_runner r tr s) = s_alive s"
  "s_runners (set_runner r tr s) = (s_runners s)(r := tr)" "s_threads (set_runner r tr s) = s_threads s"
  "s_notified (set_runner r tr s) = s_notified s"
  by (simp_all add: set_runner_def)

lemma notify_simps [simp]:
  "s_workers (notify w s) = s_workers s" "s_alive (notify w s) = s_alive s" "s_runners (notify w s) = s_runners s"
  "s_threads (notify w s) = s_threads s" "s_notified (notify w s) = s_notified s @ [w]"
  by (simp_all add: notify_def)

section \<open>Closures that wait\<close>

text \<open>The closures of the tasks that wait at the runners below \<open>n\<close>.\<close>

definition closures :: "nat \<Rightarrow> sys \<Rightarrow> exec_code option multiset" where
  "closures n s = (\<Sum>r<n. image_mset unit_of (pending_tasks (s_runners s r)))"

abbreviation user_units :: "nat list \<Rightarrow> exec_code option multiset" where
  "user_units fs \<equiv> mset (map (\<lambda>f. Some (UserCode f)) fs)"

lemma closures_upd:
  assumes "r < n" and "\<And>q. q \<noteq> r \<Longrightarrow> pending_tasks (s_runners s' q) = pending_tasks (s_runners s q)"
  shows "closures n s' + image_mset unit_of (pending_tasks (s_runners s r))
    = closures n s + image_mset unit_of (pending_tasks (s_runners s' r))"
proof -
  let ?f = "\<lambda>s r. image_mset unit_of (pending_tasks (s_runners s r))"
  have split: "(\<Sum>r<n. ?f x r) = ?f x r + (\<Sum>q \<in> {..<n} - {r}. ?f x q)" for x
    by (rule sum.remove) (use assms(1) in simp_all)
  have "(\<Sum>q \<in> {..<n} - {r}. ?f s' q) = (\<Sum>q \<in> {..<n} - {r}. ?f s q)"
    by (rule sum.cong) (simp_all add: assms(2))
  then show ?thesis using split [of s] split [of s'] by (simp add: closures_def ac_simps)
qed

lemma closures_same:
  "(\<And>r. pending_tasks (s_runners s' r) = pending_tasks (s_runners s r)) \<Longrightarrow> closures n s' = closures n s"
  by (simp add: closures_def)

text \<open>
  What a step may do to the scheduler: leave the seats alone, keep the runners well formed, and change the
  closures that wait by what it ran and what it posted.
\<close>

definition step_ok :: "nat \<Rightarrow> sys \<Rightarrow> nat list \<Rightarrow> nat list \<Rightarrow> sys \<Rightarrow> bool" where
  "step_ok n s fs gs s' \<longleftrightarrow> keeps_seats s s' \<and> (\<forall>r. tr_ok (s_runners s' r))
     \<and> closures n s' + user_units fs = closures n s + user_units gs"

lemma step_ok_trans:
  assumes "step_ok n a xs ys b" and "step_ok n b xs' ys' c"
  shows "step_ok n a (xs @ xs') (ys @ ys') c"
proof -
  have a: "closures n b + user_units xs = closures n a + user_units ys"
    and b: "closures n c + user_units xs' = closures n b + user_units ys'"
    using assms unfolding step_ok_def by blast+
  have "closures n c + user_units (xs @ xs') = (closures n c + user_units xs') + user_units xs" by simp
  also have "\<dots> = (closures n b + user_units xs) + user_units ys'" unfolding b by (simp add: ac_simps)
  also have "\<dots> = closures n a + user_units (ys @ ys')" unfolding a by (simp add: ac_simps)
  finally show ?thesis using assms keeps_seats_trans [of a b c] by (simp add: step_ok_def)
qed

lemma step_ok_one_runner:
  assumes "\<forall>r. tr_ok (s_runners s r)" and "r < n"
    and "s_runners s' = (s_runners s)(r := tr)" and "s_workers s' = s_workers s" and "s_alive s' = s_alive s"
    and "tr_ok tr" and "tr_worker tr = tr_worker (s_runners s r)"
    and "image_mset unit_of (pending_tasks tr) = image_mset unit_of (pending_tasks (s_runners s r)) + user_units fs"
  shows "step_ok n s [] fs s'"
  using assms closures_upd [OF assms(2), of s' s] by (simp add: step_ok_def keeps_seats_def)

lemma do_action_ok:
  assumes "do_action clk a s = Inr s'" and "\<forall>r. tr_ok (s_runners s r)"
    and "\<forall>r \<ge> n. tr_worker (s_runners s r) = None"
  shows "step_ok n s [] (action_posts a) s'"
proof -
  have lt: "r < n" if "lock_worker al (s_runners s r) = Some wk" for r wk al
    using that assms(3) by (metis lock_worker_alive not_less option.distinct(1))
  show ?thesis
  proof (cases a)
    case (APost r f)
    let ?t = "\<lparr>task_id = s_task_counter s, task_unit = Some (UserCode f)\<rparr>"
    let ?tr = "(s_runners s r)\<lparr>task_queue := task_queue (s_runners s r) @ [Some ?t]\<rparr>"
    obtain wk where l: "lock_worker (s_alive s) (s_runners s r) = Some wk"
      and s': "s' = notify wk ((set_runner r ?tr s)\<lparr>s_task_counter := s_task_counter s + 1\<rparr>)"
      using assms(1) APost by (auto simp: PostTask_callable_def Task_new_def PostTask_Inr_iff)
    show ?thesis unfolding APost action_posts.simps
      by (rule step_ok_one_runner [OF assms(2) lt [OF l], where tr = ?tr])
        (use assms(2) in \<open>auto simp: s' tr_ok_def pending_tasks_def unit_of_def\<close>)
  next
    case (APostDelayed r f delay)
    let ?t = "\<lparr>task_id = s_task_counter s, task_unit = Some (UserCode f)\<rparr>"
    obtain wk deadline where l: "lock_worker (s_alive s) (s_runners s r) = Some wk"
      and p: "PostDelayedTask (s_alive s) (clk (s_clock s)) (Some ?t) delay (s_runners s r)
        = Inr (wk, (s_runners s r)\<lparr>delayed_task_queue := dq_push (deadline, Some ?t) (delayed_task_queue (s_runners s r))\<rparr>)"
      and s': "s' = notify wk ((set_runner r
        ((s_runners s r)\<lparr>delayed_task_queue := dq_push (deadline, Some ?t) (delayed_task_queue (s_runners s r))\<rparr>)
        (s\<lparr>s_clock := Suc (s_clock s)\<rparr>))\<lparr>s_task_counter := s_task_counter s + 1\<rparr>)"
      using assms(1) APostDelayed
      by (auto simp: PostDelayedTask_callable_def Now_def Task_new_def PostDelayedTask_Inr_iff)
    let ?tr = "(s_runners s r)\<lparr>delayed_task_queue := dq_push (deadline, Some ?t) (delayed_task_queue (s_runners s r))\<rparr>"
    show ?thesis unfolding APostDelayed action_posts.simps
      by (rule step_ok_one_runner [OF assms(2) lt [OF l], where tr = ?tr])
        (use assms(2) tr_ok_PostDelayedTask [OF _ p] dq.entries_push [of "(deadline, Some ?t)"]
          in \<open>auto simp: s' pending_tasks_def unit_of_def\<close>)
  next
    case (APostIdle r it)
    let ?tr = "(s_runners s r)\<lparr>idle_task_queue := idle_task_queue (s_runners s r) @ [Some it]\<rparr>"
    obtain wk where l: "lock_worker (s_alive s) (s_runners s r) = Some wk" and s': "s' = notify wk (set_runner r ?tr s)"
      using assms(1) APostIdle
      by (auto simp: PostIdleTask_def NotifyWorker_def lock_worker_def split: option.splits if_splits)
    show ?thesis unfolding APostIdle action_posts.simps
      by (rule step_ok_one_runner [OF assms(2) lt [OF l], where tr = ?tr])
        (use assms(2) in \<open>auto simp: s' tr_ok_def pending_tasks_def\<close>)
  qed
qed

lemma do_actions_ok:
  "do_actions clk as s = Inr s' \<Longrightarrow> \<forall>r. tr_ok (s_runners s r) \<Longrightarrow> \<forall>r \<ge> n. tr_worker (s_runners s r) = None \<Longrightarrow>
     step_ok n s [] (concat (map action_posts as)) s'"
proof (induction "as" arbitrary: s)
  case Nil
  then show ?case by (simp add: step_ok_def)
next
  case (Cons a as)
  then obtain s1 where a: "do_action clk a s = Inr s1" and rest: "do_actions clk as s1 = Inr s'" by auto
  have 1: "step_ok n s [] (action_posts a) s1" using do_action_ok [OF a Cons.prems(2,3)] .
  then have "\<forall>r. tr_ok (s_runners s1 r)" "\<forall>r \<ge> n. tr_worker (s_runners s1 r) = None"
    using Cons.prems(3) by (simp_all add: step_ok_def keeps_seats_def)
  from step_ok_trans [OF 1 Cons.IH [OF rest this]] show ?case by simp
qed

section \<open>A round of a worker\<close>

lemma step_ok_same:
  "s_runners s' = s_runners s \<Longrightarrow> s_workers s' = s_workers s \<Longrightarrow> s_alive s' = s_alive s \<Longrightarrow>
     \<forall>r. tr_ok (s_runners s r) \<Longrightarrow> step_ok n s [] [] s'"
  by (simp add: step_ok_def keeps_seats_def closures_def)

lemma bill_group_ok:
  "bill_group clk begin g s = Inr s' \<Longrightarrow> \<forall>r. tr_ok (s_runners s r) \<Longrightarrow> step_ok n s [] [] s'"
proof (induction g arbitrary: s)
  case Nil
  then show ?case by (simp add: step_ok_same)
next
  case (Cons q g)
  then obtain d tr where t: "AddTime d (s_runners s q) = Inr tr"
    and rest: "bill_group clk begin g (set_runner q tr (s\<lparr>s_clock := Suc (s_clock s)\<rparr>)) = Inr s'"
    by (auto simp: Now_def)
  let ?s = "set_runner q tr (s\<lparr>s_clock := Suc (s_clock s)\<rparr>)"
  have tr: "pending_tasks tr = pending_tasks (s_runners s q)" "tr_worker tr = tr_worker (s_runners s q)"
    "tr_ok tr = tr_ok (s_runners s q)"
    using t by (auto simp: AddTime_def pending_tasks_def tr_ok_def)
  have "closures n ?s = closures n s" using tr(1) by (intro closures_same) simp
  then have 1: "step_ok n s [] [] ?s" using Cons.prems(2) tr(2,3) by (simp add: step_ok_def keeps_seats_def)
  then have "\<forall>r. tr_ok (s_runners ?s r)" by (simp add: step_ok_def)
  from step_ok_trans [OF 1 Cons.IH [OF rest this]] show ?case by simp
qed

definition lib_unit :: "exec_code option \<Rightarrow> bool" where
  "lib_unit u = (case u of Some (TakeSpecific _ _ _) \<Rightarrow> True | Some (InstallSpecific _ _ _ _) \<Rightarrow> True | _ \<Rightarrow> False)"

lemma Task_Run_client:
  "\<not> lib_unit (task_unit x) \<Longrightarrow> Task_Run (client_exec clk c me) x s = do_actions clk (code_actions c (task_unit x)) s"
  by (auto simp: lib_unit_def Task_Run_def client_exec_def lib_exec_def code_actions_def IdleTask_Run_def
      split: option.splits exec_code.splits)

text \<open>What waits was posted by the client, and is at a runner that exists.\<close>

definition waiting_ok :: "nat \<Rightarrow> sys \<Rightarrow> bool" where
  "waiting_ok n s \<longleftrightarrow> (\<forall>r. tr_ok (s_runners s r)) \<and> (\<forall>r \<ge> n. tr_worker (s_runners s r) = None)
     \<and> (\<forall>u \<in># closures n s. \<exists>f. u = Some (UserCode f))"

lemma took_ok:
  assumes "waiting_ok n s" and "immediate_task_queue (s_workers s me) = []"
    and "\<forall>g \<in># groups_of (s_workers s me). \<forall>r \<in> set g. r < n" and "GetNextTask clk me s = Inr (t, s')"
  shows "step_ok n s (user_codes (unit_of t)) [] s'" and "\<not> lib_unit (unit_of t)"
proof -
  have trs: "\<forall>r. tr_ok (s_runners s r)" using assms(1) by (simp add: waiting_ok_def)
  note k = GetNextTask_keeps [OF trs assms(2,4)] and took = GetNextTask_took [OF trs assms(4,2)]
  have "closures n s' + user_units (user_codes (unit_of t)) = closures n s \<and> \<not> lib_unit (unit_of t)"
    using took(1) unfolding took_def
  proof
    assume a: "(\<forall>r. pending_tasks (s_runners s' r) = pending_tasks (s_runners s r))
       \<and> (\<forall>x. t = Some x \<longrightarrow> is_terminated (s_workers s me) \<and> (\<exists>c p. task_unit x = Some (RunIdle c p)))"
    have c: "closures n s' = closures n s" using a by (intro closures_same) simp
    show ?thesis
    proof (cases t)
      case None
      then show ?thesis using c by (simp add: unit_of_def lib_unit_def)
    next
      case (Some x)
      then obtain i p where "task_unit x = Some (RunIdle i p)" using a by blast
      then show ?thesis using c Some by (simp add: unit_of_def lib_unit_def)
    qed
  next
    assume "\<exists>x r g. t = Some x \<and> g \<in># groups_of (s_workers s me) \<and> g \<noteq> [] \<and> r = last g
       \<and> local_runner (s_threads s' me) = Some r \<and> curr_group (s_threads s' me) = g
       \<and> pending_tasks (s_runners s r) = add_mset (Some x) (pending_tasks (s_runners s' r))
       \<and> (\<forall>r'. r' \<noteq> r \<longrightarrow> pending_tasks (s_runners s' r') = pending_tasks (s_runners s r'))"
    then obtain x r g where x: "t = Some x" "g \<in># groups_of (s_workers s me)" "g \<noteq> []" "r = last g"
       "pending_tasks (s_runners s r) = add_mset (Some x) (pending_tasks (s_runners s' r))"
       "\<forall>r'. r' \<noteq> r \<longrightarrow> pending_tasks (s_runners s' r') = pending_tasks (s_runners s r')" by blast
    have "r < n" using assms(3) x(2-4) by simp
    from closures_upd [OF this, of s' s] x(5,6)
    have c: "closures n s = add_mset (task_unit x) (closures n s')" by (simp add: unit_of_def)
    then obtain f where "task_unit x = Some (UserCode f)" using assms(1) by (auto simp: waiting_ok_def)
    then show ?thesis using c x(1) by (simp add: unit_of_def lib_unit_def)
  qed
  then show "step_ok n s (user_codes (unit_of t)) [] s'" and "\<not> lib_unit (unit_of t)"
    using k took(2) by (simp_all add: step_ok_def)
qed

lemma round_ok:
  assumes w: "waiting_ok n s" and "immediate_task_queue (s_workers s me) = []"
    and "\<forall>g \<in># groups_of (s_workers s me). \<forall>r \<in> set g. r < n" and g: "GetNextTask clk me s = Inr (t, s1)"
    and r: "RunTask (client_exec clk c) clk me s = Inr (b, s')"
  shows "step_ok n s (user_codes (unit_of t)) (concat (map action_posts (code_actions c (unit_of t)))) s'"
proof -
  note 1 = took_ok [OF w assms(2,3) g]
  show ?thesis
  proof (cases t)
    case None
    then have "s' = s1" using r g by (simp add: RunTask_def)
    then show ?thesis using 1(1) None by (simp add: unit_of_def code_actions_def)
  next
    case (Some x)
    define s2 where "s2 = set_running me True (s1\<lparr>s_clock := Suc (s_clock s1)\<rparr>)"
    obtain s3 where s3: "Task_Run (client_exec clk c me) x s2 = Inr s3"
      and b: "bill_group clk (clk (s_clock s1)) (curr_group (s_threads (set_running me False s3) me)) (set_running me False s3) = Inr s'"
      using r g Some by (auto simp: RunTask_def Now_def s2_def Let_def)
    have ok1: "\<forall>r. tr_ok (s_runners s1 r)" "\<forall>r \<ge> n. tr_worker (s_runners s1 r) = None"
      using 1(1) w by (simp_all add: step_ok_def keeps_seats_def waiting_ok_def)
    have 2: "step_ok n s1 [] [] s2" using ok1(1) by (intro step_ok_same) (simp_all add: s2_def set_running_def)
    have "do_actions clk (code_actions c (unit_of t)) s2 = Inr s3"
      using s3 Task_Run_client [of x clk c me s2] 1(2) Some by (simp add: unit_of_def)
    then have 3: "step_ok n s2 [] (concat (map action_posts (code_actions c (unit_of t)))) s3"
      using ok1 by (intro do_actions_ok) (simp_all add: s2_def set_running_def)
    then have ok3: "\<forall>r. tr_ok (s_runners s3 r)" by (simp add: step_ok_def)
    then have 4: "step_ok n s3 [] [] (set_running me False s3)" by (intro step_ok_same) (simp_all add: set_running_def)
    have 5: "step_ok n (set_running me False s3) [] [] s'" using b ok3 by (intro bill_group_ok) (simp_all add: set_running_def)
    from step_ok_trans [OF 1(1) step_ok_trans [OF 2 step_ok_trans [OF 3 step_ok_trans [OF 4 5]]]]
    show ?thesis by simp
  qed
qed

end
