(* ===== verification/Fs_Scheduler_Facts.thy ===== *)
theory Fs_Scheduler_Facts
  imports Fs_Scheduler
begin

text \<open>
  The invariant of the scheduler and that every event keeps it: every runner sits in at most one group of one
  worker, that worker is the one the runner points to, it is alive, and what was posted has run or
  waits at a runner that exists.
\<close>

section \<open>Seats\<close>

lemma runners_of_groups: "runners_of w = (\<Sum>g \<in># groups_of w. mset g)"
  by (simp add: runners_of_def groups_of_def sum_mset_sum_list flip: mset_map)

definition seats :: "manager \<Rightarrow> workers \<Rightarrow> nat multiset" where
  "seats m W = held_by runners_of (set (m_workers m)) W"

lemma seats_groups: "seats m W = (\<Sum>g \<in># all_groups m W. mset g)"
proof -
  have "(\<Sum>a \<in> A. \<Sum>g \<in># groups_of (W a). mset g) = (\<Sum>g \<in># (\<Sum>a \<in> A. groups_of (W a)). mset g)"
    if "finite A" for A
    using that by (induction A rule: finite_induct) simp_all
  then show ?thesis by (simp add: seats_def all_groups_def held_by_def runners_of_groups)
qed

lemma seats_member: "a \<in> set (m_workers m) \<Longrightarrow> r \<in># runners_of (W a) \<Longrightarrow> r \<in># seats m W"
  by (auto simp: seats_def held_by_def set_mset_sum)

lemma seats_mono:
  assumes "\<And>a. runners_of (W' a) \<subseteq># runners_of (W a)"
  shows "seats m W' \<subseteq># seats m W"
  unfolding seats_def held_by_def
  by (intro mset_subset_eqI) (simp add: count_sum sum_mono mset_subset_eq_count assms)

definition placed :: "sys \<Rightarrow> bool" where
  "placed s \<longleftrightarrow> (\<forall>a. \<forall>r \<in># runners_of (s_workers s a). tr_worker (s_runners s r) = Some a)"

definition seats_ok :: "manager \<Rightarrow> sys \<Rightarrow> bool" where
  "seats_ok m s \<longleftrightarrow> placed s \<and> (\<forall>r. count (seats m (s_workers s)) r \<le> 1)
     \<and> (\<forall>a. a \<notin> set (m_workers m) \<longrightarrow> runners_of (s_workers s a) = {#})
     \<and> (\<forall>r a. tr_worker (s_runners s r) = Some a \<longrightarrow> a \<in> set (m_workers m))
     \<and> (\<forall>a \<in> set (m_workers m). s_alive s a)
     \<and> (\<forall>a. immediate_task_queue (s_workers s a) = [])"

definition sched_ok :: "sched \<Rightarrow> bool" where
  "sched_ok d \<longleftrightarrow> seats_ok (sd_manager d) (sd_sys d) \<and> waiting_ok (sd_fresh d) (sd_sys d)
     \<and> user_units (sd_posted d) = user_units (sd_ran d) + closures (sd_fresh d) (sd_sys d)"

lemma sched_okD:
  assumes "sched_ok d"
  shows "\<And>a r. r \<in># runners_of (s_workers (sd_sys d) a) \<Longrightarrow> tr_worker (s_runners (sd_sys d) r) = Some a"
    and "\<And>r. count (seats (sd_manager d) (s_workers (sd_sys d))) r \<le> 1"
    and "\<And>a. a \<notin> set (m_workers (sd_manager d)) \<Longrightarrow> runners_of (s_workers (sd_sys d) a) = {#}"
    and "\<And>r a. tr_worker (s_runners (sd_sys d) r) = Some a \<Longrightarrow> a \<in> set (m_workers (sd_manager d))"
    and "\<And>a. a \<in> set (m_workers (sd_manager d)) \<Longrightarrow> s_alive (sd_sys d) a"
    and "\<And>a. immediate_task_queue (s_workers (sd_sys d) a) = []"
    and "\<And>r. tr_ok (s_runners (sd_sys d) r)"
    and "\<And>r. sd_fresh d \<le> r \<Longrightarrow> tr_worker (s_runners (sd_sys d) r) = None"
    and "\<And>u. u \<in># closures (sd_fresh d) (sd_sys d) \<Longrightarrow> \<exists>f. u = Some (UserCode f)"
    and "user_units (sd_posted d) = user_units (sd_ran d) + closures (sd_fresh d) (sd_sys d)"
proof -
  note parts = assms [unfolded sched_ok_def seats_ok_def placed_def waiting_ok_def]
  from parts show "\<And>a r. r \<in># runners_of (s_workers (sd_sys d) a) \<Longrightarrow> tr_worker (s_runners (sd_sys d) r) = Some a"
    by (elim conjE) (rule bspec, erule spec)
  from parts show "\<And>r. count (seats (sd_manager d) (s_workers (sd_sys d))) r \<le> 1" by (elim conjE) (rule spec)
  from parts show "\<And>a. a \<notin> set (m_workers (sd_manager d)) \<Longrightarrow> runners_of (s_workers (sd_sys d) a) = {#}"
    by (elim conjE) (rule mp, erule spec)
  from parts show "\<And>r a. tr_worker (s_runners (sd_sys d) r) = Some a \<Longrightarrow> a \<in> set (m_workers (sd_manager d))"
    by (elim conjE) (drule spec, drule spec, erule mp)
  from parts show "\<And>a. a \<in> set (m_workers (sd_manager d)) \<Longrightarrow> s_alive (sd_sys d) a" by (elim conjE) (rule bspec)
  from parts show "\<And>a. immediate_task_queue (s_workers (sd_sys d) a) = []" by (elim conjE) (rule spec)
  from parts show "\<And>r. tr_ok (s_runners (sd_sys d) r)" by (elim conjE) (rule spec)
  from parts show "\<And>r. sd_fresh d \<le> r \<Longrightarrow> tr_worker (s_runners (sd_sys d) r) = None"
    by (elim conjE) (rule mp, erule spec)
  from parts show "\<And>u. u \<in># closures (sd_fresh d) (sd_sys d) \<Longrightarrow> \<exists>f. u = Some (UserCode f)"
    by (elim conjE) (rule bspec)
  from parts show "user_units (sd_posted d) = user_units (sd_ran d) + closures (sd_fresh d) (sd_sys d)"
    by (elim conjE)
qed

lemma sched_okD_member:
  assumes "sched_ok d" and "r \<in># runners_of (s_workers (sd_sys d) a)"
  shows "a \<in> set (m_workers (sd_manager d))" and "r < sd_fresh d"
proof -
  have t: "tr_worker (s_runners (sd_sys d) r) = Some a" by (rule sched_okD(1) [OF assms])
  show "a \<in> set (m_workers (sd_manager d))" by (rule sched_okD(4) [OF assms(1) t])
  show "r < sd_fresh d"
  proof (rule ccontr)
    assume "\<not> r < sd_fresh d"
    then have "tr_worker (s_runners (sd_sys d) r) = None" by (intro sched_okD(8) [OF assms(1)]) simp
    then show False using t by simp
  qed
qed

lemma seats_ok_keeps:
  assumes "seats_ok m s" and "keeps_seats s s'"
  shows "seats_ok m s'"
proof -
  have k: "runners_of (s_workers s' a) = runners_of (s_workers s a)"
    "immediate_task_queue (s_workers s' a) = immediate_task_queue (s_workers s a)"
    "tr_worker (s_runners s' r) = tr_worker (s_runners s r)" "s_alive s' = s_alive s" for a r
    using assms(2) unfolding runners_of_groups by (simp_all only: keeps_seats_def same_flags_def)
  show ?thesis using assms(1) unfolding seats_ok_def placed_def seats_def held_by_def k .
qed

text \<open>A step that leaves the seats alone keeps the invariant.\<close>

lemma sched_ok_step:
  assumes "sched_ok d" and st: "step_ok (sd_fresh d) (sd_sys d) fs gs s'"
  shows "sched_ok (d\<lparr>sd_sys := s', sd_ran := sd_ran d @ fs, sd_posted := sd_posted d @ gs\<rparr>)"
proof -
  let ?n = "sd_fresh d" and ?s = "sd_sys d"
  have w: "waiting_ok ?n ?s" and l: "user_units (sd_posted d) = user_units (sd_ran d) + closures ?n ?s"
    using assms(1) by (simp_all add: sched_ok_def)
  have c: "closures ?n s' + user_units fs = closures ?n ?s + user_units gs" using st unfolding step_ok_def by blast
  have "user_units (sd_posted d @ gs) = user_units (sd_ran d) + (closures ?n ?s + user_units gs)"
    using l by (simp add: ac_simps)
  also have "\<dots> = user_units (sd_ran d @ fs) + closures ?n s'" unfolding c [symmetric] by (simp add: ac_simps)
  finally have led: "user_units (sd_posted d @ gs) = user_units (sd_ran d @ fs) + closures ?n s'" .
  have "set_mset (closures ?n s') \<subseteq> set_mset (user_units (sd_posted d @ gs))" unfolding led by simp
  then have "\<forall>u \<in># closures ?n s'. \<exists>f. u = Some (UserCode f)" by auto
  then have "waiting_ok ?n s'" using w st by (simp add: waiting_ok_def step_ok_def keeps_seats_def)
  moreover have "seats_ok (sd_manager d) s'"
    using assms(1) st seats_ok_keeps unfolding sched_ok_def step_ok_def by blast
  ultimately show ?thesis using led by (simp add: sched_ok_def)
qed

section \<open>Posts and rounds\<close>

lemma sched_ok_action:
  assumes "sched_ok d" and "do_action clk a (sd_sys d) = Inr s"
  shows "sched_ok (d\<lparr>sd_sys := s, sd_posted := sd_posted d @ action_posts a\<rparr>)"
  using sched_ok_step [OF assms(1) do_action_ok [OF assms(2)]] assms(1)
  by (simp add: sched_ok_def waiting_ok_def)

lemma sched_ok_bound:
  assumes "sched_ok d" and "g \<in># groups_of (s_workers (sd_sys d) a)" and "r \<in> set g"
  shows "r < sd_fresh d"
proof -
  have "r \<in># runners_of (s_workers (sd_sys d) a)" using assms(2,3) by (auto simp: runners_of_groups)
  then have "tr_worker (s_runners (sd_sys d) r) = Some a" using assms(1) by (simp add: sched_ok_def seats_ok_def placed_def)
  then show ?thesis using assms(1) by (auto simp: sched_ok_def waiting_ok_def not_less [symmetric])
qed

lemma sched_ok_round:
  assumes ok: "sched_ok d" and g: "GetNextTask clk wk (sd_sys d) = Inr (t, s1)"
    and r: "RunTask (client_exec clk c) clk wk (sd_sys d) = Inr (b, s)"
  shows "sched_ok (d\<lparr>sd_sys := s, sd_ran := sd_ran d @ user_codes (unit_of t),
         sd_posted := sd_posted d @ concat (map action_posts (code_actions c (unit_of t)))\<rparr>)"
proof (rule sched_ok_step [OF ok round_ok [OF _ _ _ g r]])
  show "waiting_ok (sd_fresh d) (sd_sys d)" "immediate_task_queue (s_workers (sd_sys d) wk) = []"
    using ok by (simp_all add: sched_ok_def seats_ok_def)
qed (use sched_ok_bound [OF ok] in blast)

section \<open>New runners\<close>

text \<open>A new runner has no worker, or it sits alone in a group of a worker of the pool.\<close>

definition seated_at :: "manager \<Rightarrow> nat \<Rightarrow> nat option \<Rightarrow> sys \<Rightarrow> sys \<Rightarrow> bool" where
  "seated_at m n w s s' \<longleftrightarrow> s_alive s' = s_alive s
     \<and> (\<forall>a. immediate_task_queue (s_workers s' a) = immediate_task_queue (s_workers s a))
     \<and> (\<exists>tr. tr_ok tr \<and> pending_tasks tr = {#} \<and> tr_worker tr = w \<and> s_runners s' = (s_runners s)(n := tr))
     \<and> (case w of None \<Rightarrow> \<forall>a. groups_of (s_workers s' a) = groups_of (s_workers s a)
        | Some wk \<Rightarrow> wk \<in> set (m_workers m) \<and> (\<forall>a. groups_of (s_workers s' a) =
            (if a = wk then add_mset [n] (groups_of (s_workers s a)) else groups_of (s_workers s a))))"

lemma bind_at_seated:
  assumes "bind_at wk [n] (set_runner_worker n wk (set_runner n tr s)) = Inr s'" and "wk \<in> set (m_workers m)"
    and "tr_ok tr" and "pending_tasks tr = {#}"
  shows "seated_at m n (Some wk) s s'"
  unfolding seated_at_def
proof (intro conjI exI [of _ "tr\<lparr>tr_worker := Some wk\<rparr>"])
  note k = bind_at_keeps [OF assms(1)]
  show "\<forall>a. immediate_task_queue (s_workers s' a) = immediate_task_queue (s_workers s a)"
    using k(4) by (simp add: same_flags_def)
  show "case Some wk of None \<Rightarrow> \<forall>a. groups_of (s_workers s' a) = groups_of (s_workers s a)
      | Some wk \<Rightarrow> wk \<in> set (m_workers m) \<and> (\<forall>a. groups_of (s_workers s' a) =
          (if a = wk then add_mset [n] (groups_of (s_workers s a)) else groups_of (s_workers s a)))"
    using k(1,2) assms(2) by simp
qed (use bind_at_keeps(3,5) [OF assms(1)] assms(3,4) in
    \<open>simp_all add: set_runner_worker_def tr_ok_def pending_tasks_def\<close>)

lemma UpdateWorkerSpecific_seated:
  assumes "seated_at m n (Some wk) s s'"
  shows "seated_at m n (Some wk) s (UpdateWorkerSpecific wk [n] s')"
proof -
  let ?s = "UpdateWorkerSpecific wk [n] s'"
  obtain tr where tr: "tr_ok tr" "pending_tasks tr = {#}" "tr_worker tr = Some wk" "s_runners s' = (s_runners s)(n := tr)"
    using assms by (auto simp: seated_at_def)
  have "tr\<lparr>tr_worker := Some wk\<rparr> = tr" using tr(3) by (cases tr) simp
  then have R: "s_runners ?s = s_runners s'" using tr(4)
    by (simp add: UpdateWorkerSpecific_def Let_def set_runner_worker_def)
  have "same_flags (s_workers s' a) (s_workers ?s a)" "groups_of (s_workers ?s a) = groups_of (s_workers s' a)"
    "s_alive ?s = s_alive s'" for a
    by (simp_all add: UpdateWorkerSpecific_def Let_def)
  then show ?thesis using assms by (simp add: seated_at_def R same_flags_def)
qed

lemma CreateTaskRunner_elim:
  assumes "CreateTaskRunner n c g p sch nm (m, s) = Inr (c', m', s')"
  obtains (alone) tr where "tr = fst (TaskRunner_new c g p sch nm)" and "s' = set_runner n tr s" and "m' = m"
  | (bound) tr wk s2 where "tr = fst (TaskRunner_new c g p sch nm)" and "wk \<in> set (m_workers m)"
      and "bind_at wk [n] (set_runner_worker n wk (set_runner n tr s)) = Inr s2"
      and "s' = s2 \<or> s' = UpdateWorkerSpecific wk [n] s2" and "m_workers m' = m_workers m"
proof -
  obtain tr c1 where new: "TaskRunner_new c g p sch nm = (tr, c1)" by (cases "TaskRunner_new c g p sch nm")
  let ?s = "set_runner n tr s"
  have tr: "tr = fst (TaskRunner_new c g p sch nm)" by (simp add: new)
  note def = assms [unfolded CreateTaskRunner_def Let_def prod.case new]
  consider (none) "\<not> sch" | (known) wk where "sch" "g \<noteq> kDefaultGroupId"
      "find (\<lambda>wk. w_GetGroupId (s_workers ?s wk) = g) (m_workers m) = Some wk"
    | (group) "sch" "g \<noteq> kDefaultGroupId" "find (\<lambda>wk. w_GetGroupId (s_workers ?s wk) = g) (m_workers m) = None"
    | (default) "sch" "g = kDefaultGroupId"
    by (metis option.exhaust)
  then show ?thesis
  proof cases
    case none
    then show ?thesis using def by (intro alone [OF tr]) auto
  next
    case known
    then have b: "bind_at wk [n] (set_runner_worker n wk ?s) = Inr s'" "m' = m" using def by auto
    have "wk \<in> set (m_workers m)" using known(3) by (auto simp: find_Some_iff)
    then show ?thesis using b by (intro bound [OF tr]) auto
  next
    case group
    then obtain wk i where b: "worker_at m (m_index m) = Inr wk"
      "bind_at wk [n] (set_runner_worker n wk ?s) = Inr s'" "m' = m\<lparr>m_index := i\<rparr>" using def by auto
    then show ?thesis using worker_at_in [OF b(1)] by (intro bound [OF tr]) auto
  next
    case default
    then obtain wk s2 i where b: "worker_at m (m_index m) = Inr wk"
      "bind_at wk [n] (set_runner_worker n wk ?s) = Inr s2" "s' = UpdateWorkerSpecific wk [n] s2"
      "m' = m\<lparr>m_index := i\<rparr>" using def by (auto simp: AddTaskRunner_def Let_def)
    then show ?thesis using worker_at_in [OF b(1)] by (intro bound [OF tr _ b(2)]) auto
  qed
qed

lemma CreateTaskRunner_seated:
  assumes "CreateTaskRunner n c g p sch nm (m, s) = Inr (c', m', s')"
  shows "m_workers m' = m_workers m \<and> (\<exists>w. seated_at m n w s s')"
  using assms
proof (cases rule: CreateTaskRunner_elim)
  case (alone tr)
  have "\<exists>tr. tr_ok tr \<and> pending_tasks tr = {#} \<and> tr_worker tr = None \<and> s_runners s' = (s_runners s)(n := tr)"
    by (rule exI [of _ tr]) (simp add: alone tr_ok_new)
  then have "seated_at m n None s s'" by (simp add: seated_at_def alone(2))
  then show ?thesis using alone by blast
next
  case (bound tr wk s2)
  have "seated_at m n (Some wk) s s2"
    by (rule bind_at_seated [OF bound(3,2)]) (simp_all add: bound(1) tr_ok_new)
  then show ?thesis using bound(4,5) UpdateWorkerSpecific_seated by blast
qed

lemma sched_ok_create:
  assumes ok: "sched_ok d" and w: "seated_at (sd_manager d) (sd_fresh d) w (sd_sys d) s'"
    and m: "m_workers m' = m_workers (sd_manager d)"
  shows "sched_ok (d\<lparr>sd_manager := m', sd_sys := s', sd_fresh := Suc (sd_fresh d), sd_counter := c\<rparr>)"
proof -
  let ?n = "sd_fresh d" and ?s = "sd_sys d" and ?m = "sd_manager d"
  note D = sched_okD [OF ok] and B = sched_okD_member [OF ok]
  obtain tr where tr: "tr_ok tr" "pending_tasks tr = {#}" "tr_worker tr = w" "s_runners s' = (s_runners ?s)(?n := tr)"
    using w by (auto simp: seated_at_def)
  have same: "s_alive s' = s_alive ?s" "immediate_task_queue (s_workers s' a) = immediate_task_queue (s_workers ?s a)" for a
    using w by (simp_all add: seated_at_def)
  have R: "runners_of (s_workers s' a) = runners_of (s_workers ?s a) + (if w = Some a then {#?n#} else {#})" for a
    using w by (cases w) (auto simp: seated_at_def runners_of_groups)
  have wk: "a \<in> set (m_workers ?m)" if "w = Some a" for a using w that by (simp add: seated_at_def)
  have new: "?n \<notin># runners_of (s_workers ?s a)" for a using B(2) [of ?n a] by blast
  have cl: "closures (Suc ?n) s' = closures ?n ?s" using tr by (simp add: closures_def)
  have "tr_worker (s_runners s' r) = Some a" if "r \<in># runners_of (s_workers s' a)" for a r
  proof (cases "r = ?n")
    case True
    then have "w = Some a" using that new by (auto simp: R split: if_splits)
    then show ?thesis using True tr(3,4) by simp
  next
    case False
    then have "r \<in># runners_of (s_workers ?s a)" using that by (auto simp: R split: if_splits)
    then show ?thesis using D(1) False tr(4) by simp
  qed
  then have P: "placed s'" by (simp add: placed_def)
  have C: "count (seats m' (s_workers s')) r \<le> 1" for r
  proof -
    have "seats m' (s_workers s') = seats ?m (s_workers ?s) + (\<Sum>a \<in> set (m_workers ?m). if w = Some a then {#?n#} else {#})"
      by (simp add: seats_def held_by_def R m sum.distrib)
    also have "(\<Sum>a \<in> set (m_workers ?m). if w = Some a then {#?n#} else {#}) = (if w = None then {#} else {#?n#})"
      using wk by (cases w) simp_all
    finally have "seats m' (s_workers s') = seats ?m (s_workers ?s) + (if w = None then {#} else {#?n#})" .
    moreover have "?n \<notin># seats ?m (s_workers ?s)" using new by (auto simp: seats_def held_by_def set_mset_sum)
    ultimately show ?thesis using D(2) [of r] by (cases "r = ?n") (simp_all add: not_in_iff)
  qed
  have "runners_of (s_workers s' a) = {#}" if "a \<notin> set (m_workers ?m)" for a using D(3) [OF that] wk that by (auto simp: R)
  moreover have "a \<in> set (m_workers ?m)" if "tr_worker (s_runners s' r) = Some a" for r a
    using that wk D(4) by (cases "r = ?n") (simp_all add: tr)
  ultimately have S: "seats_ok m' s'" unfolding seats_ok_def m same using P C D(5,6) by blast
  have "tr_ok (s_runners s' r)" "Suc ?n \<le> r \<Longrightarrow> tr_worker (s_runners s' r) = None" for r
    using D(7,8) tr(1) by (simp_all add: tr(4))
  then have W: "waiting_ok (Suc ?n) s'" unfolding waiting_ok_def cl using D(9) by blast
  show ?thesis using S W D(10) by (simp add: sched_ok_def cl)
qed

section \<open>Removed runners, terminated workers\<close>

text \<open>
  A step that only takes runners out of their groups, and leaves the runners, the flags of the workers and
  their immediate tasks alone.
\<close>

lemma sched_ok_fewer:
  assumes ok: "sched_ok d" and R: "s_runners s' = s_runners (sd_sys d)" and al: "s_alive s' = s_alive (sd_sys d)"
    and sub: "\<And>a. runners_of (s_workers s' a) \<subseteq># runners_of (s_workers (sd_sys d) a)"
    and imm: "\<And>a. immediate_task_queue (s_workers s' a) = immediate_task_queue (s_workers (sd_sys d) a)"
  shows "sched_ok (d\<lparr>sd_sys := s'\<rparr>)"
proof -
  note D = sched_okD [OF ok]
  have "placed s'" using D(1) mset_subset_eqD [OF sub] by (simp add: placed_def R)
  moreover have "count (seats (sd_manager d) (s_workers s')) r \<le> 1" for r
    by (rule order_trans [OF mset_subset_eq_count [OF seats_mono [OF sub]] D(2)])
  moreover have "runners_of (s_workers s' a) = {#}" if "a \<notin> set (m_workers (sd_manager d))" for a
    using sub [of a] D(3) [OF that] by simp
  ultimately have "seats_ok (sd_manager d) s'"
    unfolding seats_ok_def R al imm using D(4,5,6) by blast
  moreover have "closures n s' = closures n (sd_sys d)" for n by (rule closures_same) (simp add: R)
  ultimately show ?thesis using ok by (simp add: sched_ok_def waiting_ok_def R)
qed

lemma UnBind_fewer:
  "runners_of (UnBind R r w) \<subseteq># runners_of w" "immediate_task_queue (UnBind R r w) = immediate_task_queue w"
proof -
  have e: "sum_list (map mset gs') \<subseteq># sum_list (map mset gs)" if "erase_in_groups p gs = Some gs'" for p gs gs'
    using erase_in_groups_mset [OF that] by auto
  show "runners_of (UnBind R r w) \<subseteq># runners_of w"
    using e [of _ "running_groups w"] e [of _ "pending_groups w"]
    by (auto simp: UnBind_def runners_of_def subset_mset.add_mono split: option.split)
  show "immediate_task_queue (UnBind R r w) = immediate_task_queue w"
    by (simp add: UnBind_def split: option.split)
qed

lemma RemoveTaskRunner_fewer:
  "s_runners (RemoveTaskRunner r (m, s)) = s_runners s \<and> s_alive (RemoveTaskRunner r (m, s)) = s_alive s
   \<and> (\<forall>a. runners_of (s_workers (RemoveTaskRunner r (m, s)) a) \<subseteq># runners_of (s_workers s a)
        \<and> immediate_task_queue (s_workers (RemoveTaskRunner r (m, s)) a) = immediate_task_queue (s_workers s a))"
proof -
  let ?f = "\<lambda>wk s. set_worker wk (UnBind (s_runners s) r (s_workers s wk)) s"
  have "s_runners (fold ?f ws s) = s_runners s \<and> s_alive (fold ?f ws s) = s_alive s
   \<and> (\<forall>a. runners_of (s_workers (fold ?f ws s) a) \<subseteq># runners_of (s_workers s a)
        \<and> immediate_task_queue (s_workers (fold ?f ws s) a) = immediate_task_queue (s_workers s a))" for ws
  proof (induction ws arbitrary: s)
    case Nil
    show ?case by simp
  next
    case (Cons wk ws)
    have "runners_of (s_workers (?f wk s) a) \<subseteq># runners_of (s_workers s a)"
      "immediate_task_queue (s_workers (?f wk s) a) = immediate_task_queue (s_workers s a)" for a
      by (simp_all add: UnBind_fewer)
    then show ?case using Cons.IH [of "?f wk s"] by (auto intro: subset_mset.order_trans)
  qed
  then show ?thesis by (simp add: RemoveTaskRunner_def)
qed

lemma sched_ok_remove:
  "sched_ok d \<Longrightarrow> sched_ok (d\<lparr>sd_sys := RemoveTaskRunner r (sd_manager d, sd_sys d)\<rparr>)"
  using RemoveTaskRunner_fewer by (intro sched_ok_fewer) simp_all

lemma sched_ok_terminate: "sched_ok d \<Longrightarrow> sched_ok (d\<lparr>sd_sys := Terminate wk (sd_sys d)\<rparr>)"
  by (rule sched_ok_fewer) (simp_all add: Terminate_def TerminateWorker_def Let_def set_worker_def runners_of_def)

section \<open>A smaller pool\<close>

lemma unbind_loop_fewer:
  "unbind_loop R m i reduce groups W = Inr (reduce', groups', W') \<Longrightarrow> runners_of (W' a) \<subseteq># runners_of (W a)"
proof (induction R m i reduce groups W rule: unbind_loop.induct)
  case (1 R m i reduce groups W)
  show ?case
  proof (cases "i > 0 \<or> reduce > 0")
    case False
    then show ?thesis using "1.prems" by (simp add: unbind_loop_stop)
  next
    case True
    then obtain wk where wk: "worker_at m i = Inr wk"
      and rest: "(if HasUnschedulableRunner R (W wk) then unbind_loop R m (i - 1) reduce groups W
          else (let (gs, w') = UnBind_all (W wk)
                in unbind_loop R m (i - 1) (reduce - 1) (groups @ gs) (W(wk := w')))) = Inr (reduce', groups', W')"
      using "1.prems" by (auto simp: unbind_loop_step)
    show ?thesis
    proof (cases "HasUnschedulableRunner R (W wk)")
      case True
      then show ?thesis using "1.IH"(1) [OF \<open>i > 0 \<or> reduce > 0\<close> wk True] rest by simp
    next
      case False
      obtain gs w' where u: "UnBind_all (W wk) = (gs, w')" by (cases "UnBind_all (W wk)")
      have "runners_of (W' a) \<subseteq># runners_of ((W(wk := w')) a)"
        by (rule "1.IH"(2) [OF \<open>i > 0 \<or> reduce > 0\<close> wk False u [symmetric] refl])
          (use rest False u in \<open>simp del: fun_upd_apply\<close>)
      moreover have "runners_of w' = {#}" using UnBind_all_groups(2) [OF u] by (simp add: runners_of_groups)
      ultimately show ?thesis by (cases "a = wk") simp_all
    qed
  qed
qed

lemma retain_workers_fewer:
  "retain_workers R is m groups W = Inr (groups', W') \<Longrightarrow> runners_of (W' a) \<subseteq># runners_of (W a)"
proof (induction "is" arbitrary: groups W)
  case (Cons i "is")
  then obtain wk gs w' where r: "RetainActiveAndUnschedulable R (W wk) = Inr (gs, w')"
    and rest: "retain_workers R is m (groups @ gs) (W(wk := w')) = Inr (groups', W')" by auto
  have "runners_of w' \<subseteq># runners_of (W wk)"
    using RetainActiveAndUnschedulable_Inr(2) [OF r] by (simp add: runners_of_def)
  then show ?case using Cons.IH [OF rest] by (cases "a = wk") (auto intro: subset_mset.order_trans)
qed simp

text \<open>Adopting runners points each of them to the worker.\<close>

lemma adopt_runners:
  "s_runners (adopt wk rs s) r = (if r \<in> set rs then (s_runners s r)\<lparr>tr_worker := Some wk\<rparr> else s_runners s r)"
proof (induction rs arbitrary: s)
  case Nil
  show ?case by simp
next
  case (Cons q rs)
  obtain s3 where step: "adopt wk (q # rs) s = adopt wk rs (set_runner_worker q wk s3)"
    and k: "s_runners s3 = s_runners s"
  proof (cases "lock_worker (s_alive s) (s_runners s q)")
    case None
    then show ?thesis by (intro that [of s]) (simp_all add: Let_def)
  next
    case (Some orig)
    obtain ks w1 where 1: "GetMovedSpecificKeys (GetId (s_runners s q)) (s_workers s orig) = (ks, w1)"
      by (cases "GetMovedSpecificKeys (GetId (s_runners s q)) (s_workers s orig)")
    define s1 where "s1 = set_worker wk (UpdateSpecificKeys (GetId (s_runners s q)) ks
      (s_workers (set_worker orig w1 s) wk)) (set_worker orig w1 s)"
    obtain ps w2 where 2: "GetMovedSpecific (GetId (s_runners s q)) (s_workers s1 orig) = (ps, w2)"
      by (cases "GetMovedSpecific (GetId (s_runners s q)) (s_workers s1 orig)")
    show ?thesis
    proof (rule that)
      show "adopt wk (q # rs) s = adopt wk rs (set_runner_worker q wk
          (set_worker wk (UpdateSpecific (GetId (s_runners s q)) ps (s_workers (set_worker orig w2 s1) wk))
            (set_worker orig w2 s1)))"
        using Some 1 2 by (simp add: Let_def s1_def del: set_worker_simps)
    qed (simp add: s1_def)
  qed
  show ?case using Cons.IH [of "set_runner_worker q wk s3"] step k by (simp add: set_runner_worker_def)
qed

lemma deal_loop_placed:
  "deal_loop gs sz (m, s) = Inr (m', s') \<Longrightarrow> placed s \<Longrightarrow> distinct (concat gs) \<Longrightarrow>
   \<forall>a. \<forall>r \<in># runners_of (s_workers s a). r \<notin> set (concat gs) \<Longrightarrow>
     placed s' \<and> (\<forall>a. a \<notin> set (m_workers m) \<longrightarrow> runners_of (s_workers s' a) = runners_of (s_workers s a))
     \<and> (\<forall>r. s_runners s' r = s_runners s r \<or> r \<in> set (concat gs) \<and> (\<exists>wk \<in> set (m_workers m).
          s_runners s' r = (s_runners s r)\<lparr>tr_worker := Some wk\<rparr>))"
proof (induction gs arbitrary: m s)
  case Nil
  then show ?case by simp
next
  case (Cons g gs)
  obtain wk s1 i where wk: "worker_at m (m_index m) = Inr wk" and b: "bind_at wk g s = Inr s1"
    and rest: "deal_loop gs sz (m\<lparr>m_index := i\<rparr>, adopt wk g s1) = Inr (m', s')"
    using Cons.prems(1) by (auto simp: Let_def)
  let ?s = "adopt wk g s1"
  have W: "runners_of (s_workers ?s a) = runners_of (s_workers s a) + (if a = wk then mset g else {#})" for a
    using bind_at_keeps(1,2) [OF b] adopt_keeps [of wk g s1 a] by (auto simp: runners_of_groups)
  have R: "s_runners ?s r = (if r \<in> set g then (s_runners s r)\<lparr>tr_worker := Some wk\<rparr> else s_runners s r)" for r
    using bind_at_keeps(5) [OF b] by (simp add: adopt_runners)
  have "tr_worker (s_runners ?s r) = Some a" if r: "r \<in># runners_of (s_workers ?s a)" for a r
  proof (cases "r \<in> set g")
    case True
    then have "r \<notin># runners_of (s_workers s a)" using Cons.prems(4) by auto
    then have "a = wk" using r by (auto simp: W split: if_splits)
    then show ?thesis using True by (simp add: R)
  next
    case False
    then have "r \<in># runners_of (s_workers s a)" using r by (auto simp: W split: if_splits)
    then show ?thesis using False Cons.prems(2) by (simp add: R placed_def)
  qed
  then have pl: "placed ?s" by (simp add: placed_def)
  have dis: "\<forall>a. \<forall>r \<in># runners_of (s_workers ?s a). r \<notin> set (concat gs)"
    using Cons.prems(3,4) by (auto simp: W split: if_splits)
  have "distinct (concat gs)" using Cons.prems(3) by simp
  note IH = Cons.IH [OF rest pl this dis]
  have "s_runners s' r = s_runners s r \<or> r \<in> set (concat (g # gs)) \<and> (\<exists>wk \<in> set (m_workers m).
          s_runners s' r = (s_runners s r)\<lparr>tr_worker := Some wk\<rparr>)" for r
  proof -
    have "r \<in> set g \<Longrightarrow> r \<notin> set (concat gs)" using Cons.prems(3) by auto
    moreover have "s_runners s' r = s_runners ?s r \<or> r \<in> set (concat gs) \<and> (\<exists>wk \<in> set (m_workers m).
          s_runners s' r = (s_runners ?s r)\<lparr>tr_worker := Some wk\<rparr>)" using IH by simp
    ultimately show ?thesis using worker_at_in [OF wk] by (auto simp: R split: if_splits)
  qed
  moreover have "runners_of (s_workers s' a) = runners_of (s_workers s a)" if "a \<notin> set (m_workers m)" for a
    using IH that worker_at_in [OF wk] W [of a] by auto
  ultimately show ?case using IH by blast
qed

text \<open>What is dealt out again was held before, by one worker each, and is held by no one meanwhile.\<close>

lemma single_split:
  assumes "\<forall>r. count (mset (concat gs) + S) r \<le> 1"
  shows "distinct (concat gs)" and "\<forall>r \<in># S. r \<notin> set (concat gs)"
proof -
  have "count (mset (concat gs)) r \<le> 1" for r using assms [rule_format, of r] by simp
  moreover have "r \<in> set (concat gs) \<Longrightarrow> 0 < count (mset (concat gs)) r" for r
    by (simp add: count_greater_zero_iff del: mset_concat)
  ultimately have "count (mset (concat gs)) r = (if r \<in> set (concat gs) then 1 else 0)" for r
    by (cases "r \<in> set (concat gs)") (simp_all add: le_antisym Suc_leI count_mset_0_iff del: mset_concat)
  then show "distinct (concat gs)" unfolding distinct_count_atmost_1 by blast
  show "\<forall>r \<in># S. r \<notin> set (concat gs)"
  proof
    fix r assume "r \<in># S"
    then have "0 < count S r" by (rule count_greater_zero_iff [THEN iffD2])
    moreover have "count (mset (concat gs)) r + count S r \<le> 1" using assms [rule_format, of r] by (simp only: count_union)
    ultimately have "count (mset (concat gs)) r = 0" by linarith
    then show "r \<notin> set (concat gs)" by (simp add: count_mset_0_iff del: mset_concat)
  qed
qed

lemma sched_ok_shrink:
  assumes ok: "sched_ok d" and b: "Balance_decrease debug inc (sd_manager d, sd_sys d) = Inr (m', s')"
  shows "sched_ok (d\<lparr>sd_manager := m', sd_sys := s'\<rparr>)"
proof -
  let ?m = "sd_manager d" and ?s = "sd_sys d"
  note D = sched_okD [OF ok]
  obtain sz reduce groups W groups' W' m1 m2
    where u: "unbind_loop (s_runners ?s) ?m (m_size ?m - 1) (0 - inc) [] (s_workers ?s) = Inr (reduce, groups, W)"
      and rt: "retain_workers (s_runners ?s) [0..sz - 1] ?m groups W = Inr (groups', W')"
      and dl: "deal_loop groups' sz (m1, ?s\<lparr>s_workers := W'\<rparr>) = Inr (m2, s')"
      and ws: "m_workers m1 = m_workers ?m" and m': "m' = m2\<lparr>m_size := sz\<rparr>"
    by (rule Balance_decrease_elim [OF b])
  note G = Balance_decrease_groups [OF b]
  have fewer: "runners_of (W' a) \<subseteq># runners_of (s_workers ?s a)" for a
    using unbind_loop_fewer [OF u] retain_workers_fewer [OF rt] by (rule subset_mset.order_trans [rotated])
  have "mset groups' + all_groups ?m W' = all_groups ?m (s_workers ?s)"
    using unbind_loop_groups [OF u] retain_workers_groups [OF rt] by simp
  then have tot: "mset (concat groups') + seats ?m W' = seats ?m (s_workers ?s)"
    unfolding seats_groups by (metis (no_types, lifting) image_mset_union mset_concat mset_map sum_mset.union sum_mset_sum_list)
  note single = single_split [of groups' "seats ?m W'", unfolded tot, OF allI [OF D(2)]]
  have free: "\<forall>a. \<forall>r \<in># runners_of (W' a). r \<notin> set (concat groups')"
  proof (intro allI ballI)
    fix a r assume r: "r \<in># runners_of (W' a)"
    then have "a \<in> set (m_workers ?m)" using sched_okD_member(1) [OF ok] mset_subset_eqD [OF fewer] by blast
    then show "r \<notin> set (concat groups')" using single(2) seats_member r by blast
  qed
  have "placed (?s\<lparr>s_workers := W'\<rparr>)" using D(1) mset_subset_eqD [OF fewer] by (simp add: placed_def)
  from deal_loop_placed [OF dl this single(1)] free
  have P: "placed s'" "\<forall>a. a \<notin> set (m_workers ?m) \<longrightarrow> runners_of (s_workers s' a) = runners_of (W' a)"
    and R: "\<forall>r. s_runners s' r = s_runners ?s r \<or> r \<in> set (concat groups') \<and> (\<exists>wk \<in> set (m_workers ?m).
          s_runners s' r = (s_runners ?s r)\<lparr>tr_worker := Some wk\<rparr>)"
    by (simp_all add: ws)
  have same: "pending_tasks (s_runners s' r) = pending_tasks (s_runners ?s r)" "tr_ok (s_runners s' r)" for r
    using R [rule_format, of r] D(7) [of r] by (auto simp: pending_tasks_def tr_ok_def)
  have imm: "immediate_task_queue (s_workers s' a) = []" for a
    using deal_loop_groups [OF dl] retain_workers_groups [OF rt] unbind_loop_groups [OF u] D(6) [of a]
    by (simp add: same_flags_def)
  have out: "runners_of (s_workers s' a) = {#}" if "a \<notin> set (m_workers ?m)" for a
    using P(2) fewer [of a] D(3) [OF that] that by simp
  have wk: "a \<in> set (m_workers ?m)" if "tr_worker (s_runners s' r) = Some a" for r a
    using R [rule_format, of r] D(4) [of r a] that by auto
  have low: "tr_worker (s_runners s' r) = None" if "sd_fresh d \<le> r" for r
  proof -
    have "r \<notin> set (concat groups')"
    proof
      assume "r \<in> set (concat groups')"
      then have "r \<in># mset (concat groups')" by simp
      then have "r \<in># mset (concat groups') + seats ?m W'" by (rule union_iff [THEN iffD2, OF disjI1])
      then obtain a where "r \<in># runners_of (s_workers ?s a)"
        unfolding tot by (auto simp: seats_def held_by_def set_mset_sum)
      then show False using sched_okD_member(2) [OF ok] that by fastforce
    qed
    then show ?thesis using R [rule_format, of r] D(8) [OF that] by auto
  qed
  have cl: "closures (sd_fresh d) s' = closures (sd_fresh d) ?s" by (rule closures_same) (rule same)
  have "count (seats m' (s_workers s')) r \<le> 1" for r
  proof -
    have "seats m' (s_workers s') = seats ?m (s_workers ?s)"
      using G(1,2) by (simp add: seats_groups all_groups_def)
    then show ?thesis using D(2) by simp
  qed
  then have "seats_ok m' s'" unfolding seats_ok_def G(2,3) using P(1) out wk D(5) imm by blast
  moreover have "waiting_ok (sd_fresh d) s'" unfolding waiting_ok_def cl using same(2) low D(9) by blast
  ultimately show ?thesis using D(10) by (simp add: sched_ok_def cl)
qed

section \<open>Runs\<close>

text \<open>The workers of a new manager hold no runner.\<close>

lemma create_loop_new:
  "create_loop mem f k (m, s) = (m', s') \<Longrightarrow> s_runners s' = s_runners s
     \<and> (\<forall>a. groups_of (s_workers s a) = {#} \<longrightarrow> groups_of (s_workers s' a) = {#})
     \<and> (\<forall>a. immediate_task_queue (s_workers s a) = [] \<longrightarrow> immediate_task_queue (s_workers s' a) = [])
     \<and> ((\<forall>a \<in> set (m_workers m). s_alive s a) \<longrightarrow> (\<forall>a \<in> set (m_workers m'). s_alive s' a))"
proof (induction k arbitrary: f m s)
  case 0
  then show ?case by simp
next
  case (Suc k)
  let ?s = "Start f (new_worker (mem f) f s)"
  have "s_runners ?s = s_runners s" "groups_of (s_workers ?s a) = (if a = f then {#} else groups_of (s_workers s a))"
    "immediate_task_queue (s_workers ?s a) = (if a = f then [] else immediate_task_queue (s_workers s a))"
    "s_alive ?s = (s_alive s)(f := True)" for a
    by (simp_all add: Start_def new_worker_def Worker_new_def groups_of_def)
  then show ?case using Suc.IH [of "Suc f" "m\<lparr>m_workers := m_workers m @ [f]\<rparr>" ?s] Suc.prems by auto
qed

lemma sched_ok_boot: "sched_ok (boot mem n)"
proof -
  obtain m s where ms: "WorkerManager_new mem 0 n empty_sys = (m, s)" by (cases "WorkerManager_new mem 0 n empty_sys")
  have "s_runners s = s_runners empty_sys" "groups_of (s_workers s a) = {#}" "immediate_task_queue (s_workers s a) = []"
    "\<forall>a \<in> set (m_workers m). s_alive s a" for a
    using create_loop_new [of mem 0 "nat n" "\<lparr>m_workers = [], m_index = 0, m_size = n\<rparr>" empty_sys m s] ms
    by (simp_all add: WorkerManager_new_def CreateWorkers_def empty_sys_def Worker_new_def groups_of_def)
  then have "seats_ok m s" "waiting_ok 0 s"
    using tr_ok_new TaskRunner_new_simps
    by (simp_all add: seats_ok_def waiting_ok_def placed_def runners_of_groups seats_def held_by_def closures_def empty_sys_def)
  then show ?thesis using ms by (simp add: boot_def sched_ok_def closures_def)
qed

lemma sched_do_ok:
  assumes ok: "sched_ok d" and e: "sched_do clk c e d = Inr d'"
  shows "sched_ok d'"
proof (cases e)
  case (EvCreate g prio sch name)
  then obtain n m s where cr: "CreateTaskRunner (sd_fresh d) (sd_counter d) g prio sch name (sd_manager d, sd_sys d) = Inr (n, m, s)"
    and d': "d' = d\<lparr>sd_manager := m, sd_sys := s, sd_fresh := Suc (sd_fresh d), sd_counter := n\<rparr>" using e by auto
  show ?thesis using CreateTaskRunner_seated [OF cr] sched_ok_create [OF ok] d' by blast
next
  case (EvAction a)
  then show ?thesis using e sched_ok_action [OF ok] by auto
next
  case (EvRound wk)
  then show ?thesis using e sched_ok_round [OF ok] by auto
next
  case (EvRemove r)
  then show ?thesis using e sched_ok_remove [OF ok] by auto
next
  case (EvTerminate wk)
  then show ?thesis using e sched_ok_terminate [OF ok] by auto
next
  case (EvShrink k)
  then obtain m s where r: "Resize False (\<lambda>_. 0) 0 (m_size (sd_manager d) - int k) (sd_manager d, sd_sys d) = Inr (m, s)"
    and d': "d' = d\<lparr>sd_manager := m, sd_sys := s\<rparr>" using e by auto
  show ?thesis
  proof (cases "k = 0")
    case True
    then show ?thesis using r d' ok by (cases d) (auto simp: Resize_def)
  next
    case False
    then have "Balance_decrease False (- int k) (sd_manager d, sd_sys d) = Inr (m, s)"
      using r by (auto simp: Resize_def Balance_def)
    then show ?thesis using sched_ok_shrink [OF ok] d' by blast
  qed
qed

lemma sched_run_ok: "sched_run clk c es d = Inr d' \<Longrightarrow> sched_ok d \<Longrightarrow> sched_ok d'"
proof (induction es arbitrary: d)
  case (Cons e es)
  then show ?case using sched_do_ok by auto
qed simp

text \<open>A post to a runner that has a seat returns and wakes the worker that holds the runner.\<close>

lemma post_wakes_holder:
  assumes ok: "sched_ok d" and r: "r \<in># runners_of (s_workers (sd_sys d) a)"
  shows "\<exists>s'. do_action clk (APost r f) (sd_sys d) = Inr s' \<and> s_notified s' = s_notified (sd_sys d) @ [a]"
proof -
  have "lock_worker (s_alive (sd_sys d)) (s_runners (sd_sys d) r) = Some a"
    using sched_okD(1) [OF ok r] sched_okD(5) [OF ok sched_okD_member(1) [OF ok r]] by (simp add: lock_worker_alive)
  then have "PostTask (s_alive (sd_sys d)) t (s_runners (sd_sys d) r)
      = Inr (a, (s_runners (sd_sys d) r)\<lparr>task_queue := task_queue (s_runners (sd_sys d) r) @ [t]\<rparr>)" for t
    by (simp add: PostTask_Inr_iff)
  then show ?thesis by (simp add: PostTask_callable_def Task_new_def)
qed

lemma one_seat:
  assumes ok: "sched_ok d" and r: "r \<in># runners_of (s_workers (sd_sys d) a)"
  shows "count (runners_of (s_workers (sd_sys d) a)) r = 1" and "r \<in># runners_of (s_workers (sd_sys d) b) \<Longrightarrow> b = a"
proof -
  have a: "a \<in> set (m_workers (sd_manager d))" by (rule sched_okD_member(1) [OF ok r])
  have "count (runners_of (s_workers (sd_sys d) a)) r \<le> count (seats (sd_manager d) (s_workers (sd_sys d))) r"
    unfolding seats_def held_by_def count_sum
    by (rule member_le_sum [OF a, of "\<lambda>a. count (runners_of (s_workers (sd_sys d) a)) r"]) simp_all
  also have "\<dots> \<le> 1" by (rule sched_okD(2) [OF ok])
  finally have "count (runners_of (s_workers (sd_sys d) a)) r \<le> 1" .
  moreover have "0 < count (runners_of (s_workers (sd_sys d) a)) r" using r by (rule count_greater_zero_iff [THEN iffD2])
  ultimately show "count (runners_of (s_workers (sd_sys d) a)) r = 1" by linarith
  show "r \<in># runners_of (s_workers (sd_sys d) b) \<Longrightarrow> b = a"
    using sched_okD(1) [OF ok r] sched_okD(1) [OF ok, of r b] by simp
qed

end
