(* ===== verification/Fs_Scheduler_Live.thy ===== *)
theory Fs_Scheduler_Live
  imports Fs_Scheduler_Facts Fs_Worker_Rounds
begin

text \<open>
  What keeps a scheduler going: in a run in which no runner is removed and no delay is negative, every group has
  exactly one runner, every group that waits to be taken over is announced, and every deadline fits its type.
  Then a round of a worker comes back, and it runs a task whenever a runner of the worker has one queued.
\<close>

section \<open>The invariant of one worker\<close>

definition calm_worker :: "worker \<Rightarrow> bool" where
  "calm_worker w \<longleftrightarrow> td_ok (min_wait_time w) \<and> (pending_groups w = [] \<or> need_balance w)
     \<and> (\<forall>g \<in># groups_of w. length g = 1)"

definition calm :: "sys \<Rightarrow> bool" where
  "calm s \<longleftrightarrow> (\<forall>a. calm_worker (s_workers s a)) \<and> (\<forall>r. deadlines_ok (s_runners s r))"

text \<open>An operation that does not look at the groups keeps it.\<close>

lemma calm_worker_same:
  assumes "calm_worker w" and "min_wait_time w' = min_wait_time w" and "running_groups w' = running_groups w"
    and "pending_groups w' = pending_groups w" and "need_balance w' = need_balance w"
  shows "calm_worker w'"
  using assms by (simp add: calm_worker_def groups_of_def)

lemma calm_storage [simp]:
  "calm_worker (snd (GetMovedSpecificKeys rid w)) = calm_worker w"
  "calm_worker (snd (GetMovedSpecific rid w)) = calm_worker w"
  "calm_worker (UpdateSpecificKeys rid ks w) = calm_worker w"
  "calm_worker (UpdateSpecific rid ps w) = calm_worker w"
  by (auto simp: calm_worker_def groups_of_def GetMovedSpecificKeys_def GetMovedSpecific_def UpdateSpecificKeys_def
      UpdateSpecific_def split: option.split)

lemma calm_Bind: "calm_worker w \<Longrightarrow> Bind R g w = Inr w' \<Longrightarrow> length g = 1 \<Longrightarrow> calm_worker w'"
  by (auto simp: calm_worker_def groups_of_def Bind_def Let_def split: list.splits if_splits)

lemma calm_new: "calm_worker (Worker_new i b n)"
  by (simp add: calm_worker_def Worker_new_def groups_of_def)

lemma calm_release:
  assumes "calm_worker w"
  shows "UnBind_all w = (gs, w') \<Longrightarrow> calm_worker w' \<and> (\<forall>g \<in> set gs. length g = 1)"
    and "RetainActiveAndUnschedulable R w = Inr (gs, w') \<Longrightarrow> calm_worker w' \<and> (\<forall>g \<in> set gs. length g = 1)"
proof -
  show "calm_worker w' \<and> (\<forall>g \<in> set gs. length g = 1)" if "UnBind_all w = (gs, w')"
    using assms that by (auto simp: calm_worker_def groups_of_def UnBind_all_def)
  show "calm_worker w' \<and> (\<forall>g \<in> set gs. length g = 1)" if "RetainActiveAndUnschedulable R w = Inr (gs, w')"
    using assms RetainActiveAndUnschedulable_Inr [OF that] by (auto simp: calm_worker_def groups_of_def)
qed

lemma prepare_groups_calm:
  assumes "prepare_groups R w = Inr (R', w')" and "calm_worker w"
  shows "calm_worker w' \<and> pending_groups w' = []"
proof -
  have p: "pending_groups w' = []"
    using assms
    by (auto simp: prepare_groups_def BalanceNoLock_def SortNoLock_def check_def calm_worker_def bind_res_Inr_iff
        split: if_splits list.splits)
  have "td_ok (min_wait_time w')" "\<forall>g \<in># groups_of w'. length g = 1"
    using prepare_groups_spec(2,5) [OF assms(1)] assms(2) by (simp_all add: calm_worker_def)
  then show ?thesis using p by (simp add: calm_worker_def)
qed

section \<open>A round\<close>

text \<open>
  A call of \<open>GetNextTask\<close> keeps the invariant, and takes a task if a runner of the worker has one queued.
\<close>

lemma GetNextTask_calm:
  assumes trs: "\<forall>r. tr_ok (s_runners s r)" and imm: "immediate_task_queue (s_workers s me) = []" and calm: "calm s"
    and g: "GetNextTask clk me s = Inr (t, s')"
  shows "calm s'" and "r \<in># runners_of (s_workers s me) \<Longrightarrow> task_queue (s_runners s r) \<noteq> [] \<Longrightarrow> t \<noteq> None"
proof -
  obtain R1 w1 found sc where prep: "prepare_groups (s_runners s) (s_workers s me) = Inr (R1, w1)"
    and scan: "scan_groups clk (clk (s_clock s)) (running_groups w1) (scan_start clk s R1 w1) = Inr (found, sc)"
    and res: "(case found of
            Some (x, runner, g) \<Rightarrow> t = Some x \<and> s' = set_thread me
              ((s_threads s me)\<lparr>curr_group := g, local_runner := Some runner\<rparr>) (scan_end me s w1 sc)
          | None \<Rightarrow> (t, s') = after_scan me (sc_idle sc) (scan_end me s w1 sc))"
    using GetNextTask_elim [OF g imm] by blast
  have s': "s_runners s' = sc_runners sc" "s_workers s' = s_workers (scan_end me s w1 sc)"
    using res after_scan_keeps(1,2) [of me "sc_idle sc" "scan_end me s w1 sc" t s']
    by (auto split: option.splits prod.splits)
  note same = same_tasksD [OF prepare_groups_spec(6) [OF prep]]
  have w1: "calm_worker w1" "pending_groups w1 = []"
    using prepare_groups_calm [OF prep] calm by (simp_all add: calm_def)
  have st: "\<forall>r. tr_ok (sc_runners (scan_start clk s R1 w1) r) \<and> deadlines_ok (sc_runners (scan_start clk s R1 w1) r)"
    "td_ok (sc_min_wait (scan_start clk s R1 w1))"
    using trs calm same(2,4) w1(1) by (simp_all add: scan_start_def calm_def deadlines_ok_def calm_worker_def)
  note sc = scan_groups_calm [OF st scan]
  have "calm_worker (s_workers s' a)" for a
    using calm w1 sc s'(2) by (cases "a = me") (simp_all add: calm_def calm_worker_def groups_of_def)
  then show "calm s'" using sc s'(1) by (simp add: calm_def)
  assume r: "r \<in># runners_of (s_workers s me)" "task_queue (s_runners s r) \<noteq> []"
  have "groups_of w1 = groups_of (s_workers s me)" by (rule prepare_groups_spec(2) [OF prep])
  then obtain h where h: "h \<in># groups_of w1" "r \<in> set h" using r(1) by (auto simp: runners_of_groups)
  then have "length h = 1" using w1(1) by (simp add: calm_worker_def)
  then have "last h = r" using h(2) by (cases h) auto
  moreover have "h \<in> set (running_groups w1)" using h(1) w1(2) by (simp add: groups_of_def)
  ultimately have "found \<noteq> None" using sc r(2) same(3) [of r] by (auto simp: scan_start_def)
  then show "t \<noteq> None" using res by (auto split: option.splits prod.splits)
qed

lemma calm_runners:
  assumes "calm s" and "s_workers s' = s_workers s"
    and "\<And>r. deadlines_ok (s_runners s r) \<Longrightarrow> deadlines_ok (s_runners s' r)"
  shows "calm s'"
  using assms by (simp add: calm_def)

text \<open>A post with a delay that is not negative has a deadline that fits, if the clock does.\<close>

definition action_ok :: "action \<Rightarrow> bool" where
  "action_ok a = (case a of APostDelayed r f delay \<Rightarrow> td_Zero \<le> delay | _ \<Rightarrow> True)"

lemma do_action_calm:
  assumes "do_action clk a s = Inr s'" and "calm s" and "action_ok a" and "clock_ok clk"
  shows "calm s'"
proof (cases a)
  case (APostDelayed r f delay)
  let ?t = "\<lparr>task_id = s_task_counter s, task_unit = Some (UserCode f)\<rparr>"
  obtain wk deadline where p: "tp_plus (clk (s_clock s)) delay = Inr deadline"
      and s': "s' = notify wk ((set_runner r
        ((s_runners s r)\<lparr>delayed_task_queue := dq_push (deadline, Some ?t) (delayed_task_queue (s_runners s r))\<rparr>)
        (s\<lparr>s_clock := Suc (s_clock s)\<rparr>))\<lparr>s_task_counter := s_task_counter s + 1\<rparr>)"
      using assms(1) APostDelayed
      by (auto simp: PostDelayedTask_callable_def Now_def Task_new_def PostDelayedTask_Inr_iff)
  have "0 \<le> ticks (clk (s_clock s))" "0 \<le> delta delay"
    using assms(3,4) APostDelayed by (simp_all add: clock_ok_def action_ok_def td_order_defs td_const_defs)
  then have "0 \<le> ticks deadline \<and> tp_ok deadline"
    using p tp_op_ok(1) [OF p] by (auto simp: tp_plus_Inr_iff)
  then show ?thesis using assms(2)
    by - (rule calm_runners [of s]; auto simp: s' deadlines_ok_def set_dq_push)
next
  case (APost r f)
  then have "s_workers s' = s_workers s" "\<forall>q. delayed_task_queue (s_runners s' q) = delayed_task_queue (s_runners s q)"
    using assms(1) by (auto simp: PostTask_callable_def Task_new_def PostTask_Inr_iff)
  then show ?thesis using assms(2) by - (rule calm_runners [of s]; simp_all add: deadlines_ok_def)
next
  case (APostIdle r it)
  then have "s_workers s' = s_workers s" "\<forall>q. delayed_task_queue (s_runners s' q) = delayed_task_queue (s_runners s q)"
    using assms(1) by (auto simp: PostIdleTask_def Let_def)
  then show ?thesis using assms(2) by - (rule calm_runners [of s]; simp_all add: deadlines_ok_def)
qed

lemma do_actions_calm:
  "do_actions clk as s = Inr s' \<Longrightarrow> calm s \<Longrightarrow> list_all action_ok as \<Longrightarrow> clock_ok clk \<Longrightarrow> calm s'"
proof (induction "as" arbitrary: s)
  case (Cons a as)
  then obtain s1 where a: "do_action clk a s = Inr s1" and rest: "do_actions clk as s1 = Inr s'" by auto
  have "calm s1" by (rule do_action_calm [OF a]) (use Cons.prems in simp_all)
  from Cons.IH [OF rest this] Cons.prems show ?case by simp
qed simp

lemma bill_group_calm: "bill_group clk begin g s = Inr s' \<Longrightarrow> calm s \<Longrightarrow> calm s'"
proof (induction g arbitrary: s)
  case (Cons q g)
  then obtain d tr where t: "AddTime d (s_runners s q) = Inr tr"
    and rest: "bill_group clk begin g (set_runner q tr (s\<lparr>s_clock := Suc (s_clock s)\<rparr>)) = Inr s'"
    by (auto simp: Now_def)
  have "calm (set_runner q tr (s\<lparr>s_clock := Suc (s_clock s)\<rparr>))"
    using Cons.prems(2) t by - (rule calm_runners [of s]; auto simp: AddTime_def deadlines_ok_def)
  then show ?case using Cons.IH [OF rest] by blast
qed simp

definition client_ok :: "client \<Rightarrow> bool" where
  "client_ok c \<longleftrightarrow> (\<forall>f. list_all action_ok (on_task c f) \<and> list_all action_ok (on_idle c f))"

lemma code_actions_ok: "client_ok c \<Longrightarrow> list_all action_ok (code_actions c u)"
  by (auto simp: client_ok_def code_actions_def idle_actions_def split: option.splits exec_code.splits idle_code.splits)

lemma calm_control:
  "s_workers s' = s_workers s \<Longrightarrow> s_runners s' = s_runners s \<Longrightarrow> calm s' = calm s"
  by (simp add: calm_def)

lemma round_calm:
  assumes w: "waiting_ok n s" and imm: "immediate_task_queue (s_workers s me) = []"
    and b: "\<forall>g \<in># groups_of (s_workers s me). \<forall>r \<in> set g. r < n"
    and g: "GetNextTask clk me s = Inr (t, s1)" and r: "RunTask (client_exec clk c) clk me s = Inr (b', s')"
    and calm: "calm s" and c: "client_ok c" "clock_ok clk"
  shows "calm s'"
proof -
  have trs: "\<forall>r. tr_ok (s_runners s r)" using w by (simp add: waiting_ok_def)
  have 1: "calm s1" by (rule GetNextTask_calm(1) [OF trs imm calm g])
  show ?thesis
  proof (cases t)
    case None
    then show ?thesis using r g 1 by (simp add: RunTask_def)
  next
    case (Some x)
    define s2 where "s2 = set_running me True (s1\<lparr>s_clock := Suc (s_clock s1)\<rparr>)"
    obtain s3 where s3: "Task_Run (client_exec clk c me) x s2 = Inr s3"
      and bl: "bill_group clk (clk (s_clock s1)) (curr_group (s_threads (set_running me False s3) me)) (set_running me False s3) = Inr s'"
      using r g Some by (auto simp: RunTask_def Now_def s2_def Let_def)
    have 2: "calm s2" using 1 calm_control [of s2 s1] by (simp add: s2_def set_running_def)
    have "do_actions clk (code_actions c (unit_of t)) s2 = Inr s3"
      using s3 Task_Run_client [of x clk c me s2] took_ok(2) [OF w imm b g] Some by (simp add: unit_of_def)
    then have "calm s3" using 2 code_actions_ok [OF c(1)] c(2) by (rule do_actions_calm)
    then have "calm (set_running me False s3)"
      using calm_control [of "set_running me False s3" s3] by (simp add: set_running_def)
    then show ?thesis by (rule bill_group_calm [OF bl])
  qed
qed

section \<open>The other events\<close>

lemma unbind_loop_calm:
  "unbind_loop R m i reduce groups W = Inr (reduce', groups', W') \<Longrightarrow> \<forall>a. calm_worker (W a) \<Longrightarrow>
   \<forall>g \<in> set groups. length g = 1 \<Longrightarrow> (\<forall>a. calm_worker (W' a)) \<and> (\<forall>g \<in> set groups'. length g = 1)"
proof (induction R m i reduce groups W rule: unbind_loop.induct)
  case (1 R m i reduce groups W)
  show ?case
  proof (cases "i > 0 \<or> reduce > 0")
    case False
    then show ?thesis using "1.prems" by (simp add: unbind_loop_stop)
  next
    case go: True
    then obtain wk where wk: "worker_at m i = Inr wk"
      and rest: "(if HasUnschedulableRunner R (W wk) then unbind_loop R m (i - 1) reduce groups W
          else (let (gs, w') = UnBind_all (W wk)
                in unbind_loop R m (i - 1) (reduce - 1) (groups @ gs) (W(wk := w')))) = Inr (reduce', groups', W')"
      using "1.prems"(1) by (auto simp: unbind_loop_step)
    show ?thesis
    proof (cases "HasUnschedulableRunner R (W wk)")
      case True
      then show ?thesis using "1.IH"(1) [OF go wk True] rest "1.prems" by simp
    next
      case False
      obtain gs w' where u: "UnBind_all (W wk) = (gs, w')" by (cases "UnBind_all (W wk)")
      have c: "calm_worker w'" "\<forall>g \<in> set gs. length g = 1" using calm_release(1) [OF _ u] "1.prems"(2) by blast+
      show ?thesis
      proof (rule "1.IH"(2) [OF go wk False u [symmetric] refl])
        show "unbind_loop R m (i - 1) (reduce - 1) (groups @ gs) (W(wk := w')) = Inr (reduce', groups', W')"
          using rest False u by (simp del: fun_upd_apply)
      qed (use c "1.prems"(2,3) in auto)
    qed
  qed
qed

lemma retain_workers_calm:
  "retain_workers R is m groups W = Inr (groups', W') \<Longrightarrow> \<forall>a. calm_worker (W a) \<Longrightarrow>
   \<forall>g \<in> set groups. length g = 1 \<Longrightarrow> (\<forall>a. calm_worker (W' a)) \<and> (\<forall>g \<in> set groups'. length g = 1)"
proof (induction "is" arbitrary: groups W)
  case (Cons i "is")
  then obtain wk gs w' where r: "RetainActiveAndUnschedulable R (W wk) = Inr (gs, w')"
    and rest: "retain_workers R is m (groups @ gs) (W(wk := w')) = Inr (groups', W')" by auto
  have c: "calm_worker w'" "\<forall>g \<in> set gs. length g = 1" using calm_release(2) [OF _ r] Cons.prems(2) by blast+
  show ?case by (rule Cons.IH [OF rest]) (use c Cons.prems(2,3) in auto)
qed simp

lemma adopt_calm: "\<forall>a. calm_worker (s_workers s a) \<Longrightarrow> calm_worker (s_workers (adopt wk rs s) a)"
proof (induction rs arbitrary: s)
  case (Cons r rs)
  show ?case
  proof (cases "lock_worker (s_alive s) (s_runners s r)")
    case None
    then show ?thesis using Cons by (simp add: Let_def)
  next
    case (Some orig)
    have "calm_worker w' = calm_worker w" if "GetMovedSpecificKeys i w = (ks, w')" for i w ks w'
      using calm_storage(1) [of i w] that by simp
    moreover have "calm_worker w' = calm_worker w" if "GetMovedSpecific i w = (ks, w')" for i w ks w'
      using calm_storage(2) [of i w] that by simp
    ultimately show ?thesis using Cons.prems Some
      by (auto simp: Let_def split: prod.split intro!: Cons.IH)
  qed
qed simp

lemma deal_loop_calm:
  "deal_loop gs sz (m, s) = Inr (m', s') \<Longrightarrow> calm s \<Longrightarrow> \<forall>g \<in> set gs. length g = 1 \<Longrightarrow> calm s'"
proof (induction gs arbitrary: m s)
  case (Cons g gs)
  obtain wk s1 i where b: "bind_at wk g s = Inr s1"
    and rest: "deal_loop gs sz (m\<lparr>m_index := i\<rparr>, adopt wk g s1) = Inr (m', s')"
    using Cons.prems(1) by (auto simp: Let_def)
  obtain w where w: "Bind (s_runners s) g (s_workers s wk) = Inr w" and s1: "s1 = notify wk (set_worker wk w s)"
    using b by (auto simp: bind_at_def)
  have "calm_worker w" using calm_Bind [OF _ w] Cons.prems(2,3) by (simp add: calm_def)
  then have "\<forall>a. calm_worker (s_workers s1 a)" using Cons.prems(2) by (simp add: s1 calm_def)
  moreover have "deadlines_ok (s_runners (adopt wk g s1) r)" for r
    using Cons.prems(2) by (simp add: s1 calm_def adopt_runners deadlines_ok_def)
  ultimately have "calm (adopt wk g s1)" using adopt_calm by (simp add: calm_def)
  from Cons.IH [OF rest this] Cons.prems(3) show ?case by simp
qed simp

lemma shrink_calm:
  assumes "Balance_decrease debug inc (m, s) = Inr (m', s')" and "calm s"
  shows "calm s'"
proof -
  obtain sz reduce groups W groups' W' m1 m2
    where u: "unbind_loop (s_runners s) m (m_size m - 1) (0 - inc) [] (s_workers s) = Inr (reduce, groups, W)"
      and rt: "retain_workers (s_runners s) [0..sz - 1] m groups W = Inr (groups', W')"
      and dl: "deal_loop groups' sz (m1, s\<lparr>s_workers := W'\<rparr>) = Inr (m2, s')"
    by (rule Balance_decrease_elim [OF assms(1)])
  have 1: "(\<forall>a. calm_worker (W a)) \<and> (\<forall>g \<in> set groups. length g = 1)"
    using unbind_loop_calm [OF u] assms(2) by (simp add: calm_def)
  then have 2: "(\<forall>a. calm_worker (W' a)) \<and> (\<forall>g \<in> set groups'. length g = 1)"
    using retain_workers_calm [OF rt] by blast
  then have "calm (s\<lparr>s_workers := W'\<rparr>)" using assms(2) by (simp add: calm_def)
  then show ?thesis using deal_loop_calm [OF dl] 2 by blast
qed

lemma create_calm:
  assumes "CreateTaskRunner n c g p sch nm (m, s) = Inr (c', m', s')" and "calm s"
  shows "calm s'"
  using assms(1)
proof (cases rule: CreateTaskRunner_elim)
  case (alone tr)
  then show ?thesis using assms(2) by (simp add: calm_def deadlines_ok_def TaskRunner_new_def dq_empty_def)
next
  case (bound tr wk s2)
  let ?s = "set_runner_worker n wk (set_runner n tr s)"
  obtain w where w: "Bind (s_runners ?s) [n] (s_workers ?s wk) = Inr w" and s2: "s2 = notify wk (set_worker wk w ?s)"
    using bound(3) by (auto simp: bind_at_def)
  have "calm_worker w" using calm_Bind [OF _ w] assms(2) by (simp add: calm_def)
  then have 2: "calm s2"
    using assms(2) bound(1) by (simp add: s2 calm_def deadlines_ok_def set_runner_worker_def TaskRunner_new_def dq_empty_def)
  moreover have "calm (UpdateWorkerSpecific wk [n] s2)"
    using 2 by (simp add: UpdateWorkerSpecific_def Let_def calm_def set_runner_worker_def deadlines_ok_def)
  ultimately show ?thesis using bound(4) by blast
qed

lemma terminate_calm: "calm s \<Longrightarrow> calm (Terminate wk s)"
  by (auto simp: calm_def Terminate_def TerminateWorker_def Let_def set_worker_def calm_worker_def groups_of_def)

lemma create_loop_calm: "create_loop mem f k (m, s) = (m', s') \<Longrightarrow> calm s \<Longrightarrow> calm s'"
proof (induction k arbitrary: f m s)
  case (Suc k)
  have "calm (Start f (new_worker (mem f) f s))" using Suc.prems(2) calm_new by (simp add: calm_def Start_def new_worker_def)
  then show ?case using Suc.IH Suc.prems(1) by simp
qed simp

lemma boot_calm: "calm (sd_sys (boot mem n))"
proof -
  obtain m s where ms: "WorkerManager_new mem 0 n empty_sys = (m, s)" by (cases "WorkerManager_new mem 0 n empty_sys")
  have "calm empty_sys" using calm_new by (simp add: calm_def empty_sys_def deadlines_ok_def TaskRunner_new_def dq_empty_def)
  then show ?thesis
    using create_loop_calm [of mem 0 "nat n" _ empty_sys m s] ms
    by (simp add: boot_def WorkerManager_new_def CreateWorkers_def)
qed

section \<open>Runs\<close>

definition event_ok :: "event \<Rightarrow> bool" where
  "event_ok e = (case e of EvAction a \<Rightarrow> action_ok a | EvRemove r \<Rightarrow> False | _ \<Rightarrow> True)"

lemma sched_do_calm:
  assumes ok: "sched_ok d" and e: "sched_do clk c e d = Inr d'" and calm: "calm (sd_sys d)"
    and hyp: "event_ok e" "client_ok c" "clock_ok clk"
  shows "calm (sd_sys d')"
proof (cases e)
  case (EvCreate g prio sch name)
  then show ?thesis using e create_calm [OF _ calm] by auto
next
  case (EvAction a)
  then show ?thesis using e hyp do_action_calm [OF _ calm] by (auto simp: event_ok_def)
next
  case (EvRound wk)
  then obtain t s1 b s where g: "GetNextTask clk wk (sd_sys d) = Inr (t, s1)"
    and r: "RunTask (client_exec clk c) clk wk (sd_sys d) = Inr (b, s)" and s: "sd_sys d' = s" using e by auto
  have w: "waiting_ok (sd_fresh d) (sd_sys d)" using ok by (simp add: sched_ok_def)
  show ?thesis unfolding s
    by (rule round_calm [OF w sched_okD(6) [OF ok] _ g r calm hyp(2,3)]) (use sched_ok_bound [OF ok] in blast)
next
  case (EvRemove r)
  then show ?thesis using hyp(1) by (simp add: event_ok_def)
next
  case (EvTerminate wk)
  then show ?thesis using e terminate_calm [OF calm] by auto
next
  case (EvShrink k)
  then obtain m s where r: "Resize False (\<lambda>_. 0) 0 (m_size (sd_manager d) - int k) (sd_manager d, sd_sys d) = Inr (m, s)"
    and s: "sd_sys d' = s" using e by auto
  show ?thesis
  proof (cases "k = 0")
    case True
    then show ?thesis using r s calm by (simp add: Resize_def)
  next
    case False
    then have "Balance_decrease False (- int k) (sd_manager d, sd_sys d) = Inr (m, s)"
      using r by (auto simp: Resize_def Balance_def)
    then show ?thesis unfolding s using calm by (rule shrink_calm)
  qed
qed

lemma sched_run_calm:
  "sched_run clk c es d = Inr d' \<Longrightarrow> sched_ok d \<Longrightarrow> calm (sd_sys d) \<Longrightarrow> list_all event_ok es \<Longrightarrow> client_ok c \<Longrightarrow>
     clock_ok clk \<Longrightarrow> calm (sd_sys d')"
proof (induction es arbitrary: d)
  case (Cons e es)
  then obtain d1 where e: "sched_do clk c e d = Inr d1" and rest: "sched_run clk c es d1 = Inr d'" by auto
  show ?case
    by (rule Cons.IH [OF rest sched_do_ok [OF Cons.prems(2) e] sched_do_calm [OF Cons.prems(2) e]])
      (use Cons.prems in simp_all)
qed simp

text \<open>A round of a calm worker whose loads fit comes back, with a task if a runner has one queued.\<close>

lemma round_progress:
  assumes ok: "sched_ok d" and calm: "calm (sd_sys d)" and clk: "clock_ok clk"
    and load: "\<forall>g \<in> set (running_groups (s_workers (sd_sys d) a)). in_i64 (group_load (s_runners (sd_sys d)) g)"
  shows "returns (GetNextTask clk a (sd_sys d))"
    and "r \<in># runners_of (s_workers (sd_sys d) a) \<Longrightarrow> task_queue (s_runners (sd_sys d) r) \<noteq> [] \<Longrightarrow>
      \<exists>t s'. GetNextTask clk a (sd_sys d) = Inr (Some t, s')"
proof -
  have trs: "\<forall>r. tr_ok (s_runners (sd_sys d) r)" using sched_okD(7) [OF ok] by blast
  have w: "calm_worker (s_workers (sd_sys d) a)" and dl: "\<forall>r. deadlines_ok (s_runners (sd_sys d) r)"
    using calm by (simp_all add: calm_def)
  have "\<forall>g \<in># groups_of (s_workers (sd_sys d) a). g \<noteq> []" using w unfolding calm_worker_def by fastforce
  then have "no_empty_group (s_workers (sd_sys d) a)" by (auto simp: no_empty_group_def groups_of_def)
  moreover have "td_ok (min_wait_time (s_workers (sd_sys d) a))" using w by (simp add: calm_worker_def)
  ultimately show ret: "returns (GetNextTask clk a (sd_sys d))"
    using GetNextTask_ok [of "sd_sys d" a clk] load clk trs dl by blast
  assume r: "r \<in># runners_of (s_workers (sd_sys d) a)" "task_queue (s_runners (sd_sys d) r) \<noteq> []"
  obtain t s' where g: "GetNextTask clk a (sd_sys d) = Inr (t, s')" using ret by (auto simp: returns_def)
  have "t \<noteq> None" by (rule GetNextTask_calm(2) [OF trs sched_okD(6) [OF ok] calm g r])
  then show "\<exists>t s'. GetNextTask clk a (sd_sys d) = Inr (Some t, s')" using g by auto
qed

section \<open>Rounds that run their task\<close>

text \<open>
  A post is answerable when its runner sits in a group of a worker and its delay leaves the deadline within 64 bits,
  the clock being at most \<open>H\<close>.
\<close>

fun action_runner :: "action \<Rightarrow> nat" where
  "action_runner (APost r f) = r"
| "action_runner (APostDelayed r f delay) = r"
| "action_runner (APostIdle r it) = r"

definition early :: "int \<Rightarrow> action \<Rightarrow> bool" where
  "early H a = (case a of APostDelayed r f delay \<Rightarrow> td_Zero \<le> delay \<and> H + delta delay < 2 ^ 63 | _ \<Rightarrow> True)"

definition answerable :: "int \<Rightarrow> sys \<Rightarrow> action \<Rightarrow> bool" where
  "answerable H s a \<longleftrightarrow> early H a \<and> (\<exists>b. action_runner a \<in># runners_of (s_workers s b))"

text \<open>A post changes neither the times nor the workers of the runners.\<close>

definition same_control :: "sys \<Rightarrow> sys \<Rightarrow> bool" where
  "same_control s s' \<longleftrightarrow> same_charge (s_runners s) (s_runners s') \<and> s_alive s' = s_alive s
     \<and> (\<forall>r. tr_worker (s_runners s' r) = tr_worker (s_runners s r)) \<and> s_threads s' = s_threads s"

lemma same_control_refl [simp]: "same_control s s"
  by (simp add: same_control_def)

lemma same_control_trans: "same_control a b \<Longrightarrow> same_control b c \<Longrightarrow> same_control a c"
  by (auto simp: same_control_def intro: same_charge_trans)

lemma do_action_returns:
  assumes "lock_worker (s_alive s) (s_runners s (action_runner a)) \<noteq> None" and "early H a" and "clock_within H clk"
  shows "\<exists>s'. do_action clk a s = Inr s' \<and> same_control s s'"
proof (cases a)
  case (APost r f)
  then show ?thesis using assms(1)
    by (auto simp: PostTask_callable_def Task_new_def PostTask_def NotifyWorker_def lock_worker_def Let_def
        same_control_def same_charge_def split: option.splits if_splits)
next
  case (APostIdle r it)
  then show ?thesis using assms(1)
    by (auto simp: PostIdleTask_def NotifyWorker_def lock_worker_def Let_def same_control_def same_charge_def
        split: option.splits if_splits)
next
  case (APostDelayed r f delay)
  have c: "0 \<le> ticks (clk (s_clock s))" "ticks (clk (s_clock s)) \<le> H" using assms(3) by (simp_all add: clock_within_def)
  have "0 \<le> delta delay" "H + delta delay < 2 ^ 63"
    using assms(2) APostDelayed by (simp_all add: early_def td_order_defs td_const_defs)
  then have "in_i64 (ticks (clk (s_clock s)) + delta delay)" using c unfolding in_i64_def by linarith
  then have "tp_plus (clk (s_clock s)) delay = Inr (TimePoint (ticks (clk (s_clock s)) + delta delay))"
    by (simp add: tp_plus_Inr_iff)
  then show ?thesis using assms(1) APostDelayed
    by (auto simp: PostDelayedTask_callable_def Task_new_def PostDelayedTask_def NotifyWorker_def lock_worker_def Let_def
        Now_def same_control_def same_charge_def split: option.splits if_splits)
qed

lemma do_actions_returns:
  "\<forall>a \<in> set as. lock_worker (s_alive s) (s_runners s (action_runner a)) \<noteq> None \<and> early H a \<Longrightarrow> clock_within H clk \<Longrightarrow>
     \<exists>s'. do_actions clk as s = Inr s' \<and> same_control s s'"
proof (induction "as" arbitrary: s)
  case (Cons a as)
  then obtain s1 where s1: "do_action clk a s = Inr s1" "same_control s s1"
    using do_action_returns [of s a H clk] by auto
  then have "\<forall>a \<in> set as. lock_worker (s_alive s1) (s_runners s1 (action_runner a)) \<noteq> None \<and> early H a"
    using Cons.prems(1) by (auto simp: same_control_def lock_worker_def)
  from Cons.IH [OF this Cons.prems(2)] obtain s' where "do_actions clk as s1 = Inr s'" "same_control s1 s'" by blast
  then show ?case using s1 same_control_trans by auto
qed simp

text \<open>In a calm state the group of a task that is taken has one runner.\<close>

lemma round_returns:
  assumes ok: "sched_ok d" and calm: "calm (sd_sys d)" and clk: "clock_within H clk" "H < 2 ^ 63"
    and load: "\<forall>g \<in> set (running_groups (s_workers (sd_sys d) a)). in_i64 (group_load (s_runners (sd_sys d)) g)"
    and run: "\<not> is_terminated (s_workers (sd_sys d) a)"
    and c: "\<forall>f. \<forall>x \<in> set (on_task c f). answerable H (sd_sys d) x"
    and B: "times_within B (s_runners (sd_sys d))" "B + H < 2 ^ 63"
  shows "\<exists>t s1 s. GetNextTask clk a (sd_sys d) = Inr (t, s1) \<and> RunTask (client_exec clk c) clk a (sd_sys d) = Inr (True, s)
    \<and> (t \<noteq> None \<longrightarrow> (\<exists>f. unit_of t = Some (UserCode f)))"
proof -
  let ?s = "sd_sys d"
  note imm = sched_okD(6) [OF ok, of a]
  have trs: "\<forall>r. tr_ok (s_runners ?s r)" using sched_okD(7) [OF ok] by blast
  obtain t s1 where g: "GetNextTask clk a ?s = Inr (t, s1)"
    using round_progress(1) [OF ok calm clock_within_ok [OF clk] load] by (auto simp: returns_def)
  have w: "waiting_ok (sd_fresh d) ?s" using ok by (simp add: sched_ok_def)
  note k = GetNextTask_keeps [OF trs imm g]
  have nt: "\<not> is_terminated (s_workers s1 a)" using k run by (auto simp: keeps_seats_def same_flags_def)
  show ?thesis
  proof (cases t)
    case None
    then have "RunTask (client_exec clk c) clk a ?s = Inr (True, s1)" using g nt by (simp add: RunTask_def)
    then show ?thesis using g None by blast
  next
    case (Some x)
    obtain h where h: "h \<in># groups_of (s_workers ?s a)" "h \<noteq> []" "curr_group (s_threads s1 a) = h"
      "pending_tasks (s_runners ?s (last h)) = add_mset (Some x) (pending_tasks (s_runners s1 (last h)))"
      using GetNextTask_took(1) [OF trs g imm] Some run by (auto simp: took_def)
    have "last h < sd_fresh d" by (rule sched_ok_bound [OF ok h(1)]) (use h(2) in simp)
    moreover have "Some x \<in># pending_tasks (s_runners ?s (last h))" using h(4) by simp
    ultimately have "unit_of t \<in># closures (sd_fresh d) ?s"
      unfolding closures_def Some by (auto simp: set_mset_sum intro!: bexI [of _ "last h"])
    then obtain f where f: "unit_of t = Some (UserCode f)" using sched_okD(9) [OF ok] by blast
    define s2 where "s2 = set_running a True (s1\<lparr>s_clock := Suc (s_clock s1)\<rparr>)"
    have "lock_worker (s_alive s2) (s_runners s2 (action_runner y)) \<noteq> None \<and> early H y" if y: "y \<in> set (on_task c f)" for y
    proof -
      obtain b where b: "action_runner y \<in># runners_of (s_workers ?s b)" and e: "early H y"
        using c y by (auto simp: answerable_def)
      have "tr_worker (s_runners ?s (action_runner y)) = Some b" "s_alive ?s b"
        using sched_okD(1) [OF ok b] sched_okD(5) [OF ok sched_okD_member(1) [OF ok b]] by simp_all
      then show ?thesis using k e by (simp add: lock_worker_alive keeps_seats_def s2_def set_running_def)
    qed
    then obtain s3 where s3: "do_actions clk (on_task c f) s2 = Inr s3" "same_control s2 s3"
      using do_actions_returns [of "on_task c f" s2 H clk] clk(1) by blast
    have "\<not> lib_unit (task_unit x)" using f Some by (simp add: unit_of_def lib_unit_def)
    then have r3: "Task_Run (client_exec clk c a) x s2 = Inr s3"
      using s3(1) f Some by (simp add: Task_Run_client unit_of_def code_actions_def)
    let ?s4 = "set_running a False s3"
    have g4: "curr_group (s_threads ?s4 a) = h" using s3(2) h(3) by (simp add: same_control_def s2_def set_running_def)
    have "length h = 1" using calm h(1) by (simp add: calm_def calm_worker_def)
    then have hd: "distinct h" by (cases h) auto
    have "\<bar>delta (time_used (s_runners ?s 0))\<bar> \<le> B" using B(1) by (simp add: times_within_def)
    then have B0: "0 \<le> B" by linarith
    have ck: "0 \<le> ticks (clk n)" "ticks (clk n) \<le> H" for n using clk(1) by (simp_all add: clock_within_def)
    have H0: "0 \<le> H" by (rule order_trans [OF ck [of 0]])
    have t4: "times_within B (s_runners ?s4)"
      using GetNextTask_times [OF trs g B(1)] s3(2)
      by (simp add: times_within_def same_control_def same_charge_def s2_def set_running_def)
    then have "\<forall>r \<in> set h. \<bar>delta (time_used (s_runners ?s4 r))\<bar> \<le> B" by (simp add: times_within_def)
    from bill_group_returns [OF hd this times_within_mono [OF t4] clk(1) ck B(2) B0] H0
    obtain s5 where "bill_group clk (clk (s_clock s1)) h ?s4 = Inr s5" by auto
    then have "RunTask (client_exec clk c) clk a ?s = Inr (True, s5)"
      using g Some r3 g4 by (simp add: RunTask_def Now_def Let_def s2_def)
    then show ?thesis using g f by blast
  qed
qed

end
