(* ===== verification/Fs_Scheduler_Props.thy ===== *)
theory Fs_Scheduler_Props
  imports Fs_Scheduler_Live
begin

text \<open>
  The properties of the whole scheduler, over the runs of \<open>Fs_Scheduler\<close>, and a run at which they are applied: two
  workers, a runner of group 5, a closure that posts another one when it runs, and a delayed post.
\<close>

section \<open>A sample run\<close>

definition run_clock :: clock where
  "run_clock n = TimePoint (1000 + 10 * min (int n) 1000)"

definition run_client :: client where
  "run_client = \<lparr>on_task = (\<lambda>f. if f = 1 then [APost 0 7] else []), on_idle = (\<lambda>k. [])\<rparr>"

definition run_events :: "event list" where
  "run_events =
     [EvCreate 5 1 True ''five'', EvAction (APost 0 1), EvRound 0, EvAction (APostDelayed 0 2 (TimeDelta 50)),
      EvTerminate 1]"

definition run_end :: sched where
  "run_end = (case sched_run run_clock run_client run_events (boot (\<lambda>_. 0) 2) of Inr d \<Rightarrow> d | Inl _ \<Rightarrow> boot (\<lambda>_. 0) 2)"

lemma run_returns: "sched_run run_clock run_client run_events (boot (\<lambda>_. 0) 2) = Inr run_end"
proof -
  have "case sched_run run_clock run_client run_events (boot (\<lambda>_. 0) 2) of Inr d \<Rightarrow> True | Inl _ \<Rightarrow> False" by code_simp
  then show ?thesis by (simp add: run_end_def split: sum.splits)
qed

lemma run_lists: "sd_posted run_end = [1, 7, 2]" "sd_ran run_end = [1]"
  by code_simp+

lemma run_seats: "running_groups (s_workers (sd_sys run_end) 0) = [[0]]" "pending_groups (s_workers (sd_sys run_end) 0) = []"
  by code_simp+

lemma run_member: "0 \<in># runners_of (s_workers (sd_sys run_end) 0)"
  by (simp add: runners_of_def run_seats)

lemma run_times: "\<bar>delta (time_used (s_runners (sd_sys run_end) r))\<bar> \<le> 1000"
proof (cases r)
  case 0
  have "\<bar>delta (time_used (s_runners (sd_sys run_end) 0))\<bar> \<le> 1000" by code_simp
  then show ?thesis using 0 by simp
next
  case (Suc k)
  have "delta (time_used (s_runners (sd_sys run_end) (Suc k))) = 0" by code_simp
  then show ?thesis using Suc by simp
qed

section \<open>The properties\<close>

text \<open>C1. Nothing the client posts is lost, whatever the events and their order: after any run of a new
  scheduler the closures that were posted, from outside or by closures that ran, are those that ran together with
  those that wait at a runner, each as often, even where runners were removed and the pool made smaller.\<close>

theorem scheduler_conserves_closures:
  assumes "sched_run clk c es (boot mem n) = Inr d"
  shows "mset (map (\<lambda>f. Some (UserCode f)) (sd_posted d))
    = mset (map (\<lambda>f. Some (UserCode f)) (sd_ran d)) + closures (sd_fresh d) (sd_sys d)"
  by (rule sched_okD(10) [OF sched_run_ok [OF assms sched_ok_boot]])

theorem scheduler_conserves_closures_witness:
  "closures (sd_fresh run_end) (sd_sys run_end) = {#Some (UserCode 7), Some (UserCode 2)#}"
  using scheduler_conserves_closures [OF run_returns] by (simp add: run_lists)

text \<open>C2. One seat, and it is known: after any run, a runner that is in a group of a worker is there once and in
  no other worker, it points to that worker, and posting to it succeeds and notifies exactly the worker
  that will run the task.\<close>

theorem scheduler_one_seat:
  assumes "sched_run clk c es (boot mem n) = Inr d" and "r \<in># runners_of (s_workers (sd_sys d) a)"
  shows "count (runners_of (s_workers (sd_sys d) a)) r = 1
    \<and> (\<forall>b. r \<in># runners_of (s_workers (sd_sys d) b) \<longrightarrow> b = a)
    \<and> tr_worker (s_runners (sd_sys d) r) = Some a
    \<and> (\<exists>s. do_action clk (APost r f) (sd_sys d) = Inr s \<and> s_notified s = s_notified (sd_sys d) @ [a])"
proof -
  have ok: "sched_ok d" by (rule sched_run_ok [OF assms(1) sched_ok_boot])
  show ?thesis
    using one_seat [OF ok assms(2)] sched_okD(1) [OF ok assms(2)] post_wakes_holder [OF ok assms(2)] by blast
qed

theorem scheduler_one_seat_witness:
  "tr_worker (s_runners (sd_sys run_end) 0) = Some 0 \<and> 0 \<notin># runners_of (s_workers (sd_sys run_end) 1)"
  using scheduler_one_seat [OF run_returns run_member] by auto

text \<open>C3. The scheduler makes progress: after any run in which no runner was removed and no delay was negative, a round
  of a worker that is not terminated comes back without a fault and goes on; and when a runner of the worker has a
  task queued, the round runs a closure of the client.  The loads of the worker's groups fit 64 bits; the clock stays
  between 0 and \<open>H\<close>, the runners have used at most \<open>B\<close>, and both together stay within 64 bits; and the closures of the client
  post only to runners that sit in a group of a worker, with delays after which the deadline still fits.\<close>

theorem scheduler_progress:
  assumes "sched_run clk c es (boot mem n) = Inr d" and "client_ok c" and "list_all event_ok es"
    and "\<not> is_terminated (s_workers (sd_sys d) a)"
    and "\<forall>g \<in> set (running_groups (s_workers (sd_sys d) a)). in_i64 (group_load (s_runners (sd_sys d)) g)"
    and "clock_within H clk" and "H < 2 ^ 63" and "times_within B (s_runners (sd_sys d))" and "B + H < 2 ^ 63"
    and "\<forall>f. \<forall>x \<in> set (on_task c f). answerable H (sd_sys d) x"
  shows "\<exists>s d'. RunTask (client_exec clk c) clk a (sd_sys d) = Inr (True, s)
    \<and> sched_do clk c (EvRound a) d = Inr d' \<and> sd_sys d' = s
    \<and> ((\<exists>r. r \<in># runners_of (s_workers (sd_sys d) a) \<and> task_queue (s_runners (sd_sys d) r) \<noteq> []) \<longrightarrow>
        (\<exists>f. sd_ran d' = sd_ran d @ [f]))"
proof -
  have ok: "sched_ok d" by (rule sched_run_ok [OF assms(1) sched_ok_boot])
  note clk = clock_within_ok [OF assms(6,7)]
  have calm: "calm (sd_sys d)" by (rule sched_run_calm [OF assms(1) sched_ok_boot boot_calm assms(3,2) clk])
  obtain t s1 s where r: "GetNextTask clk a (sd_sys d) = Inr (t, s1)" "RunTask (client_exec clk c) clk a (sd_sys d) = Inr (True, s)"
    "t \<noteq> None \<longrightarrow> (\<exists>f. unit_of t = Some (UserCode f))"
    using round_returns [OF ok calm assms(6,7,5,4,10,8,9)] by blast
  have "t \<noteq> None" if "r \<in># runners_of (s_workers (sd_sys d) a)" "task_queue (s_runners (sd_sys d) r) \<noteq> []" for r
    using round_progress(2) [OF ok calm clk assms(5) that] r(1) by auto
  then show ?thesis using r by auto
qed

theorem scheduler_progress_witness:
  "\<exists>d' f. sched_do run_clock run_client (EvRound 0) run_end = Inr d' \<and> sd_ran d' = [1, f]"
proof -
  have 1: "client_ok run_client" by (simp add: client_ok_def run_client_def action_ok_def)
  have 2: "list_all event_ok run_events" by code_simp
  have 3: "\<not> is_terminated (s_workers (sd_sys run_end) 0)" by code_simp
  have "in_i64 (group_load (s_runners (sd_sys run_end)) [0])" by code_simp
  then have 4: "\<forall>g \<in> set (running_groups (s_workers (sd_sys run_end) 0)). in_i64 (group_load (s_runners (sd_sys run_end)) g)"
    by (simp add: run_seats)
  have 5: "clock_within 11000 run_clock" by (auto simp: clock_within_def run_clock_def)
  have 6: "times_within 1000 (s_runners (sd_sys run_end))" using run_times by (simp add: times_within_def)
  have 7: "\<forall>f. \<forall>x \<in> set (on_task run_client f). answerable 11000 (sd_sys run_end) x"
    using run_member by (auto simp: run_client_def answerable_def early_def)
  have "task_queue (s_runners (sd_sys run_end) 0) \<noteq> []" by code_simp
  with scheduler_progress [OF run_returns 1 2 3 4 5 _ 6 _ 7] show ?thesis using run_member by (auto simp: run_lists)
qed

end
