(* ===== verification/Fs_Sub_Runner.thy ===== *)
theory Fs_Sub_Runner
  imports Fs_Scheduler
begin

text \<open>
  Sub runners, \<open>AddSubTaskRunner\<close> and \<open>RemoveSubTaskRunner\<close> of \<open>S/task_runner.cc\<close> with the worker around them: a runner
  that has got a sub runner waits until it is removed, whatever the worker runs in between, and removing it
  puts the worker back as it was.
\<close>

section \<open>Waiting behind a sub runner\<close>

text \<open>The runner \<open>f\<close> of the worker \<open>wk\<close> is behind somebody in every group that holds it.\<close>

definition waits_behind :: "nat \<Rightarrow> nat \<Rightarrow> sys \<Rightarrow> bool" where
  "waits_behind f wk s \<longleftrightarrow> (\<forall>g. g \<in># groups_of (s_workers s wk) \<longrightarrow> f \<in> set g \<longrightarrow> last g \<noteq> f)
     \<and> immediate_task_queue (s_workers s wk) = [] \<and> (\<forall>r. tr_ok (s_runners s r))"

text \<open>
  What a closure may do meanwhile: post to any runner, the waiting one included, but not move the groups of the
  worker, post to the worker itself, or take tasks of the waiting runner away.
\<close>

definition leaves_waiting :: "nat \<Rightarrow> nat \<Rightarrow> (nat \<Rightarrow> exec_code \<Rightarrow> sys \<Rightarrow> sys res) \<Rightarrow> bool" where
  "leaves_waiting f wk exec \<longleftrightarrow> (\<forall>c s s'. exec wk c s = Inr s' \<longrightarrow>
     groups_of (s_workers s' wk) = groups_of (s_workers s wk)
     \<and> immediate_task_queue (s_workers s' wk) = immediate_task_queue (s_workers s wk)
     \<and> ((\<forall>r. tr_ok (s_runners s r)) \<longrightarrow> (\<forall>r. tr_ok (s_runners s' r)))
     \<and> pending_tasks (s_runners s f) \<subseteq># pending_tasks (s_runners s' f))"

lemma bill_group_pending:
  "bill_group clk begin g s = Inr s' \<Longrightarrow> pending_tasks (s_runners s' r) = pending_tasks (s_runners s r)"
proof (induction g arbitrary: s)
  case (Cons q g)
  then obtain d tr where t: "AddTime d (s_runners s q) = Inr tr"
    and b: "bill_group clk begin g (set_runner q tr (s\<lparr>s_clock := Suc (s_clock s)\<rparr>)) = Inr s'"
    by (auto simp: Now_def Let_def)
  have "pending_tasks tr = pending_tasks (s_runners s q)"
    using t by (auto simp: AddTime_def pending_tasks_def)
  then show ?case using Cons.IH [OF b] by (simp add: set_runner_def)
qed simp

lemma GetNextTask_waits:
  assumes "waits_behind f wk s" and "GetNextTask clk wk s = Inr (t, s1)"
  shows "waits_behind f wk s1" and "pending_tasks (s_runners s1 f) = pending_tasks (s_runners s f)"
proof -
  have trs: "\<forall>r. tr_ok (s_runners s r)" and imm: "immediate_task_queue (s_workers s wk) = []"
    and behind: "\<And>g. g \<in># groups_of (s_workers s wk) \<Longrightarrow> f \<in> set g \<Longrightarrow> last g \<noteq> f"
    using assms(1) by (auto simp: waits_behind_def)
  note took = GetNextTask_took [OF trs assms(2) imm] and keeps = GetNextTask_keeps [OF trs imm assms(2)]
  show "waits_behind f wk s1"
    using assms(1) took(2) keeps by (simp add: waits_behind_def keeps_seats_def same_flags_def)
  show "pending_tasks (s_runners s1 f) = pending_tasks (s_runners s f)"
    using took(1) behind last_in_set unfolding took_def by metis
qed

lemma RunTask_waits:
  assumes "waits_behind f wk s" and "leaves_waiting f wk exec" and "RunTask exec clk wk s = Inr (b, s')"
  shows "waits_behind f wk s'" and "pending_tasks (s_runners s f) \<subseteq># pending_tasks (s_runners s' f)"
proof -
  obtain t s1 where get: "GetNextTask clk wk s = Inr (t, s1)"
    using assms(3) by (auto simp: RunTask_def)
  note w1 = GetNextTask_waits [OF assms(1) get]
  have "waits_behind f wk s' \<and> pending_tasks (s_runners s f) \<subseteq># pending_tasks (s_runners s' f)"
  proof (cases t)
    case None
    then show ?thesis using assms(3) get w1 by (auto simp: RunTask_def)
  next
    case (Some x)
    obtain s3 where run: "Task_Run (exec wk) x (set_running wk True (snd (Now clk s1))) = Inr s3"
      and bill: "bill_group clk (fst (Now clk s1)) (curr_group (s_threads (set_running wk False s3) wk))
        (set_running wk False s3) = Inr s'"
      using assms(3) get Some by (auto simp: RunTask_def split_beta Let_def)
    have same: "s_workers (set_running wk c y) = s_workers y" "s_runners (set_running wk c y) = s_runners y"
      "s_workers (snd (Now clk y)) = s_workers y" "s_runners (snd (Now clk y)) = s_runners y" for c y
      by (simp_all add: set_running_def set_thread_def Now_def)
    have w3: "waits_behind f wk s3 \<and> pending_tasks (s_runners s1 f) \<subseteq># pending_tasks (s_runners s3 f)"
      using run assms(2) w1(1)
      by (fastforce simp: Task_Run_def leaves_waiting_def waits_behind_def same split: option.splits)
    have "s_workers s' = s_workers s3" "tr_ok (s_runners s' r) = tr_ok (s_runners s3 r)"
      "pending_tasks (s_runners s' r) = pending_tasks (s_runners s3 r)" for r
      using bill_group_keeps [OF bill] bill_group_pending [OF bill] by (simp_all add: same)
    with w3 w1(2) show ?thesis by (simp add: waits_behind_def)
  qed
  then show "waits_behind f wk s'" and "pending_tasks (s_runners s f) \<subseteq># pending_tasks (s_runners s' f)"
    by blast+
qed

lemma run_tasks_waits:
  assumes "leaves_waiting f wk exec"
  shows "waits_behind f wk s \<Longrightarrow> run_tasks exec clk wk n s = Inr s' \<Longrightarrow>
    waits_behind f wk s' \<and> pending_tasks (s_runners s f) \<subseteq># pending_tasks (s_runners s' f)"
proof (induction n arbitrary: s)
  case (Suc n)
  then obtain b s1 where r: "RunTask exec clk wk s = Inr (b, s1)" and rs: "run_tasks exec clk wk n s1 = Inr s'"
    by auto
  note w = RunTask_waits [OF Suc.prems(1) assms r]
  show ?case using Suc.IH [OF w(1) rs] w(2) by (metis subset_mset.order_trans)
qed simp

section \<open>Adding and removing\<close>

text \<open>No two runners of a worker have the same id, and a worker holds a runner once.\<close>

definition ids_apart :: "nat \<Rightarrow> nat \<Rightarrow> sys \<Rightarrow> bool" where
  "ids_apart f wk s \<longleftrightarrow> count (runners_of (s_workers s wk)) f \<le> 1
     \<and> (\<forall>r. r \<in># runners_of (s_workers s wk) \<longrightarrow> GetId (s_runners s r) = GetId (s_runners s f) \<longrightarrow> r = f)"

lemma AddSub_cases:
  assumes "AddSubTaskRunner exec clk fuel f sub False s = Some (Inr (True, s1))"
  obtains wk w where "tr_worker (s_runners s f) = Some wk" and "s_alive s wk"
    and "BindGroup (s_runners s) (GetId (s_runners s f)) sub (s_workers s wk) = Inr w"
    and "s1 = set_runner f ((s_runners s f)\<lparr>has_sub_runner := True\<rparr>) (set_worker wk w s)"
  using assms by (auto simp: AddSubTaskRunner_def lock_worker_alive Let_def split: option.splits sum.splits)

text \<open>The father was in one place, and its sub runner is now behind everyone there.\<close>

lemma AddSub_waits:
  assumes add: "AddSubTaskRunner exec clk fuel f sub False s = Some (Inr (True, s1))"
    and wk: "tr_worker (s_runners s f) = Some wk" and "ids_apart f wk s" and "f \<noteq> sub"
    and "immediate_task_queue (s_workers s wk) = []" and "\<forall>r. tr_ok (s_runners s r)"
  shows "waits_behind f wk s1"
proof -
  let ?w = "s_workers s wk" and ?p = "\<lambda>r. GetId (s_runners s r) = GetId (s_runners s f)"
  obtain w where b: "BindGroup (s_runners s) (GetId (s_runners s f)) sub ?w = Inr w"
    and s1: "s1 = set_runner f ((s_runners s f)\<lparr>has_sub_runner := True\<rparr>) (set_worker wk w s)"
    using AddSub_cases [OF add] wk by auto
  have "add_to_group_of ?p sub (running_groups ?w @ pending_groups ?w) = Some (running_groups w @ pending_groups w)"
    using BindGroup_cases [of "s_runners s" "GetId (s_runners s f)" sub ?w] b by simp
  from add_to_group_of_group [OF this] obtain as g bs where
    old: "running_groups ?w @ pending_groups ?w = as @ g # bs"
    and new: "running_groups w @ pending_groups w = as @ (g @ [sub]) # bs" and g: "list_ex ?p g" by blast
  have rs: "runners_of ?w = sum_list (map mset (as @ g # bs))" by (simp add: runners_of_app old)
  obtain r where r: "r \<in> set g" "?p r" using g by (auto simp: list_ex_iff)
  moreover have "r \<in># runners_of ?w" using r rs by simp
  ultimately have fg: "f \<in> set g" using assms(3) by (auto simp: ids_apart_def)
  have c: "count (sum_list (map mset as)) f + count (mset g) f + count (sum_list (map mset bs)) f \<le> 1"
    using assms(3) rs by (simp add: ids_apart_def)
  moreover have "0 < count (mset g) f" using fg by simp
  ultimately have "count (sum_list (map mset as)) f = 0" "count (sum_list (map mset bs)) f = 0" by linarith+
  then have "f \<notin># sum_list (map mset as)" "f \<notin># sum_list (map mset bs)" by (simp_all add: count_eq_zero_iff)
  then have none: "f \<notin> set h" if "h \<in> set as \<union> set bs" for h
    using that by (auto simp: set_mset_sum_list)
  have "groups_of w = mset (as @ (g @ [sub]) # bs)" by (simp add: groups_of_def flip: new)
  then have "last h \<noteq> f" if "h \<in># groups_of w" "f \<in> set h" for h
    using that none assms(4) by auto
  moreover have "immediate_task_queue w = []"
    using b assms(5) by (auto simp: BindGroup_def split: option.splits)
  ultimately show ?thesis using assms(6)
    by (simp add: waits_behind_def s1 set_runner_def set_worker_def tr_ok_def)
qed

text \<open>Erasing the sub runner again puts back the lists it was added to.\<close>

lemma erase_added:
  assumes "add_to_group_of p c gs = Some gs'" and "q c" and "\<forall>g \<in> set gs. \<forall>r \<in> set g. \<not> q r"
  shows "erase_in_groups q gs' = Some gs"
proof -
  obtain as g bs where eq: "gs = as @ g # bs" "gs' = as @ (g @ [c]) # bs"
    using add_to_group_of_group [OF assms(1)] by blast
  have l: "remove_first q (h @ [c]) = h" if "\<forall>r \<in> set h. \<not> q r" for h
    using that assms(2) by (induction h) auto
  have "erase_in_groups q (as @ (g @ [c]) # bs) = Some (as @ g # bs)"
    using assms(3) unfolding eq(1)
    by (induction as) (use assms(2) l in \<open>auto simp: list_ex_iff\<close>)
  then show ?thesis using eq by simp
qed

lemma UnBind_BindGroup:
  assumes "BindGroup R father c w = Inr w'" and "\<forall>r. r \<in># runners_of w \<longrightarrow> GetId (R r) \<noteq> GetId (R c)"
  shows "UnBind R c w' = w"
proof -
  let ?q = "\<lambda>r. GetId (R r) = GetId (R c)"
  have none: "\<forall>g \<in> set (running_groups w). \<forall>r \<in> set g. \<not> ?q r" "\<forall>g \<in> set (pending_groups w). \<forall>r \<in> set g. \<not> ?q r"
    using assms(2) by (auto simp: runners_of_def set_mset_sum_list)
  show ?thesis
  proof (cases "add_to_group_of (\<lambda>r. GetId (R r) = father) c (running_groups w)")
    case (Some gs)
    then show ?thesis using assms(1) erase_added [OF Some, of ?q] none by (auto simp: BindGroup_def UnBind_def)
  next
    case None
    then obtain gs where gs: "add_to_group_of (\<lambda>r. GetId (R r) = father) c (pending_groups w) = Some gs"
      and w': "w' = w\<lparr>pending_groups := gs\<rparr>"
      using assms(1) by (auto simp: BindGroup_def split: option.splits)
    have "erase_in_groups ?q (running_groups w) = None" using none by (simp add: erase_in_groups_None)
    then show ?thesis using w' erase_added [OF gs, of ?q] none by (simp add: UnBind_def)
  qed
qed

lemma RemoveSub_undoes:
  assumes add: "AddSubTaskRunner exec clk fuel f sub False s = Some (Inr (True, s1))"
    and wk: "tr_worker (s_runners s f) = Some wk" and "f \<noteq> sub"
    and "\<forall>r. r \<in># runners_of (s_workers s wk) \<longrightarrow> GetId (s_runners s r) \<noteq> GetId (s_runners s sub)"
  shows "RemoveSubTaskRunner f (Some sub) s1 = Inr (True, notify wk
    (set_runner f ((s_runners s f)\<lparr>has_sub_runner := False\<rparr>) s))"
proof -
  obtain w where al: "s_alive s wk"
    and b: "BindGroup (s_runners s) (GetId (s_runners s f)) sub (s_workers s wk) = Inr w"
    and s1: "s1 = set_runner f ((s_runners s f)\<lparr>has_sub_runner := True\<rparr>) (set_worker wk w s)"
    using AddSub_cases [OF add] wk by auto
  have id: "GetId (s_runners s1 r) = GetId (s_runners s r)" for r
    by (simp add: s1 set_runner_def set_worker_def GetId_def)
  have un: "UnBind (s_runners s1) sub w = s_workers s wk"
    using UnBind_BindGroup [OF b assms(4)] by (simp only: UnBind_def id)
  have "s_workers s1 wk = w" "s_alive s1 = s_alive s" "has_sub_runner (s_runners s1 f)"
    "tr_worker (s_runners s1 f) = Some wk"
    by (simp_all add: s1 set_runner_def set_worker_def wk)
  with un al show ?thesis
    by (simp add: RemoveSubTaskRunner_def lock_worker_def wk Let_def NotifyWorker_def)
      (simp add: s1 set_worker_def set_runner_def wk lock_worker_def)
qed

text \<open>
  A sub runner that has a group of its own on the same worker, as every runner does that a manager has bound, loses the
  wrong seat when that group comes first: its own group is left empty, and it stays behind the father.
\<close>

lemma add_to_group_of_skip:
  "\<forall>g \<in> set as. \<forall>r \<in> set g. \<not> p r \<Longrightarrow>
     add_to_group_of p c (as @ gs) = map_option ((@) as) (add_to_group_of p c gs)"
proof (induction as)
  case Nil
  then show ?case by (cases "add_to_group_of p c gs") simp_all
next
  case (Cons a as)
  then show ?case by (cases "add_to_group_of p c gs") (auto simp: list_ex_iff)
qed

lemma sub_runner_seat_lost:
  assumes b: "BindGroup R father sub w = Inr w'" and w: "running_groups w = as @ [sub] # bs"
    and as: "\<forall>g \<in> set as. \<forall>r \<in> set g. GetId (R r) \<noteq> father \<and> GetId (R r) \<noteq> GetId (R sub)"
    and ne: "GetId (R sub) \<noteq> father"
  shows "\<exists>bs'. running_groups (UnBind R sub w') = as @ [] # bs'
    \<and> (\<exists>g \<in> set (bs' @ pending_groups w'). last g = sub \<and> (\<exists>r \<in> set g. GetId (R r) = father))"
proof -
  let ?p = "\<lambda>r. GetId (R r) = father"
  have add: "add_to_group_of ?p sub (running_groups w) = map_option (\<lambda>gs. as @ [sub] # gs) (add_to_group_of ?p sub bs)"
    unfolding w using as ne by (subst add_to_group_of_skip) (auto simp: option.map_comp comp_def)
  have last: "\<exists>h \<in> set hs. last h = sub \<and> (\<exists>r \<in> set h. GetId (R r) = father)"
    if "add_to_group_of ?p sub gs = Some hs" for gs hs
    using add_to_group_of_group [OF that] by (auto simp: list_ex_iff)
  have empties: "running_groups (UnBind R sub w') = as @ [] # bs'" if "running_groups w' = as @ [sub] # bs'" for bs'
    using UnBind_empties [OF that, of R] as by simp
  show ?thesis
  proof (cases "add_to_group_of ?p sub bs")
    case (Some bs')
    then have "running_groups w' = as @ [sub] # bs'" using b add by (auto simp: BindGroup_def)
    then show ?thesis using empties last [OF Some] by auto
  next
    case None
    then obtain hs where "add_to_group_of ?p sub (pending_groups w) = Some hs" "w' = w\<lparr>pending_groups := hs\<rparr>"
      using b add by (auto simp: BindGroup_def split: option.splits)
    then show ?thesis using empties [of bs] last [of "pending_groups w" hs] w by auto
  qed
qed

end
