(* ===== verification/Fs_Build_Config.thy ===== *)
theory Fs_Build_Config
  imports Fs_Prelude
begin

text \<open>
  \<open>H/build_config.h\<close> and \<open>H/macros.h\<close>: what the preprocessor makes of them.  The state is the table of the macros
  that are defined; a header reads the table the compiler and the command line fill and extends it, or stops at an
  \<open>#error\<close>.  The headers of the system that the two include are a parameter \<open>inc\<close>, the table after the header as a
  function of the table before it.  The function-like macros are functions on what they are applied to.
\<close>

section \<open>Tables of macros\<close>

text \<open>
  The macros the two headers test, with \<open>U\<close> for the underscores before a reserved name (\<open>U_linux\<close> is \<open>__linux__\<close>,
  \<open>U_WIN32\<close> is \<open>_WIN32\<close>), and the macros they define.  \<open>TDF_API\<close> may come from the command line.
\<close>

datatype predef =
    U_Fuchsia | ANDROID | U_ANDROID | U_APPLE | TARGET_OS_IPHONE | TARGET_OS_MAC | U_linux | U_GLIBC
    | U_UCLIBC | U_WIN32 | U_FreeBSD | U_OpenBSD | U_sun | U_QNXNTO | U_M_X64 | U_x86_64 | U_M_IX86 | U_i386
    | U_ARMEL | U_aarch64 | U_pnacl | U_MIPSEL | U_LP64 | U_clang | U_GNUC | U_MSC_VER | CPP_STANDARD
    | OS_NACL | TDF_API | NDEBUG

datatype own =
    OS_MACOSX | OS_IOS | OS_LINUX | LIBC_GLIBC | OS_FUCHSIA | OS_ANDROID | OS_WIN | OS_FREEBSD | OS_OPENBSD
    | OS_SOLARIS | OS_QNX | OS_BSD | OS_POSIX | ARCH_CPU_X86_FAMILY | ARCH_CPU_X86_64
    | ARCH_CPU_64_BITS | ARCH_CPU_LITTLE_ENDIAN | ARCH_CPU_X86 | ARCH_CPU_32_BITS | ARCH_CPU_ARM_FAMILY
    | ARCH_CPU_ARMEL | ARCH_CPU_ARM64 | ARCH_CPU_MIPS64_FAMILY | ARCH_CPU_MIPS64EL | ARCH_CPU_MIPS_FAMILY
    | ARCH_CPU_MIPSEL | TDF_PLATFORM_IOS | TDF_PLATFORM_MOBILE | TDF_PLATFORM_MAC | TDF_PLATFORM_PC
    | TDF_PLATFORM_ANDROID | TDF_PLATFORM_WINDOWS | TDF_PLATFORM_LINUX | TDF_DLL_IMPORT | TDF_DLL_EXPORT
    | TDF_DLL_LOCAL | TDF_CPP_STANDARD | TDF_HAS_CPP_03 | TDF_HAS_CPP_11 | TDF_HAS_CPP_14 | TDF_HAS_CPP_17
    | TDF_COMPILER_CLANG | TDF_COMPILER_GCC | TDF_COMPILER_MSVC | TDF_BASE_EMBEDDER_ONLY

datatype macro = Pre predef | Own own

text \<open>The body of a macro: a number, or other tokens (none at all for \<open>#define X\<close>).\<close>

datatype body = Num int | Toks string

type_synonym macros = "macro \<rightharpoonup> body"

text \<open>An \<open>#error\<close> with its message, or a condition on a macro that has no number for its value.\<close>

datatype pp_error = HashError string | BadCondition macro

type_synonym pp = "pp_error + macros"

definition defined :: "macros \<Rightarrow> macro \<Rightarrow> bool" where
  "defined m x \<longleftrightarrow> m x \<noteq> None"

text \<open>\<open>#define x 1\<close> for each name of a list.\<close>

definition define_ones :: "macro list \<Rightarrow> macros \<Rightarrow> macros" where
  "define_ones xs m = (\<lambda>x. if x \<in> set xs then Some (Num 1) else m x)"

text \<open>\<open>#if x >= n\<close>, where a name that is not defined counts as 0, and \<open>#if x\<close>.\<close>

definition pp_if_ge :: "macros \<Rightarrow> macro \<Rightarrow> int \<Rightarrow> pp \<Rightarrow> pp \<Rightarrow> pp" where
  "pp_if_ge m x n a b = (case m x of None \<Rightarrow> if 0 \<ge> n then a else b
     | Some (Num i) \<Rightarrow> if i \<ge> n then a else b
     | Some (Toks _) \<Rightarrow> Inl (BadCondition x))"

definition pp_if :: "macros \<Rightarrow> macro \<Rightarrow> pp \<Rightarrow> pp \<Rightarrow> pp" where
  "pp_if m x a b = (case m x of None \<Rightarrow> b
     | Some (Num i) \<Rightarrow> if i \<noteq> 0 then a else b
     | Some (Toks _) \<Rightarrow> Inl (BadCondition x))"

definition pp_then :: "pp \<Rightarrow> (macros \<Rightarrow> pp) \<Rightarrow> pp" where
  "pp_then p f = (case p of Inl e \<Rightarrow> Inl e | Inr m \<Rightarrow> f m)"

lemma pp_then_simps [simp]:
  "pp_then (Inl e) f = Inl e" "pp_then (Inr m) f = f m"
  by (simp_all add: pp_then_def)

lemma pp_then_Inr_iff: "pp_then p f = Inr m' \<longleftrightarrow> (\<exists>m. p = Inr m \<and> f m = Inr m')"
  by (cases p) simp_all

lemma defined_define_ones [simp]: "defined (define_ones xs m) x \<longleftrightarrow> x \<in> set xs \<or> defined m x"
  by (simp add: defined_def define_ones_def)

section \<open>H/build\_config.h\<close>

definition bc_platform_error :: string where
  "bc_platform_error = ''Please add support for your platform in flutter/fml/build_config.h''"

definition bc_arch_error :: string where
  "bc_arch_error = ''Please add support for your architecture in flutter/fml/build_config.h''"

definition bc_apple :: "(string \<Rightarrow> macros \<Rightarrow> macros) \<Rightarrow> macros \<Rightarrow> pp" where
  "bc_apple inc m =
     (let m = define_ones [Own OS_MACOSX] (inc ''TargetConditionals.h'' m)
      in if defined m (Pre TARGET_OS_IPHONE)
         then pp_if m (Pre TARGET_OS_IPHONE) (Inr (define_ones [Own OS_IOS] m)) (Inr m)
         else Inr m)"

definition bc_linux :: "(string \<Rightarrow> macros \<Rightarrow> macros) \<Rightarrow> macros \<Rightarrow> macros" where
  "bc_linux inc m =
     (let m = inc ''unistd.h'' (define_ones [Own OS_LINUX] m)
      in if defined m (Pre U_GLIBC) \<and> \<not> defined m (Pre U_UCLIBC) then define_ones [Own LIBC_GLIBC] m else m)"

definition bc_os :: "(string \<Rightarrow> macros \<Rightarrow> macros) \<Rightarrow> macros \<Rightarrow> pp" where
  "bc_os inc m =
     (if defined m (Pre U_Fuchsia) then Inr (define_ones [Own OS_FUCHSIA] m)
      else if defined m (Pre ANDROID) then Inr (define_ones [Own OS_ANDROID] m)
      else if defined m (Pre U_APPLE) then bc_apple inc m
      else if defined m (Pre U_linux) then Inr (bc_linux inc m)
      else if defined m (Pre U_WIN32) then Inr (define_ones [Own OS_WIN] m)
      else if defined m (Pre U_FreeBSD) then Inr (define_ones [Own OS_FREEBSD] m)
      else if defined m (Pre U_OpenBSD) then Inr (define_ones [Own OS_OPENBSD] m)
      else if defined m (Pre U_sun) then Inr (define_ones [Own OS_SOLARIS] m)
      else if defined m (Pre U_QNXNTO) then Inr (define_ones [Own OS_QNX] m)
      else Inl (HashError bc_platform_error))"

definition bc_bsd :: "macros \<Rightarrow> macros" where
  "bc_bsd m = (if defined m (Own OS_FREEBSD) \<or> defined m (Own OS_OPENBSD) then define_ones [Own OS_BSD] m else m)"

definition bc_posix :: "macros \<Rightarrow> macros" where
  "bc_posix m =
     (if defined m (Own OS_MACOSX) \<or> defined m (Own OS_LINUX) \<or> defined m (Own OS_FREEBSD) \<or> defined m (Own OS_OPENBSD)
         \<or> defined m (Own OS_SOLARIS) \<or> defined m (Own OS_ANDROID) \<or> defined m (Pre OS_NACL) \<or> defined m (Own OS_QNX)
      then define_ones [Own OS_POSIX] m else m)"

definition bc_arch :: "macros \<Rightarrow> pp" where
  "bc_arch m =
     (if defined m (Pre U_M_X64) \<or> defined m (Pre U_x86_64) then
        Inr (define_ones [Own ARCH_CPU_X86_FAMILY, Own ARCH_CPU_X86_64, Own ARCH_CPU_64_BITS, Own ARCH_CPU_LITTLE_ENDIAN] m)
      else if defined m (Pre U_M_IX86) \<or> defined m (Pre U_i386) then
        Inr (define_ones [Own ARCH_CPU_X86_FAMILY, Own ARCH_CPU_X86, Own ARCH_CPU_32_BITS, Own ARCH_CPU_LITTLE_ENDIAN] m)
      else if defined m (Pre U_ARMEL) then
        Inr (define_ones [Own ARCH_CPU_ARM_FAMILY, Own ARCH_CPU_ARMEL, Own ARCH_CPU_32_BITS, Own ARCH_CPU_LITTLE_ENDIAN] m)
      else if defined m (Pre U_aarch64) then
        Inr (define_ones [Own ARCH_CPU_ARM_FAMILY, Own ARCH_CPU_ARM64, Own ARCH_CPU_64_BITS, Own ARCH_CPU_LITTLE_ENDIAN] m)
      else if defined m (Pre U_pnacl) then
        Inr (define_ones [Own ARCH_CPU_32_BITS, Own ARCH_CPU_LITTLE_ENDIAN] m)
      else if defined m (Pre U_MIPSEL) then
        (if defined m (Pre U_LP64) then
           Inr (define_ones [Own ARCH_CPU_MIPS64_FAMILY, Own ARCH_CPU_MIPS64EL, Own ARCH_CPU_64_BITS,
             Own ARCH_CPU_LITTLE_ENDIAN] m)
         else
           Inr (define_ones [Own ARCH_CPU_MIPS_FAMILY, Own ARCH_CPU_MIPSEL, Own ARCH_CPU_32_BITS,
             Own ARCH_CPU_LITTLE_ENDIAN] m))
      else Inl (HashError bc_arch_error))"

definition build_config :: "(string \<Rightarrow> macros \<Rightarrow> macros) \<Rightarrow> macros \<Rightarrow> pp" where
  "build_config inc m = pp_then (bc_os inc m) (\<lambda>m. bc_arch (bc_posix (bc_bsd m)))"

section \<open>H/macros.h\<close>

definition mh_error :: string where
  "mh_error = ''Unknow Operator System''"

definition mh_apple :: "(string \<Rightarrow> macros \<Rightarrow> macros) \<Rightarrow> macros \<Rightarrow> pp" where
  "mh_apple inc m =
     (let m = inc ''TargetConditionals.h'' m
      in pp_if m (Pre TARGET_OS_IPHONE) (Inr (define_ones [Own TDF_PLATFORM_IOS, Own TDF_PLATFORM_MOBILE] m))
        (pp_if m (Pre TARGET_OS_MAC) (Inr (define_ones [Own TDF_PLATFORM_MAC, Own TDF_PLATFORM_PC] m))
          (Inl (HashError mh_error))))"

definition mh_platform :: "(string \<Rightarrow> macros \<Rightarrow> macros) \<Rightarrow> macros \<Rightarrow> pp" where
  "mh_platform inc m =
     pp_if m (Pre U_ANDROID) (Inr (define_ones [Own TDF_PLATFORM_ANDROID, Own TDF_PLATFORM_MOBILE] m))
       (pp_if m (Pre U_APPLE) (mh_apple inc m)
         (if defined m (Pre U_WIN32) then Inr (define_ones [Own TDF_PLATFORM_WINDOWS, Own TDF_PLATFORM_PC] m)
          else pp_if m (Pre U_linux) (Inr (define_ones [Own TDF_PLATFORM_LINUX, Own TDF_PLATFORM_PC] m))
            (Inl (HashError mh_error))))"

definition mh_dll :: "macros \<Rightarrow> macros" where
  "mh_dll m =
     (if defined m (Pre U_WIN32) then
        m((Own TDF_DLL_IMPORT) \<mapsto> Toks ''__declspec(dllimport)'',
          (Own TDF_DLL_EXPORT) \<mapsto> Toks ''__declspec(dllexport)'',
          (Own TDF_DLL_LOCAL) \<mapsto> Toks '''')
      else
        m((Own TDF_DLL_IMPORT) \<mapsto> Toks ''__attribute__((visibility(\"default\")))'',
          (Own TDF_DLL_EXPORT) \<mapsto> Toks ''__attribute__((visibility(\"default\")))'',
          (Own TDF_DLL_LOCAL) \<mapsto> Toks ''__attribute__((visibility(\"hidden\")))''))"

definition mh_api :: "macros \<Rightarrow> macros" where
  "mh_api m = (if defined m (Pre TDF_API) then m else m((Pre TDF_API) \<mapsto> Toks ''TDF_DLL_EXPORT''))"

definition mh_standard :: "macros \<Rightarrow> macros" where
  "mh_standard m =
     (if defined m (Pre U_clang) \<or> defined m (Pre U_GNUC) then m((Own TDF_CPP_STANDARD) \<mapsto> Toks ''__cplusplus'')
      else if defined m (Pre U_MSC_VER) then m((Own TDF_CPP_STANDARD) \<mapsto> Toks ''_MSVC_LANG'')
      else m)"

definition mh_has_one :: "int \<Rightarrow> macro \<Rightarrow> macros \<Rightarrow> pp" where
  "mh_has_one n x m = pp_if_ge m (Pre CPP_STANDARD) n (Inr (define_ones [x] m)) (Inr m)"

definition mh_has :: "macros \<Rightarrow> pp" where
  "mh_has m =
     pp_then (mh_has_one 199711 (Own TDF_HAS_CPP_03) m) (\<lambda>m.
     pp_then (mh_has_one 201103 (Own TDF_HAS_CPP_11) m) (\<lambda>m.
     pp_then (mh_has_one 201402 (Own TDF_HAS_CPP_14) m)
       (mh_has_one 201703 (Own TDF_HAS_CPP_17))))"

definition mh_compiler :: "macros \<Rightarrow> pp" where
  "mh_compiler m =
     (if defined m (Pre U_clang) then Inr (m((Own TDF_COMPILER_CLANG) \<mapsto> Toks ''''))
      else if defined m (Pre U_GNUC) then Inr (m((Own TDF_COMPILER_GCC) \<mapsto> Toks ''''))
      else if defined m (Pre U_MSC_VER) then Inr (m((Own TDF_COMPILER_MSVC) \<mapsto> Toks ''''))
      else Inl (HashError ''Unknow compiler''))"

definition macros_h :: "(string \<Rightarrow> macros \<Rightarrow> macros) \<Rightarrow> macros \<Rightarrow> pp" where
  "macros_h inc m =
     pp_then (mh_platform inc m) (\<lambda>m.
     pp_then (mh_has (mh_standard (mh_api (mh_dll m)))) (\<lambda>m.
     pp_then (mh_compiler m) (\<lambda>m. Inr (m((Own TDF_BASE_EMBEDDER_ONLY) \<mapsto> Toks '''')))))"

subsection \<open>Macros with arguments\<close>

text \<open>The special member functions of a class that one of the \<open>TDF_BASE_DISALLOW\<close> macros deletes.\<close>

datatype special = DefaultCtor | CopyCtor | MoveCtor | CopyAssign | MoveAssign

definition TDF_BASE_DISALLOW_COPY :: "special list" where
  "TDF_BASE_DISALLOW_COPY = [CopyCtor]"

definition TDF_BASE_DISALLOW_ASSIGN :: "special list" where
  "TDF_BASE_DISALLOW_ASSIGN = [CopyAssign]"

definition TDF_BASE_DISALLOW_MOVE :: "special list" where
  "TDF_BASE_DISALLOW_MOVE = [MoveCtor, MoveAssign]"

definition TDF_BASE_DISALLOW_COPY_AND_ASSIGN :: "special list" where
  "TDF_BASE_DISALLOW_COPY_AND_ASSIGN = [CopyCtor, CopyAssign]"

definition TDF_BASE_DISALLOW_COPY_ASSIGN_AND_MOVE :: "special list" where
  "TDF_BASE_DISALLOW_COPY_ASSIGN_AND_MOVE = [CopyCtor, MoveCtor, CopyAssign, MoveAssign]"

definition TDF_BASE_DISALLOW_IMPLICIT_CONSTRUCTORS :: "special list" where
  "TDF_BASE_DISALLOW_IMPLICIT_CONSTRUCTORS = DefaultCtor # TDF_BASE_DISALLOW_COPY_ASSIGN_AND_MOVE"

text \<open>
  \<open>assert_fn(fn)\<close>: with \<open>NDEBUG\<close> the function is not called at all.  A false \<open>assert\<close> aborts, as a failed check does.
\<close>

definition assert_fn :: "macros \<Rightarrow> ('s \<Rightarrow> (bool \<times> 's) res) \<Rightarrow> 's \<Rightarrow> 's res" where
  "assert_fn m fn s =
     (if defined m (Pre NDEBUG) then Inr s else bind_res (fn s) (\<lambda>(b, s'). check b (Inr s')))"

text \<open>\<open>WEAK_CALL(weak, type, fn, args)\<close>: \<open>alive\<close> says whether the object still exists when the pointer is locked.\<close>

definition WEAK_CALL :: "(nat \<Rightarrow> bool) \<Rightarrow> nat \<Rightarrow> (nat \<Rightarrow> 's \<Rightarrow> 's res) \<Rightarrow> 's \<Rightarrow> 's res" where
  "WEAK_CALL alive weak fn s = (if alive weak then fn weak s else Inr s)"
end
