(* ===== verification/Fs_Build_Facts.thy ===== *)
theory Fs_Build_Facts
  imports Fs_Build_Config
begin

text \<open>
  What the preprocessor selects.  The chains of \<open>#if\<close> are compared with tables: the first macro of a table that is
  defined decides.
\<close>

section \<open>One system, one processor\<close>

definition bc_systems :: "(predef \<times> own) list" where
  "bc_systems =
     [(U_Fuchsia, OS_FUCHSIA), (ANDROID, OS_ANDROID), (U_APPLE, OS_MACOSX), (U_linux, OS_LINUX),
      (U_WIN32, OS_WIN), (U_FreeBSD, OS_FREEBSD), (U_OpenBSD, OS_OPENBSD), (U_sun, OS_SOLARIS), (U_QNXNTO, OS_QNX)]"

text \<open>Whether the processor has 64 bits; \<open>__MIPSEL__\<close> alone depends on another macro.\<close>

definition bc_cpus :: "(predef \<times> bool) list" where
  "bc_cpus = [(U_M_X64, True), (U_x86_64, True), (U_M_IX86, False), (U_i386, False), (U_ARMEL, False),
     (U_aarch64, True), (U_pnacl, False)]"

definition system_of :: "macros \<Rightarrow> own option" where
  "system_of m = map_option snd (find (\<lambda>(p, _). defined m (Pre p)) bc_systems)"

definition cpu_is_64 :: "macros \<Rightarrow> bool option" where
  "cpu_is_64 m = (case find (\<lambda>(p, _). defined m (Pre p)) bc_cpus of
     Some (_, b) \<Rightarrow> Some b
   | None \<Rightarrow> if defined m (Pre U_MIPSEL) then Some (defined m (Pre U_LP64)) else None)"

text \<open>A header of the system touches only the macros it is included for.\<close>

definition inc_ok :: "(string \<Rightarrow> macros \<Rightarrow> macros) \<Rightarrow> bool" where
  "inc_ok inc \<longleftrightarrow> (\<forall>h m x. x \<notin> Pre ` {TARGET_OS_IPHONE, TARGET_OS_MAC, U_GLIBC, U_UCLIBC} \<longrightarrow> inc h m x = m x)"

lemma inc_okD:
  "inc_ok inc \<Longrightarrow> x \<notin> Pre ` {TARGET_OS_IPHONE, TARGET_OS_MAC, U_GLIBC, U_UCLIBC} \<Longrightarrow> inc h m x = m x"
  by (simp add: inc_ok_def)

lemma defined_inc:
  "inc_ok inc \<Longrightarrow> x \<notin> Pre ` {TARGET_OS_IPHONE, TARGET_OS_MAC, U_GLIBC, U_UCLIBC} \<Longrightarrow>
   defined (inc h m) x = defined m x"
  by (simp add: inc_okD defined_def)

text \<open>The processor: exactly one number of bits, and always little endian.\<close>

lemma bc_arch_Inl: "bc_arch m = Inl e \<longleftrightarrow> cpu_is_64 m = None \<and> e = HashError bc_arch_error"
  by (auto simp: bc_arch_def cpu_is_64_def bc_cpus_def)

lemma bc_arch_Inr:
  assumes "bc_arch m = Inr m'" and "\<not> defined m (Own ARCH_CPU_32_BITS)" and "\<not> defined m (Own ARCH_CPU_64_BITS)"
  shows "cpu_is_64 m = Some (defined m' (Own ARCH_CPU_64_BITS))"
    and "defined m' (Own ARCH_CPU_32_BITS) \<longleftrightarrow> \<not> defined m' (Own ARCH_CPU_64_BITS)"
    and "defined m' (Own ARCH_CPU_LITTLE_ENDIAN)"
  using assms by (auto simp: bc_arch_def cpu_is_64_def bc_cpus_def split: if_splits)

lemma bc_arch_keeps:
  assumes "bc_arch m = Inr m'"
  shows "defined m' (Pre p) = defined m (Pre p)"
    and "x \<in> {OS_IOS, OS_BSD, OS_POSIX} \<union> snd ` set bc_systems \<Longrightarrow> defined m' (Own x) = defined m (Own x)"
  using assms by (auto simp: bc_arch_def bc_systems_def split: if_splits)

text \<open>The system: the first macro of the table that is defined.\<close>

lemma bc_os_Inr:
  assumes "inc_ok inc" and "\<And>x. \<not> defined m (Own x)" and "bc_os inc m = Inr m1"
  obtains os where "system_of m = Some os" and "os \<in> snd ` set bc_systems"
    and "\<And>x. x \<notin> {OS_IOS, LIBC_GLIBC} \<Longrightarrow> defined m1 (Own x) \<longleftrightarrow> x = os"
    and "defined m1 (Own OS_IOS) \<Longrightarrow> os = OS_MACOSX"
    and "\<And>p. p \<notin> {TARGET_OS_IPHONE, TARGET_OS_MAC, U_GLIBC, U_UCLIBC} \<Longrightarrow> defined m1 (Pre p) = defined m (Pre p)"
proof -
  have "\<exists>os. system_of m = Some os \<and> os \<in> snd ` set bc_systems
    \<and> (\<forall>x. x \<notin> {OS_IOS, LIBC_GLIBC} \<longrightarrow> (defined m1 (Own x) \<longleftrightarrow> x = os))
    \<and> (defined m1 (Own OS_IOS) \<longrightarrow> os = OS_MACOSX)
    \<and> (\<forall>p. p \<notin> {TARGET_OS_IPHONE, TARGET_OS_MAC, U_GLIBC, U_UCLIBC} \<longrightarrow> defined m1 (Pre p) = defined m (Pre p))"
    using assms(2,3)
    by (auto simp: bc_os_def bc_apple_def bc_linux_def Let_def pp_if_def system_of_def bc_systems_def
        defined_inc [OF assms(1)] image_iff split: if_splits option.splits body.splits)
  then show thesis using that by blast
qed

lemma bc_os_Inl:
  assumes "inc_ok inc" and "\<And>t. inc ''TargetConditionals.h'' m (Pre TARGET_OS_IPHONE) \<noteq> Some (Toks t)"
  shows "bc_os inc m = Inl e \<longleftrightarrow> system_of m = None \<and> e = HashError bc_platform_error"
  using assms(2)
  by (auto simp: bc_os_def bc_apple_def Let_def pp_if_def system_of_def bc_systems_def define_ones_def
      split: if_splits option.splits body.splits)

lemma cpu_is_64_cong:
  "(\<And>p. p \<in> insert U_MIPSEL (insert U_LP64 (fst ` set bc_cpus)) \<Longrightarrow> defined m (Pre p) = defined m' (Pre p)) \<Longrightarrow>
   cpu_is_64 m = cpu_is_64 m'"
  by (simp add: cpu_is_64_def bc_cpus_def)


lemma build_config_system:
  assumes "inc_ok inc" and "\<forall>x. m (Own x) = None" and "build_config inc m = Inr m'"
  obtains os m1 where "system_of m = Some os" and "os \<in> snd ` set bc_systems"
    and "\<And>x. x \<in> snd ` set bc_systems \<Longrightarrow> defined m' (Own x) \<longleftrightarrow> x = os"
    and "defined m' (Own OS_IOS) \<Longrightarrow> os = OS_MACOSX"
    and "bc_arch m1 = Inr m'" and "cpu_is_64 m1 = cpu_is_64 m"
    and "\<not> defined m1 (Own ARCH_CPU_32_BITS)" and "\<not> defined m1 (Own ARCH_CPU_64_BITS)"
    and "defined m1 (Own OS_BSD) \<longleftrightarrow> os = OS_FREEBSD \<or> os = OS_OPENBSD"
    and "defined m1 (Own OS_POSIX) \<longleftrightarrow> (os \<noteq> OS_FUCHSIA \<and> os \<noteq> OS_WIN) \<or> defined m (Pre OS_NACL)"
proof -
  obtain m1 where os: "bc_os inc m = Inr m1" and arch: "bc_arch (bc_posix (bc_bsd m1)) = Inr m'"
    using assms(3) by (auto simp: build_config_def pp_then_Inr_iff)
  have fresh: "\<not> defined m (Own x)" for x using assms(2) by (simp add: defined_def)
  obtain s where s: "system_of m = Some s" "s \<in> snd ` set bc_systems"
    and d: "\<And>x. x \<notin> {OS_IOS, LIBC_GLIBC} \<Longrightarrow> defined m1 (Own x) \<longleftrightarrow> x = s"
    and ios: "defined m1 (Own OS_IOS) \<Longrightarrow> s = OS_MACOSX"
    and pre: "\<And>p. p \<notin> {TARGET_OS_IPHONE, TARGET_OS_MAC, U_GLIBC, U_UCLIBC} \<Longrightarrow> defined m1 (Pre p) = defined m (Pre p)"
    by (rule bc_os_Inr [OF assms(1) fresh os]) (rule that; assumption)
  let ?m = "bc_posix (bc_bsd m1)"
  have mid: "defined ?m (Own x) = defined m1 (Own x)" if "x \<notin> {OS_BSD, OS_POSIX}" for x
    using that by (simp add: bc_posix_def bc_bsd_def)
  have names: "s \<notin> {OS_IOS, LIBC_GLIBC, OS_BSD, OS_POSIX, ARCH_CPU_32_BITS, ARCH_CPU_64_BITS}"
    using s(2) by (auto simp: bc_systems_def)
  show thesis
  proof (rule that [OF s _ _ arch])
    show "cpu_is_64 ?m = cpu_is_64 m"
      by (rule cpu_is_64_cong) (auto simp: bc_cpus_def bc_posix_def bc_bsd_def pre)
    show "\<not> defined ?m (Own ARCH_CPU_32_BITS)" "\<not> defined ?m (Own ARCH_CPU_64_BITS)"
      using names d mid by auto
    show "defined m' (Own x) \<longleftrightarrow> x = s" if "x \<in> snd ` set bc_systems" for x
    proof -
      have "x \<notin> {OS_IOS, LIBC_GLIBC, OS_BSD, OS_POSIX}" using that by (auto simp: bc_systems_def)
      with that bc_arch_keeps(2) [OF arch, of x] mid [of x] d [of x] show ?thesis by simp
    qed
    show "s = OS_MACOSX" if "defined m' (Own OS_IOS)"
      using that bc_arch_keeps(2) [OF arch, of OS_IOS] mid [of OS_IOS] ios by simp
    show "defined ?m (Own OS_BSD) \<longleftrightarrow> s = OS_FREEBSD \<or> s = OS_OPENBSD"
      using d names by (auto simp: bc_posix_def bc_bsd_def)
    show "defined ?m (Own OS_POSIX) \<longleftrightarrow> (s \<noteq> OS_FUCHSIA \<and> s \<noteq> OS_WIN) \<or> defined m (Pre OS_NACL)"
      using d pre names s(2) by (auto simp: bc_posix_def bc_bsd_def bc_systems_def)
  qed
qed

text \<open>The header selects exactly one system, the first of its table whose macro is defined, and one processor:
  iOS is a kind of macOS, BSD and POSIX follow from the system, the number of bits is 32 or 64 as the macros of
  the processor say, and the byte order is little endian.\<close>

theorem build_config_selects:
  assumes "inc_ok inc" and "\<forall>x. m (Own x) = None" and "build_config inc m = Inr m'"
  shows "\<exists>os. system_of m = Some os
    \<and> {x \<in> snd ` set bc_systems. defined m' (Own x)} = {os}
    \<and> (defined m' (Own OS_IOS) \<longrightarrow> os = OS_MACOSX)
    \<and> (defined m' (Own OS_BSD) \<longleftrightarrow> os = OS_FREEBSD \<or> os = OS_OPENBSD)
    \<and> (defined m' (Own OS_POSIX) \<longleftrightarrow> (os \<noteq> OS_FUCHSIA \<and> os \<noteq> OS_WIN) \<or> defined m (Pre OS_NACL))
    \<and> cpu_is_64 m = Some (defined m' (Own ARCH_CPU_64_BITS))
    \<and> (defined m' (Own ARCH_CPU_32_BITS) \<longleftrightarrow> \<not> defined m' (Own ARCH_CPU_64_BITS))
    \<and> defined m' (Own ARCH_CPU_LITTLE_ENDIAN)"
  using assms
proof (rule build_config_system)
  fix os m1
  assume *: "system_of m = Some os" "os \<in> snd ` set bc_systems"
    "\<And>x. x \<in> snd ` set bc_systems \<Longrightarrow> defined m' (Own x) \<longleftrightarrow> x = os"
    "defined m' (Own OS_IOS) \<Longrightarrow> os = OS_MACOSX" "bc_arch m1 = Inr m'" "cpu_is_64 m1 = cpu_is_64 m"
    "\<not> defined m1 (Own ARCH_CPU_32_BITS)" "\<not> defined m1 (Own ARCH_CPU_64_BITS)"
    "defined m1 (Own OS_BSD) \<longleftrightarrow> os = OS_FREEBSD \<or> os = OS_OPENBSD"
    "defined m1 (Own OS_POSIX) \<longleftrightarrow> (os \<noteq> OS_FUCHSIA \<and> os \<noteq> OS_WIN) \<or> defined m (Pre OS_NACL)"
  have "{x \<in> snd ` set bc_systems. defined m' (Own x)} = {os}" using *(2,3) by auto
  with * bc_arch_Inr [OF *(5,7,8)] bc_arch_keeps(2) [OF *(5), of OS_BSD] bc_arch_keeps(2) [OF *(5), of OS_POSIX]
  show ?thesis by simp
qed

text \<open>A build for iOS on a 64 bit ARM.\<close>

definition sample_inc :: "string \<Rightarrow> macros \<Rightarrow> macros" where
  "sample_inc h m = (if h = ''TargetConditionals.h''
     then m(Pre TARGET_OS_IPHONE \<mapsto> Num 1, Pre TARGET_OS_MAC \<mapsto> Num 1) else m)"

definition sample_macros :: macros where
  "sample_macros = [Pre U_APPLE \<mapsto> Num 1, Pre U_aarch64 \<mapsto> Num 1, Pre U_LP64 \<mapsto> Num 1, Pre U_clang \<mapsto> Num 1]"

lemma sample_inc_ok [simp]: "inc_ok sample_inc"
  by (auto simp: inc_ok_def sample_inc_def)

lemma sample_macros_fresh [simp]: "\<forall>x. sample_macros (Own x) = None"
  by (simp add: sample_macros_def)

definition sample_config :: macros where
  "sample_config = (case build_config sample_inc sample_macros of Inr m \<Rightarrow> m)"

lemma sample_config_run: "build_config sample_inc sample_macros = Inr sample_config"
  by (simp add: sample_config_def build_config_def bc_os_def bc_apple_def Let_def pp_if_def bc_arch_def
      define_ones_def defined_def bc_posix_def bc_bsd_def sample_inc_def sample_macros_def)

theorem build_config_selects_witness:
  "defined sample_config (Own OS_MACOSX) \<and> defined sample_config (Own ARCH_CPU_64_BITS)"
proof -
  have "system_of sample_macros = Some OS_MACOSX" "cpu_is_64 sample_macros = Some True"
    by (simp_all add: system_of_def cpu_is_64_def bc_systems_def bc_cpus_def defined_def sample_macros_def)
  then show ?thesis
    using build_config_selects [OF sample_inc_ok sample_macros_fresh sample_config_run] by auto
qed

text \<open>The header is rejected exactly where it knows no macro of the system, or knows one and no macro of
  the processor, and the message says which.\<close>

theorem build_config_rejects:
  assumes "inc_ok inc" and "\<forall>t. inc ''TargetConditionals.h'' m (Pre TARGET_OS_IPHONE) \<noteq> Some (Toks t)"
  shows "build_config inc m = Inl e \<longleftrightarrow>
    (if system_of m = None then e = HashError bc_platform_error
     else cpu_is_64 m = None \<and> e = HashError bc_arch_error)"
proof (cases "bc_os inc m")
  case (Inl e')
  then show ?thesis using bc_os_Inl [of inc m e'] assms by (auto simp: build_config_def)
next
  case (Inr m1)
  have keep: "defined m1 (Pre p) = defined m (Pre p)"
    if "p \<notin> {TARGET_OS_IPHONE, TARGET_OS_MAC, U_GLIBC, U_UCLIBC}" for p
    using Inr that
    by (auto simp: bc_os_def bc_apple_def bc_linux_def Let_def pp_if_def defined_inc [OF assms(1)]
        split: if_splits option.splits body.splits)
  have "cpu_is_64 (bc_posix (bc_bsd m1)) = cpu_is_64 m"
    by (rule cpu_is_64_cong) (auto simp: bc_cpus_def bc_posix_def bc_bsd_def keep)
  moreover have "system_of m \<noteq> None"
    using bc_os_Inl [of inc m "HashError bc_platform_error"] assms Inr by auto
  ultimately show ?thesis using Inr by (auto simp: build_config_def bc_arch_Inl)
qed

theorem build_config_rejects_witness:
  "build_config sample_inc [Pre U_linux \<mapsto> Num 1] = Inl (HashError bc_arch_error)"
proof -
  have "system_of [Pre U_linux \<mapsto> Num 1] = Some OS_LINUX" "cpu_is_64 [Pre U_linux \<mapsto> Num 1] = None"
    by (simp_all add: system_of_def cpu_is_64_def bc_systems_def bc_cpus_def defined_def)
  then show ?thesis
    using build_config_rejects [of sample_inc "[Pre U_linux \<mapsto> Num 1]" "HashError bc_arch_error"]
    by (simp add: sample_inc_def)
qed

section \<open>The platform of \<open>H/macros.h\<close>\<close>

abbreviation mh_platforms :: "own set" where
  "mh_platforms \<equiv> {TDF_PLATFORM_ANDROID, TDF_PLATFORM_IOS, TDF_PLATFORM_MAC, TDF_PLATFORM_WINDOWS,
     TDF_PLATFORM_LINUX, TDF_PLATFORM_MOBILE, TDF_PLATFORM_PC}"

abbreviation mh_standards :: "own set" where
  "mh_standards \<equiv> {TDF_HAS_CPP_03, TDF_HAS_CPP_11, TDF_HAS_CPP_14, TDF_HAS_CPP_17}"

lemma mh_has_Inr:
  assumes "mh_has m = Inr m'"
  shows "x \<notin> Own ` mh_standards \<Longrightarrow> m' x = m x"
    and "\<not> defined m (Pre CPP_STANDARD) \<Longrightarrow> m' = m"
  using assms
  by (auto simp: mh_has_def mh_has_one_def pp_if_ge_def pp_then_def define_ones_def defined_def
      split: option.splits body.splits if_splits sum.splits)

text \<open>What comes after the choice of the platform leaves it alone.\<close>

lemma macros_h_Inr:
  assumes "macros_h inc m = Inr m2"
  obtains m1 where "mh_platform inc m = Inr m1"
    and "\<And>x. x \<in> mh_platforms \<Longrightarrow> defined m2 (Own x) = defined m1 (Own x)"
    and "\<And>x. \<not> defined m1 (Pre CPP_STANDARD) \<Longrightarrow> x \<in> mh_standards \<Longrightarrow> defined m2 (Own x) = defined m1 (Own x)"
proof -
  obtain m1 m3 where p: "mh_platform inc m = Inr m1" and h: "mh_has (mh_standard (mh_api (mh_dll m1))) = Inr m3"
    and c: "pp_then (mh_compiler m3) (\<lambda>m. Inr (m(Own TDF_BASE_EMBEDDER_ONLY \<mapsto> Toks ''''))) = Inr m2"
    using assms by (auto simp: macros_h_def pp_then_Inr_iff)
  let ?m = "mh_standard (mh_api (mh_dll m1))"
  have a: "defined ?m (Own x) = defined m1 (Own x)" if "x \<in> mh_platforms \<union> mh_standards" for x
    using that by (auto simp: mh_standard_def mh_api_def mh_dll_def defined_def)
  have p1: "defined ?m (Pre CPP_STANDARD) = defined m1 (Pre CPP_STANDARD)"
    by (simp add: mh_standard_def mh_api_def mh_dll_def defined_def)
  have b: "defined m2 (Own x) = defined m3 (Own x)" if "x \<in> mh_platforms \<union> mh_standards" for x
    using that c by (auto simp: mh_compiler_def defined_def split: if_splits)
  show thesis
  proof (rule that [OF p])
    fix x assume x: "x \<in> mh_platforms"
    then have "Own x \<notin> Own ` mh_standards" by auto
    then have "m3 (Own x) = ?m (Own x)" by (rule mh_has_Inr(1) [OF h])
    with a [of x] b [of x] x show "defined m2 (Own x) = defined m1 (Own x)" by (auto simp: defined_def)
  next
    fix x assume "\<not> defined m1 (Pre CPP_STANDARD)" "x \<in> mh_standards"
    then show "defined m2 (Own x) = defined m1 (Own x)"
      using mh_has_Inr(2) [OF h] p1 a [of x] b [of x] by auto
  qed
qed

text \<open>The value of \<open>TARGET_OS_IPHONE\<close> after its header.\<close>

definition is_iphone :: "(string \<Rightarrow> macros \<Rightarrow> macros) \<Rightarrow> macros \<Rightarrow> bool" where
  "is_iphone inc m = (case inc ''TargetConditionals.h'' m (Pre TARGET_OS_IPHONE) of Some (Num i) \<Rightarrow> i \<noteq> 0 | _ \<Rightarrow> False)"

text \<open>The two macros the first header defines for the platform.\<close>

definition platform_macros :: "(string \<Rightarrow> macros \<Rightarrow> macros) \<Rightarrow> macros \<Rightarrow> macro list" where
  "platform_macros inc m =
     (if defined m (Pre U_ANDROID) then [Own TDF_PLATFORM_ANDROID, Own TDF_PLATFORM_MOBILE]
      else if defined m (Pre U_APPLE)
      then if is_iphone inc m then [Own TDF_PLATFORM_IOS, Own TDF_PLATFORM_MOBILE]
           else [Own TDF_PLATFORM_MAC, Own TDF_PLATFORM_PC]
      else if defined m (Pre U_WIN32) then [Own TDF_PLATFORM_WINDOWS, Own TDF_PLATFORM_PC]
      else [Own TDF_PLATFORM_LINUX, Own TDF_PLATFORM_PC])"

lemma pp_if_Inr: "pp_if m x a b = Inr m' \<longleftrightarrow>
    (if m x = None \<or> m x = Some (Num 0) then b = Inr m' else (\<exists>i. m x = Some (Num i)) \<and> a = Inr m')"
  by (auto simp: pp_if_def split: option.splits body.splits)

lemma mh_apple_Inr:
  assumes "mh_apple inc m = Inr m1"
  shows "m1 = define_ones (if is_iphone inc m then [Own TDF_PLATFORM_IOS, Own TDF_PLATFORM_MOBILE]
      else [Own TDF_PLATFORM_MAC, Own TDF_PLATFORM_PC]) (inc ''TargetConditionals.h'' m)"
  using assms by (auto simp: mh_apple_def Let_def pp_if_Inr is_iphone_def split: if_splits)

lemma mh_platform_Inr:
  assumes "mh_platform inc m = Inr m1"
    and num: "\<And>p. p \<in> {U_ANDROID, U_APPLE, U_linux} \<Longrightarrow> m (Pre p) \<noteq> Some (Num 0)"
  shows "m1 = define_ones (platform_macros inc m)
      (if defined m (Pre U_APPLE) \<and> \<not> defined m (Pre U_ANDROID) then inc ''TargetConditionals.h'' m else m)"
  using assms(1) num [of U_ANDROID] num [of U_APPLE] num [of U_linux]
  by (auto simp: mh_platform_def pp_if_Inr defined_def platform_macros_def dest: mh_apple_Inr split: if_splits)

lemma mh_platform_linux:
  assumes "mh_platform inc m = Inr m1" and "\<not> defined m (Pre U_ANDROID)" "\<not> defined m (Pre U_APPLE)" "\<not> defined m (Pre U_WIN32)"
  shows "defined m (Pre U_linux)"
  using assms by (auto simp: mh_platform_def pp_if_Inr defined_def split: if_splits)

lemma bc_apple_ios:
  assumes "inc_ok inc" and "m (Own OS_IOS) = None" and "bc_apple inc m = Inr m'"
  shows "defined m' (Own OS_IOS) \<longleftrightarrow> is_iphone inc m"
proof -
  let ?m = "inc ''TargetConditionals.h'' m"
  have "?m (Own OS_IOS) = None" using inc_okD [OF assms(1)] assms(2) by auto
  then show ?thesis
    using assms(3)
    by (cases "?m (Pre TARGET_OS_IPHONE)")
      (auto simp: bc_apple_def Let_def pp_if_Inr is_iphone_def define_ones_def defined_def split: if_splits body.splits)
qed

lemma bc_linux_ios: "inc_ok inc \<Longrightarrow> defined (bc_linux inc m) (Own OS_IOS) = defined m (Own OS_IOS)"
  by (simp add: bc_linux_def Let_def defined_inc image_iff)

lemma bc_os_ios:
  assumes "inc_ok inc" and "m (Own OS_IOS) = None" and "bc_os inc m = Inr m'"
  shows "defined m' (Own OS_IOS) \<longleftrightarrow> system_of m = Some OS_MACOSX \<and> is_iphone inc m"
proof (cases "\<not> defined m (Pre U_Fuchsia) \<and> \<not> defined m (Pre ANDROID) \<and> defined m (Pre U_APPLE)")
  case True
  then show ?thesis using bc_apple_ios [of inc m m'] assms by (simp add: bc_os_def system_of_def bc_systems_def)
next
  case False
  have "\<not> defined m (Own OS_IOS)" using assms(2) by (simp add: defined_def)
  then have "\<not> defined m' (Own OS_IOS)"
    using assms(3) False bc_linux_ios [OF assms(1), of m] by (auto simp: bc_os_def split: if_splits)
  moreover have "system_of m \<noteq> Some OS_MACOSX" using False by (auto simp: system_of_def bc_systems_def)
  ultimately show ?thesis by simp
qed

lemma build_config_ios:
  assumes "inc_ok inc" and "m (Own OS_IOS) = None" and "build_config inc m = Inr m1"
  shows "defined m1 (Own OS_IOS) \<longleftrightarrow> system_of m = Some OS_MACOSX \<and> is_iphone inc m"
proof -
  obtain m' where os: "bc_os inc m = Inr m'" and arch: "bc_arch (bc_posix (bc_bsd m')) = Inr m1"
    using assms(3) by (auto simp: build_config_def pp_then_Inr_iff)
  have "defined m1 (Own OS_IOS) = defined m' (Own OS_IOS)"
    using bc_arch_keeps(2) [OF arch, of OS_IOS] by (simp add: bc_posix_def bc_bsd_def)
  with bc_os_ios [OF assms(1,2) os] show ?thesis by simp
qed

text \<open>C40. The two headers, when both pass their checks, agree on the platform where the toolchain defines \<open>ANDROID\<close> with
  \<open>__ANDROID__\<close>, not both \<open>__linux__\<close> and \<open>_WIN32\<close>, not \<open>__Fuchsia__\<close>, none of \<open>__ANDROID__\<close>, \<open>__APPLE__\<close> and \<open>__linux__\<close> as 0,
  and none of the macros of the two headers, and where the headers of the system define only what they are for
  (\<open>inc_ok\<close>); the platform is mobile on Android and iOS and a computer elsewhere, and none of the
  macros for a standard of C++ is defined unless the build defines \<open>CPP_STANDARD\<close>, whatever the standard is.\<close>

theorem platforms_agree:
  assumes "inc_ok inc" and "\<forall>x. m (Own x) = None"
    and "build_config inc m = Inr m1" and "macros_h inc m = Inr m2"
    and "\<forall>p \<in> {U_ANDROID, U_APPLE, U_linux}. m (Pre p) \<noteq> Some (Num 0)"
    and "defined m (Pre ANDROID) = defined m (Pre U_ANDROID)" and "\<not> defined m (Pre U_Fuchsia)"
    and "\<not> (defined m (Pre U_linux) \<and> defined m (Pre U_WIN32))"
  shows "defined m2 (Own TDF_PLATFORM_ANDROID) = defined m1 (Own OS_ANDROID)
    \<and> defined m2 (Own TDF_PLATFORM_IOS) = defined m1 (Own OS_IOS)
    \<and> defined m2 (Own TDF_PLATFORM_MAC) = (defined m1 (Own OS_MACOSX) \<and> \<not> defined m1 (Own OS_IOS))
    \<and> defined m2 (Own TDF_PLATFORM_WINDOWS) = defined m1 (Own OS_WIN)
    \<and> defined m2 (Own TDF_PLATFORM_LINUX) = defined m1 (Own OS_LINUX)
    \<and> defined m2 (Own TDF_PLATFORM_MOBILE) = (defined m1 (Own OS_ANDROID) \<or> defined m1 (Own OS_IOS))
    \<and> defined m2 (Own TDF_PLATFORM_PC) = (\<not> defined m2 (Own TDF_PLATFORM_MOBILE))
    \<and> (\<not> defined m (Pre CPP_STANDARD) \<longrightarrow> (\<forall>x \<in> mh_standards. \<not> defined m2 (Own x)))"
proof -
  obtain os where os: "system_of m = Some os"
    and one: "\<And>x. x \<in> snd ` set bc_systems \<Longrightarrow> defined m1 (Own x) \<longleftrightarrow> x = os"
    by (rule build_config_system [OF assms(1-3)]) (rule that; assumption)
  have ios: "defined m1 (Own OS_IOS) \<longleftrightarrow> system_of m = Some OS_MACOSX \<and> is_iphone inc m"
    using build_config_ios [OF assms(1) _ assms(3)] assms(2) by simp
  have sys: "defined m1 (Own x) \<longleftrightarrow> system_of m = Some x" if "x \<in> {OS_ANDROID, OS_MACOSX, OS_WIN, OS_LINUX}" for x
    using one [of x] os that by (auto simp: bc_systems_def)
  obtain m0 where p: "mh_platform inc m = Inr m0"
    and d: "\<And>x. x \<in> mh_platforms \<Longrightarrow> defined m2 (Own x) = defined m0 (Own x)"
    and h: "\<And>x. \<not> defined m0 (Pre CPP_STANDARD) \<Longrightarrow> x \<in> mh_standards \<Longrightarrow> defined m2 (Own x) = defined m0 (Own x)"
    by (rule macros_h_Inr [OF assms(4)]) (rule that; assumption)
  have m0: "m0 = define_ones (platform_macros inc m)
      (if defined m (Pre U_APPLE) \<and> \<not> defined m (Pre U_ANDROID) then inc ''TargetConditionals.h'' m else m)"
    by (rule mh_platform_Inr [OF p]) (use assms(5) in blast)
  have own: "defined m0 (Own x) \<longleftrightarrow> Own x \<in> set (platform_macros inc m)" for x
  proof -
    have "\<not> defined (inc ''TargetConditionals.h'' m) (Own x)" "\<not> defined m (Own x)"
      using assms(2) inc_okD [OF assms(1), of "Own x"] by (auto simp: defined_def)
    then show ?thesis by (simp add: m0)
  qed
  have cpp: "defined m0 (Pre CPP_STANDARD) = defined m (Pre CPP_STANDARD)"
    using inc_okD [OF assms(1), of "Pre CPP_STANDARD"] by (auto simp: m0 defined_def define_ones_def platform_macros_def)
  have plat: "defined m2 (Own x) \<longleftrightarrow> Own x \<in> set (platform_macros inc m)" if "x \<in> mh_platforms" for x
    using d [OF that] own by simp
  have "\<not> defined m2 (Own x)" if "\<not> defined m (Pre CPP_STANDARD)" "x \<in> mh_standards" for x
    using h [of x] that cpp own [of x] by (auto simp: platform_macros_def split: if_splits)
  moreover note mh_platform_linux [OF p] assms(6-8)
  moreover have "system_of m = Some OS_ANDROID \<longleftrightarrow> defined m (Pre U_ANDROID)"
    "system_of m = Some OS_MACOSX \<longleftrightarrow> \<not> defined m (Pre U_ANDROID) \<and> defined m (Pre U_APPLE)"
    "system_of m = Some OS_LINUX \<longleftrightarrow>
      \<not> defined m (Pre U_ANDROID) \<and> \<not> defined m (Pre U_APPLE) \<and> defined m (Pre U_linux)"
    "system_of m = Some OS_WIN \<longleftrightarrow> \<not> defined m (Pre U_ANDROID) \<and> \<not> defined m (Pre U_APPLE)
      \<and> \<not> defined m (Pre U_linux) \<and> defined m (Pre U_WIN32)"
    using assms(6,7) by (simp_all add: system_of_def bc_systems_def)
  ultimately show ?thesis
    by (cases "defined m (Pre U_ANDROID)"; cases "defined m (Pre U_APPLE)"; cases "is_iphone inc m";
        cases "defined m (Pre U_WIN32)"; simp add: plat sys ios platform_macros_def)
qed

definition sample_platform :: macros where
  "sample_platform = (case macros_h sample_inc sample_macros of Inr m \<Rightarrow> m)"

lemma sample_platform_run: "macros_h sample_inc sample_macros = Inr sample_platform"
  by (simp add: sample_platform_def macros_h_def mh_platform_def mh_apple_def Let_def pp_if_def define_ones_def
      defined_def mh_has_def mh_has_one_def pp_if_ge_def mh_standard_def mh_api_def mh_dll_def mh_compiler_def
      sample_inc_def sample_macros_def)

theorem platforms_agree_witness:
  "defined sample_platform (Own TDF_PLATFORM_MAC) =
    (defined sample_config (Own OS_MACOSX) \<and> \<not> defined sample_config (Own OS_IOS))
   \<and> \<not> defined sample_platform (Own TDF_HAS_CPP_11)"
proof -
  have "\<forall>p \<in> {U_ANDROID, U_APPLE, U_linux}. sample_macros (Pre p) \<noteq> Some (Num 0)"
    "defined sample_macros (Pre ANDROID) = defined sample_macros (Pre U_ANDROID)"
    "\<not> defined sample_macros (Pre U_Fuchsia)" "\<not> defined sample_macros (Pre CPP_STANDARD)"
    "\<not> (defined sample_macros (Pre U_linux) \<and> defined sample_macros (Pre U_WIN32))"
    by (simp_all add: sample_macros_def defined_def)
  then show ?thesis
    using platforms_agree [OF sample_inc_ok sample_macros_fresh sample_config_run sample_platform_run] by simp
qed

text \<open>With \<open>__ANDROID__\<close> alone, which is what the compiler defines, they do not agree.\<close>

lemma platforms_differ:
  assumes "m = [Pre U_ANDROID \<mapsto> Num 1, Pre U_linux \<mapsto> Num 1, Pre U_aarch64 \<mapsto> Num 1, Pre U_clang \<mapsto> Num 1]"
  shows "\<exists>m1 m2. build_config (\<lambda>_ m. m) m = Inr m1 \<and> macros_h (\<lambda>_ m. m) m = Inr m2
    \<and> defined m1 (Own OS_LINUX) \<and> \<not> defined m1 (Own OS_ANDROID) \<and> defined m2 (Own TDF_PLATFORM_ANDROID)"
  by (simp add: assms build_config_def bc_os_def bc_linux_def Let_def bc_arch_def define_ones_def defined_def
      bc_posix_def bc_bsd_def macros_h_def mh_platform_def pp_if_def mh_has_def mh_has_one_def pp_if_ge_def
      mh_standard_def mh_api_def mh_dll_def mh_compiler_def)

end
