(* ===== verification/Fs_Log_Platforms.thy ===== *)
theory Fs_Log_Platforms
  imports Fs_Logging
begin

text \<open>
  The functions that each \<open>src/platform/*/logging.cc\<close> repeats: \<open>GetNameForLogSeverity\<close>, the constructor of
  \<open>LogMessage\<close> and \<open>GetVlogVerbosity\<close>, file by file.  \<open>Fs_Logging\<close> has them once, with the platform as an
  argument; here they are shown to be that.
\<close>

section \<open>The files\<close>

text \<open>The macro \<open>LOG_INFO\<close>: that of \<open>syslog.h\<close>, and that of the file for Windows.\<close>

definition LOG_INFO :: int where "LOG_INFO = 6"
definition LOG_INFO_win :: int where "LOG_INFO_win = 6"

subsection \<open>platform/adr\<close>

definition GetNameForLogSeverity_adr :: "int \<Rightarrow> string" where
  "GetNameForLogSeverity_adr severity =
     (if severity \<ge> TDF_LOG_INFO \<and> severity < TDF_LOG_NUM_SEVERITIES then kLogSeverityNames ! nat severity else ''UNKNOWN'')"

definition LogMessage_new_adr :: "int \<Rightarrow> string \<Rightarrow> int \<Rightarrow> string option \<Rightarrow> string" where
  "LogMessage_new_adr severity file line condition =
     ''['' @ (if severity \<ge> TDF_LOG_INFO then GetNameForLogSeverity_adr severity else ''VERBOSE'' @ show_int (- severity))
     @ '':'' @ (if severity > TDF_LOG_INFO then StripDots file else StripPath file) @ ''('' @ show_int line @ '')] ''
     @ (case condition of Some c \<Rightarrow> ''Check failed: '' @ c @ ''. '' | None \<Rightarrow> '''')"

definition GetVlogVerbosity_adr :: "int \<Rightarrow> int" where
  "GetVlogVerbosity_adr level = max (- 1) (TDF_LOG_INFO - GetMinLogLevel level)"

subsection \<open>platform/ios\<close>

definition GetNameForLogSeverity_ios :: "int \<Rightarrow> string" where
  "GetNameForLogSeverity_ios severity =
     (if severity \<ge> LOG_INFO \<and> severity < TDF_LOG_NUM_SEVERITIES then kLogSeverityNames ! nat severity else ''UNKNOWN'')"

definition LogMessage_new_ios :: "int \<Rightarrow> string \<Rightarrow> int \<Rightarrow> string option \<Rightarrow> string" where
  "LogMessage_new_ios severity file line condition =
     ''['' @ (if severity \<ge> LOG_INFO then GetNameForLogSeverity_ios severity else ''VERBOSE'' @ show_int (- severity))
     @ '':'' @ (if severity > LOG_INFO then StripDots file else StripPath file) @ ''('' @ show_int line @ '')] ''
     @ (case condition of Some c \<Rightarrow> ''Check failed: '' @ c @ ''. '' | None \<Rightarrow> '''')"

definition GetVlogVerbosity_ios :: "int \<Rightarrow> int" where
  "GetVlogVerbosity_ios level = max (- 1) (LOG_INFO - GetMinLogLevel level)"

subsection \<open>platform/mac\<close>

definition GetNameForLogSeverity_mac :: "int \<Rightarrow> string" where
  "GetNameForLogSeverity_mac severity =
     (if severity \<ge> LOG_INFO \<and> severity < TDF_LOG_NUM_SEVERITIES then kLogSeverityNames ! nat severity else ''UNKNOWN'')"

definition LogMessage_new_mac :: "int \<Rightarrow> string \<Rightarrow> int \<Rightarrow> string option \<Rightarrow> string" where
  "LogMessage_new_mac severity file line condition =
     ''['' @ (if severity \<ge> LOG_INFO then GetNameForLogSeverity_mac severity else ''VERBOSE'' @ show_int (- severity))
     @ '':'' @ (if severity > LOG_INFO then StripDots file else StripPath file) @ ''('' @ show_int line @ '')] ''
     @ (case condition of Some c \<Rightarrow> ''Check failed: '' @ c @ ''. '' | None \<Rightarrow> '''')"

definition GetVlogVerbosity_mac :: "int \<Rightarrow> int" where
  "GetVlogVerbosity_mac level = max (- 1) (LOG_INFO - GetMinLogLevel level)"

subsection \<open>platform/win\<close>

definition GetNameForLogSeverity_win :: "int \<Rightarrow> string" where
  "GetNameForLogSeverity_win severity =
     (if severity \<ge> LOG_INFO_win \<and> severity < TDF_LOG_NUM_SEVERITIES then kLogSeverityNames ! nat severity else ''UNKNOWN'')"

definition LogMessage_new_win :: "int \<Rightarrow> string \<Rightarrow> int \<Rightarrow> string option \<Rightarrow> string" where
  "LogMessage_new_win severity file line condition =
     ''['' @ (if severity \<ge> LOG_INFO_win then GetNameForLogSeverity_win severity else ''VERBOSE'' @ show_int (- severity))
     @ '':'' @ (if severity > LOG_INFO_win then StripDots file else StripPath file) @ ''('' @ show_int line @ '')] ''
     @ (case condition of Some c \<Rightarrow> ''Check failed: '' @ c @ ''. '' | None \<Rightarrow> '''')"

definition GetVlogVerbosity_win :: "int \<Rightarrow> int" where
  "GetVlogVerbosity_win level = max (- 1) (LOG_INFO_win - GetMinLogLevel level)"

section \<open>One model for all\<close>

lemmas platform_logging_defs =
  GetNameForLogSeverity_def LogMessage_new_def GetVlogVerbosity_def log_info_def LOG_INFO_def LOG_INFO_win_def
  GetNameForLogSeverity_adr_def LogMessage_new_adr_def GetVlogVerbosity_adr_def
  GetNameForLogSeverity_ios_def LogMessage_new_ios_def GetVlogVerbosity_ios_def
  GetNameForLogSeverity_mac_def LogMessage_new_mac_def GetVlogVerbosity_mac_def
  GetNameForLogSeverity_win_def LogMessage_new_win_def GetVlogVerbosity_win_def

lemma platform_logging:
  "LogMessage_new Android = LogMessage_new_adr" "GetVlogVerbosity Android = GetVlogVerbosity_adr"
  "LogMessage_new IOS = LogMessage_new_ios" "GetVlogVerbosity IOS = GetVlogVerbosity_ios"
  "LogMessage_new MacOS = LogMessage_new_mac" "GetVlogVerbosity MacOS = GetVlogVerbosity_mac"
  "LogMessage_new Windows = LogMessage_new_win" "GetVlogVerbosity Windows = GetVlogVerbosity_win"
  by (simp_all add: platform_logging_defs fun_eq_iff)

text \<open>
  A message of a level that the code names: Android names it, and shows the path of everything above \<open>TDF_LOG_INFO\<close>.
  Where \<open>LOG_INFO\<close> is 6 no level is named, and the file of an error loses its directories as well.
\<close>

lemma log_info_hides_levels:
  assumes "0 \<le> severity" and "severity \<le> TDF_LOG_FATAL"
  shows "LogMessage_new_adr severity file line condition = ''['' @ kLogSeverityNames ! nat severity @ '':''
      @ (if severity = TDF_LOG_INFO then StripPath file else StripDots file) @ ''('' @ show_int line @ '')] ''
      @ (case condition of Some c \<Rightarrow> ''Check failed: '' @ c @ ''. '' | None \<Rightarrow> '''')"
    and "LogMessage_new_ios severity file line condition = ''[VERBOSE'' @ show_int (- severity) @ '':''
      @ StripPath file @ ''('' @ show_int line @ '')] ''
      @ (case condition of Some c \<Rightarrow> ''Check failed: '' @ c @ ''. '' | None \<Rightarrow> '''')"
    and "LogMessage_new_mac severity file line condition = LogMessage_new_ios severity file line condition"
    and "LogMessage_new_win severity file line condition = LogMessage_new_ios severity file line condition"
  using assms by (auto simp: platform_logging_defs log_levels)

end
