(* ===== verification/Fs_Thread_Join.thy ===== *)
theory Fs_Thread_Join
  imports Fs_Worker_Progress
begin

text \<open>
  The \<open>std::thread\<close> of a \<open>ThreadWorker\<close> in \<open>S/thread_worker.cc\<close>: who joins it, and what its destructor finds.
  A thread is its identifier while it can be joined, and \<open>None\<close> before it is started and after it was joined, as
  \<open>get_id\<close> says; \<open>cur\<close> is the thread that calls.
\<close>

section \<open>The thread of a worker\<close>

text \<open>The constructor makes a thread object without a thread; \<open>Start\<close> gives it one.\<close>

definition ThreadWorker_new :: "u32 \<Rightarrow> bool \<Rightarrow> string \<Rightarrow> worker \<times> nat option" where
  "ThreadWorker_new indeterminate is_schedulable name = (Worker_new indeterminate is_schedulable name, None)"

text \<open>Assigning a thread to one that can still be joined terminates the process.\<close>

definition ThreadWorker_Start :: "nat \<Rightarrow> nat option \<Rightarrow> nat option res" where
  "ThreadWorker_Start new_id th = check (th = None) (Inr (Some new_id))"

text \<open>Joining waits for the end of the thread, unless the caller is that thread; the first component says whether it waits.\<close>

definition Join :: "nat \<Rightarrow> nat option \<Rightarrow> bool \<times> nat option" where
  "Join cur th =
     (if th = Some cur then (False, th)
      else if th \<noteq> None then (True, None)
      else (False, th))"

definition TerminateAndJoin :: "nat \<Rightarrow> nat \<Rightarrow> sys \<times> nat option \<Rightarrow> sys \<times> nat option" where
  "TerminateAndJoin cur me st =
     (case st of (s, th) \<Rightarrow>
        if is_terminated (s_workers s me) then (s, th)
        else (TerminateWorker me s, snd (Join cur th)))"

text \<open>The destructor is the default one: that of a thread that can be joined calls \<open>std::terminate\<close>.\<close>

definition ThreadWorker_destroy :: "nat option \<Rightarrow> unit res" where
  "ThreadWorker_destroy th = check (th = None) (Inr ())"

section \<open>Who joins\<close>

lemma TerminateAndJoin_terminated:
  "is_terminated (s_workers (fst (TerminateAndJoin cur me st)) me)"
  by (cases st) (auto simp: TerminateAndJoin_def TerminateWorker_def Let_def set_worker_def)

lemma TerminateAndJoin_again:
  "is_terminated (s_workers (fst st) me) \<Longrightarrow> TerminateAndJoin cur me st = st"
  by (simp add: TerminateAndJoin_def split_beta)

text \<open>The first to terminate a worker joins it, and only the first: later calls return at once.\<close>

lemma first_terminate_decides:
  assumes "\<not> is_terminated (s_workers s me)"
  shows "fold (\<lambda>c. TerminateAndJoin c me) curs (TerminateAndJoin cur me (s, th)) = TerminateAndJoin cur me (s, th)"
    and "snd (TerminateAndJoin cur me (s, th)) = (if th = Some cur then th else None)"
proof -
  have "fold (\<lambda>c. TerminateAndJoin c me) curs st = st" if "is_terminated (s_workers (fst st) me)" for st
    using that by (induction curs) (simp_all add: TerminateAndJoin_again)
  then show "fold (\<lambda>c. TerminateAndJoin c me) curs (TerminateAndJoin cur me (s, th)) = TerminateAndJoin cur me (s, th)"
    by (simp add: TerminateAndJoin_terminated)
  show "snd (TerminateAndJoin cur me (s, th)) = (if th = Some cur then th else None)"
    using assms by (auto simp: TerminateAndJoin_def Join_def)
qed

text \<open>
  So a worker whose own task terminated it is never joined, whoever terminates it again, and its destructor ends the
  process; terminated by another thread, it can be destroyed.
\<close>

lemma self_terminated_never_joined:
  assumes "\<not> is_terminated (s_workers s me)"
  shows "ThreadWorker_destroy (snd (fold (\<lambda>c. TerminateAndJoin c me) curs (TerminateAndJoin cur me (s, Some t))))
    = (if cur = t then Inl CheckFailed else Inr ())"
  unfolding first_terminate_decides(1) [OF assms] first_terminate_decides(2) [OF assms]
  by (simp add: ThreadWorker_destroy_def)

end
