(* ===== verification/Spec2Isabelle.thy ===== *)
theory Spec2Isabelle
  imports Fs_Worker_Rounds Fs_Timer_Facts Fs_Queue_Props Fs_Mpmc_Props Fs_List_Props Fs_Text_Props Fs_Pool_Props
    Fs_Loop_Worker Fs_Ios_Worker Fs_Time_Props Fs_Scheduler_Props Fs_Sub_Runner Fs_Build_Facts
    Fs_Log_Platforms Fs_Thread_Join
begin

text \<open>
  A model of \<open>footstone\<close>, a base library in C++: task scheduling on workers, timers, queues for
  several threads, a thread pool, Base64, a view of Unicode strings, and logging.  Paths are relative to
  \<open>src/\<close> of the repository; \<open>H\<close> stands for \<open>include/footstone\<close>, \<open>S\<close> for \<open>src/footstone\<close>.

  How the parts work together.  A client gets a \<open>TaskRunner\<close> from a \<open>WorkerManager\<close> and posts tasks to
  it: immediate, delayed and idle ones.  The manager owns workers, each with a thread; runners with
  the same group id form a group, a group belongs to one worker, and a runner bound as a sub runner
  of another is put behind it in its group, where it blocks it.  A worker picks groups by the time they have used,
  takes one task of the last runner of a group, runs it and charges the time to the runners of the
  group.  Runners have thread-local storage that lives in their worker and moves with them when the
  manager rebalances.  Timers post tasks with a weak pointer to themselves.  The queues, the pool, Base64,
  string views and the logging stand beside the scheduler; \<open>TDF_BASE_CHECK\<close> of the logging is used everywhere.

  Theories and sources.
   \<^item> \<open>Fs_Prelude\<close>: results with faults (\<open>'a res\<close>), checked integers, generic lemmas.
   \<^item> \<open>Fs_Time\<close>: \<open>H/time_delta.h\<close>, \<open>H/time_point.h\<close>.  \<open>Fs_Double\<close>: rounding to \<open>double\<close> and the conversions
     of \<open>H/time_delta.h\<close> that use it.  \<open>Fs_Time_Props\<close>: what stays in 64 bits, what a round trip loses.  \<open>Fs_Task\<close>: \<open>H/task.h\<close>, \<open>H/idle_task.h\<close> and sources.
   \<^item> \<open>Fs_Delay_Queue\<close>: the \<open>std::priority_queue\<close> of delayed tasks, contract \<open>delay_queue\<close>.
     \<open>Fs_Task_Runner\<close>: the queues of \<open>H/task_runner.h\<close> and \<open>S/task_runner.cc\<close>.  \<open>Fs_Runner_Facts\<close>: well-formed
     runners, runs of posts and fetches, nothing lost, order and deadlines.
   \<^item> \<open>Fs_Std_Map\<close>: \<open>std::map\<close> as the code uses it, contract \<open>ordered_map\<close>.
     \<open>Fs_Worker\<close>: groups in \<open>H/worker.h\<close> and \<open>S/worker.cc\<close>.  \<open>Fs_Worker_Specific\<close>: the storage of runners.
     \<open>Fs_Worker_Loop\<close>: \<open>GetNextTask\<close>, \<open>RunTask\<close>, \<open>Run\<close>, sub runners and \<open>S/thread_worker.cc\<close>.
     \<open>Fs_Worker_Facts\<close>: what one call takes, in which order, and who is charged.  \<open>Fs_Worker_Progress\<close>: when
     a call is free of faults, what an idle worker does, that a terminated worker drains.  \<open>Fs_Worker_Rounds\<close>: whole
     rounds, who is charged for a task, when charging does not overflow, how the loop of a terminated worker ends.
   \<^item> \<open>Fs_Worker_Manager\<close>: \<open>H/worker_manager.h\<close>, \<open>S/worker_manager.cc\<close>.  \<open>Fs_Manager_Facts\<close>: moving groups
     through the contract \<open>group_host\<close>, affinity of groups, storage that follows a runner.
   \<^item> \<open>Fs_Scheduler\<close>: runs of the whole scheduler, with clients that post and closures that post when they run.
     \<open>Fs_Scheduler_Facts\<close>: its invariant, that every event keeps it.  \<open>Fs_Scheduler_Live\<close>: when a round of a
     worker makes progress.  \<open>Fs_Scheduler_Props\<close>: the properties of runs.
   \<^item> \<open>Fs_Thread_Join\<close>: the \<open>std::thread\<close> of a worker in \<open>S/thread_worker.cc\<close>, and who joins it.
   \<^item> \<open>Fs_Sub_Runner\<close>: a runner that waits behind its sub runner, and what removing it restores.
   \<^item> \<open>Fs_Timers\<close>: \<open>S/base_timer.cc\<close>, \<open>S/one_shot_timer.cc\<close>, \<open>S/repeating_timer.cc\<close>, \<open>S/idle_timer.cc\<close>.
     \<open>Fs_Timer_Facts\<close>: the contract \<open>timer_class\<close> of the virtual methods and what each timer does.
   \<^item> \<open>Fs_Bounded_Queue\<close>: the contract \<open>bounded_queue\<close>, and \<open>H/thread_safe_queue.h\<close>.
     \<open>Fs_Spsc_Queue\<close>, \<open>Fs_Spsc_Interleave\<close>: \<open>H/spsc_queue.h\<close>, one operation after the other and interleaved.
     \<open>Fs_Mpmc_Queue\<close>, \<open>Fs_Mpmc_Stale\<close>: \<open>H/mpmc_queue.h\<close>, and a fault of a helped producer.
     \<open>Fs_Mpmc_Interleave\<close>, \<open>Fs_Mpmc_Concurrent\<close>, \<open>Fs_Mpmc_Props\<close>: any number of threads on it, access by access.
     \<open>Fs_Queue_Props\<close>: the properties of the queues.
     \<open>Fs_Tagged\<close>, \<open>Fs_Mpmc_List\<close>: \<open>H/mpmc_list.h\<close>, its tagged words, its pool of nodes and the linked queue, whose
     templates no type can instantiate as they stand; the conversions they lack are taken as meant.
     \<open>Fs_Mpmc_List_Facts\<close>, \<open>Fs_List_Props\<close>: the queue refines a list, and what its destructor leaves.
   \<^item> \<open>Fs_Thread_Pool\<close>, \<open>Fs_Pool_Props\<close>: \<open>H/thread_pool.h\<close>, its threads as a step relation, which sleep on the
     condition variable and are woken by \<open>notify_one\<close>, \<open>notify_all\<close> or spuriously.
   \<^item> \<open>Fs_Base64\<close>, \<open>Fs_Base64_Facts\<close>: \<open>S/base64.cc\<close>, equivalence with a reference encoding, round trip.
     \<open>Fs_String_View\<close>, \<open>Fs_String_Facts\<close>: \<open>H/unicode_string_view.h\<close> and source, a tagged union, its values.
     \<open>Fs_Logging\<close>: \<open>H/logging.h\<close>, \<open>S/log_settings.cc\<close>, \<open>src/platform/*/logging.cc\<close>.  \<open>Fs_Log_Platforms\<close>: what the
     five files repeat.  \<open>Fs_Text_Props\<close>: the properties of the three.
   \<^item> \<open>Fs_Loop_Worker\<close>: \<open>src/platform/adr/loop_worker_impl.cc\<close>.  \<open>Fs_Ios_Worker\<close>: \<open>src/platform/ios/loop_worker_impl.cc\<close>
     and the names of threads in \<open>src/platform/*/thread_worker_impl.cc\<close>.
   \<^item> \<open>Fs_Build_Config\<close>: \<open>H/build_config.h\<close>, \<open>H/macros.h\<close>, as functions on tables of macros, with the headers of
     the system as a parameter.  \<open>Fs_Build_Facts\<close>: the system and processor they choose, where they agree.
   \<^item> This theory: the properties of the scheduler and the timers, which span components.

  State.  \<open>sys\<close> (in \<open>Fs_Worker_Loop\<close>) maps the address of a worker to its record, its thread-local variables
  included, and the address of a runner to its record, and holds the global counters of identifiers; a
  \<open>shared_ptr\<close> is an address, a \<open>weak_ptr\<close> an address with a predicate or store that says whether it is alive.
  Every operation takes the state and returns it, or a fault: \<open>CheckFailed\<close> (the check macro aborts, as it does
  with the delegates that are compiled in), \<open>UB\<close> (an access out of range, an invalid iterator, signed overflow, an
  inactive member), or \<open>NoReturn\<close>.  The width of \<open>time_t\<close> is a parameter.  The steady clock is an input, the value of each reading; allocation is an
  input, the next unused address.  Closures of the client are numbers, and what they do is a parameter.

  Threads.  Where the code locks, an operation is atomic.  The interleavings of threads are modelled where
  the code has no lock or where they are the point: \<open>spsc_queue\<close> and \<open>mpmc_queue\<close>, access by access, the latter for
  any number of threads as long as its indices have not wrapped around, the interrupted producer of \<open>mpmc_queue\<close>
  when they have, and the thread pool.  In the runs of \<open>Fs_Scheduler\<close> the rounds of the workers and the posts of
  the client alternate in any order, each at once.  Memory orders weaker than interleaving are not modelled.

  Fuel.  Loops that may run forever take a number of rounds and return \<open>None\<close> when it is used up.
  The loops of \<open>mpmc_list\<close> need one round each.  The loop of a terminated worker that drains its queues needs at most one round more than there are
  tasks in them (\<open>drain_ends\<close>); the loop of an idle worker needs more than any number (\<open>idle_worker_polls\<close>).
  \<open>push_until_success\<close> needs two pushes; \<open>mp_push1\<close> and \<open>mp_pop1\<close> have fuel 3, and the contract
  \<open>bounded_queue\<close>, of which they are an interpretation, says that this is enough when no producer was interrupted.
  All other recursions are total.

  Not modelled.  What a future of the thread pool holds.  What the run loop
  of iOS, the looper of Android and the calls that name a thread do: calls of the system, whose answers are inputs
  and whose arguments are results.  Interleavings of the operations of \<open>H/mpmc_list.h\<close>, and those of
  \<open>H/mpmc_queue.h\<close> after its indices have wrapped around, but for the one that loses elements.  Growing the pool and
  sub runners in the runs of \<open>Fs_Scheduler\<close>: both leave runners whose worker is not the one that holds them.
  The output of \<open>TDF_BASE_VLOG\<close>, which does not compile where it is used.  \<open>H/thread.h\<close>, \<open>H/profile.h\<close> and
  \<open>H/basic_types.h\<close>, whose classes have no implementation and whose enumeration has no use.
\<close>

section \<open>Sample objects\<close>

text \<open>Concrete values at which the properties with hypotheses are applied.\<close>

definition sample_task :: "nat \<Rightarrow> task" where
  "sample_task n = \<lparr>task_id = word_of_nat n, task_unit = Some (UserCode n)\<rparr>"

definition sample_runner :: task_runner where
  "sample_runner = (fst (TaskRunner_new 1 0 1 True ''runner''))\<lparr>tr_worker := Some 0\<rparr>"

definition sample_events :: "tr_event list" where
  "sample_events =
     [EvPost (sample_task 1), EvPostDelayed (TimePoint 5) (sample_task 2) (TimeDelta 10),
      EvGet (TimePoint 6), EvPost (sample_task 3), EvGet (TimePoint 20), EvGet (TimePoint 21)]"

definition sample_out :: "(time_point \<times> task) list" where
  "sample_out =
     [(TimePoint 6, sample_task 1), (TimePoint 20, sample_task 3), (TimePoint 21, sample_task 2)]"

lemma sample_run: "tr_run (\<lambda>_. True) sample_runner sample_events = Inr (sample_out, sample_runner)"
  by code_simp

lemma sample_runner_ok [simp]: "tr_ok sample_runner"
  using tr_ok_new [of 1 0 1 True "''runner''"] by (simp add: sample_runner_def tr_ok_def)

section \<open>Task runners\<close>

text \<open>C4. A runner never loses, duplicates or invents a task: over any run of immediate posts, delayed
  posts and fetches, what was pending before together with what was posted is what was fetched
  together with what is pending after.\<close>

theorem runner_conserves_tasks:
  assumes "tr_ok r" and "tr_run alive r es = Inr (out, r')"
  shows "pending_tasks r + mset (map Some (posted es)) = mset (map (Some \<circ> snd) out) + pending_tasks r'"
  using tr_run_pending [OF assms] by blast

theorem runner_conserves_tasks_witness:
  "mset (map (Some \<circ> snd) sample_out) = mset (map Some [sample_task 1, sample_task 2, sample_task 3])"
proof -
  have "pending_tasks sample_runner = {#}" by code_simp
  then show ?thesis
    using runner_conserves_tasks [OF sample_runner_ok sample_run]
    by (simp add: posted_def sample_events_def)
qed

text \<open>C8. A delayed task is never fetched before its deadline: in a run whose readings of the clock
  ascend, from a runner with no pending task, a task that is only posted with a delay leaves at a
  time that is at least the time of a post of it plus the delay of that post.\<close>

theorem runner_delayed_not_early:
  assumes "tr_ok r" and "pending_tasks r = {#}" and "tr_run alive r es = Inr (out, r')"
    and "sorted (get_times es)" and "(m, t) \<in> set out" and "EvPost t \<notin> set es"
  shows "\<exists>now d. EvPostDelayed now t d \<in> set es \<and> ticks now + delta d \<le> ticks m"
proof -
  define R where "R = (\<lambda>x n. EvPost x \<in> set es \<or>
    (\<exists>now d. EvPostDelayed now x d \<in> set es \<and> ticks now + delta d \<le> ticks n))"
  have emp: "task_queue r = []" "delayed_task_queue r = []"
    using assms(2) by (simp_all add: pending_tasks_def)
  let ?n = "Min (insert (TimePoint 0) (set (get_times es)))"
  have "\<forall>(m, t) \<in> set out. R t m"
  proof (rule tr_run_may_leave [OF assms(1) _ assms(3)])
    show "may_leave R ?n r" using emp by (simp add: may_leave_def)
    show "sorted (?n # get_times es)" using assms(4) by simp
    show "R x a \<Longrightarrow> a \<le> b \<Longrightarrow> R x b" for x a b
      by (auto simp: R_def tp_order_defs intro: order_trans)
  qed (auto simp: R_def)
  then show ?thesis using assms(5,6) by (auto simp: R_def)
qed

theorem runner_delayed_not_early_witness:
  "\<exists>now d. EvPostDelayed now (sample_task 2) d \<in> set sample_events \<and> ticks now + delta d \<le> 21"
proof -
  have p: "pending_tasks sample_runner = {#}" and s: "sorted (get_times sample_events)"
    and o: "(TimePoint 21, sample_task 2) \<in> set sample_out"
    and n: "EvPost (sample_task 2) \<notin> set sample_events" by code_simp+
  show ?thesis
    using runner_delayed_not_early [OF sample_runner_ok p sample_run s o n] by simp
qed

text \<open>C9. Immediate tasks run in posting order: whatever delayed posts and fetches are interleaved, the
  immediate tasks that were fetched, followed by those still queued, are those queued before followed
  by those posted, in the same order.\<close>

theorem runner_fifo:
  assumes "tr_ok r" and "not_delayed I r" and "tr_run alive r es = Inr (out, r')"
    and "\<forall>now t d. EvPostDelayed now t d \<in> set es \<longrightarrow> \<not> I t"
  shows "filter I (queued r @ posted es) = filter I (map snd out @ queued r')"
  by (rule tr_run_fifo [OF assms])

theorem runner_fifo_witness:
  "filter (\<lambda>t. t \<noteq> sample_task 2) (posted sample_events) = [sample_task 1, sample_task 3]"
proof -
  have n: "not_delayed (\<lambda>t. t \<noteq> sample_task 2) sample_runner"
    by (simp add: not_delayed_def sample_runner_def TaskRunner_new_def dq_empty_def)
  have d: "\<forall>now t d. EvPostDelayed now t d \<in> set sample_events \<longrightarrow> \<not> t \<noteq> sample_task 2"
    by (simp add: sample_events_def)
  have q: "queued sample_runner = []" by code_simp
  have f: "filter (\<lambda>t. t \<noteq> sample_task 2) (map snd sample_out) = [sample_task 1, sample_task 3]"
    by code_simp
  show ?thesis
    using runner_fifo [OF sample_runner_ok n sample_run d] q f by simp
qed

text \<open>C13. What one \<open>GetNext\<close> does: the delayed tasks whose deadline has come move behind the queued
  tasks, in deadline order, the others stay; the first task of the queue is returned and removed, and
  nothing else of the runner changes.\<close>

theorem GetNext_functional:
  assumes "tr_ok r" and "GetNext now r = (t, r')"
  shows "\<exists>es. sorted (map fst es) \<and> mset es = filter_mset (due now) (mset (delayed_task_queue r))
    \<and> mset (delayed_task_queue r') = filter_mset (\<lambda>e. \<not> due now e) (mset (delayed_task_queue r))
    \<and> task_queue r @ map snd es = (if t = None then [] else [t]) @ task_queue r'
    \<and> r' = r\<lparr>task_queue := task_queue r', delayed_task_queue := delayed_task_queue r'\<rparr>"
proof -
  obtain es q where g: "gather now r = r\<lparr>task_queue := task_queue r @ map snd es, delayed_task_queue := q\<rparr>"
    and es: "mset es = filter_mset (due now) (mset (delayed_task_queue r))"
    and q: "mset q = filter_mset (\<lambda>e. \<not> due now e) (mset (delayed_task_queue r))"
    and s: "sorted (map fst es)"
    by (rule gather_spec [OF assms(1), of now])
  have n: "None \<notin> set (task_queue r @ map snd es)"
    using gather_pending(2) [OF assms(1), of now] g by (simp add: tr_ok_def)
  have "delayed_task_queue r' = q
      \<and> task_queue r @ map snd es = (if t = None then [] else [t]) @ task_queue r'
      \<and> r' = r\<lparr>task_queue := task_queue r', delayed_task_queue := delayed_task_queue r'\<rparr>"
    using assms(2) n
    by (cases "task_queue r @ map snd es") (auto simp: GetNext_gather g PopTask_def)
  then show ?thesis using es q s by blast
qed

theorem GetNext_functional_witness:
  "\<exists>es. sorted (map fst es) \<and> mset es = {# (TimePoint 3, Some (sample_task 7)) #}
    \<and> map snd es = [Some (sample_task 7)]"
proof -
  let ?r = "sample_runner\<lparr>delayed_task_queue :=
    [(TimePoint 3, Some (sample_task 7)), (TimePoint 9, Some (sample_task 8))]\<rparr>"
  have ok: "tr_ok ?r"
    using sample_runner_ok by (simp add: tr_ok_def dq_invar_def tp_order_defs sample_runner_def)
  have g: "GetNext (TimePoint 5) ?r = (Some (sample_task 7),
      sample_runner\<lparr>delayed_task_queue := [(TimePoint 9, Some (sample_task 8))]\<rparr>)" by code_simp
  have d: "filter_mset (due (TimePoint 5)) (mset (delayed_task_queue ?r)) = {# (TimePoint 3, Some (sample_task 7)) #}"
    by (simp add: due_def tp_order_defs)
  have q: "task_queue ?r = []" "task_queue (sample_runner\<lparr>delayed_task_queue := [(TimePoint 9, Some (sample_task 8))]\<rparr>) = []"
    by (simp_all add: sample_runner_def TaskRunner_new_def)
  show ?thesis using GetNext_functional [OF ok g] by (auto simp: d q)
qed

text \<open>\<open>Clear\<close> empties both task queues, and comes back exactly when no idle task is queued: otherwise
  its third loop pops the delayed queue, which the second loop has emptied.\<close>

theorem Clear_functional:
  "Clear r = (if idle_task_queue r = [] then Inr (r\<lparr>task_queue := [], delayed_task_queue := []\<rparr>)
              else Inl (UB EmptyAccess))"
proof -
  have p: "pop_all xs = []" for xs :: "'a list" by (induction xs) auto
  show ?thesis by (cases "idle_task_queue r") (simp_all add: Clear_def Let_def p)
qed

section \<open>Workers\<close>

definition sample_thread :: thread_locals where
  "sample_thread = \<lparr>local_worker_id = 0, is_task_running = False, local_runner = None, curr_group = []\<rparr>"

text \<open>One worker, whose running groups are given; runner \<open>r\<close> has the tasks \<open>q r\<close> in its queue.\<close>

definition sample_sys :: "group list \<Rightarrow> (nat \<Rightarrow> nat list) \<Rightarrow> sys" where
  "sample_sys gs q =
     \<lparr>s_workers = (\<lambda>_. (Worker_new 0 True ''worker'')\<lparr>running_groups := gs\<rparr>), s_alive = (\<lambda>_. True),
      s_runners = (\<lambda>r. (fst (TaskRunner_new (word_of_nat r) 0 1 True ''runner''))
        \<lparr>tr_worker := Some 0, task_queue := map (\<lambda>n. Some (sample_task n)) (q r)\<rparr>),
      s_threads = (\<lambda>_. sample_thread), s_clock = 0, s_task_counter = 1, s_worker_counter = 1,
      s_waits = [], s_notified = []\<rparr>"

definition sample_clock :: clock where
  "sample_clock n = TimePoint (1000 + 10 * int n)"

lemma sample_sys_runners:
  "tr_ok (s_runners (sample_sys gs q) r)" "deadlines_ok (s_runners (sample_sys gs q) r)"
  "pending_tasks (s_runners (sample_sys gs q) r) = mset (map (\<lambda>n. Some (sample_task n)) (q r))"
  "idle_task_queue (s_runners (sample_sys gs q) r) = []"
  by (auto simp: sample_sys_def TaskRunner_new_def tr_ok_def deadlines_ok_def pending_tasks_def
      dq_empty_def dq_invar_def)

lemma sample_sys_worker [simp]:
  "s_workers (sample_sys gs q) w = (Worker_new 0 True ''worker'')\<lparr>running_groups := gs\<rparr>"
  by (simp add: sample_sys_def)

text \<open>C5. A call of \<open>GetNextTask\<close> without immediate tasks takes no task, or exactly one: from the back
  runner of a group the worker holds, which it records with the group for the accounting.  The tasks
  of all other runners stay as they are.  Only a terminated worker may return the wrapper of an idle
  task instead.\<close>

theorem GetNextTask_takes_one:
  assumes "\<forall>r. tr_ok (s_runners s r)" and "immediate_task_queue (s_workers s me) = []"
    and "GetNextTask clk me s = Inr (t, s')"
  shows "took s t s' me"
  by (rule GetNextTask_took [OF assms(1,3,2)])

definition sample_next :: "task option \<times> sys" where
  "sample_next = (case GetNextTask sample_clock 0 (sample_sys [[1], [2, 3]] (\<lambda>r. if r = 3 then [7, 8] else []))
     of Inr x \<Rightarrow> x | Inl _ \<Rightarrow> (None, sample_sys [] (\<lambda>_. [])))"

lemma sample_next_step:
  "GetNextTask sample_clock 0 (sample_sys [[1], [2, 3]] (\<lambda>r. if r = 3 then [7, 8] else []))
     = Inr (Some (sample_task 7), snd sample_next)"
proof -
  let ?g = "GetNextTask sample_clock 0 (sample_sys [[1], [2, 3]] (\<lambda>r. if r = 3 then [7, 8] else []))"
  have "(case ?g of Inr (t, s) \<Rightarrow> t = Some (sample_task 7) | Inl _ \<Rightarrow> False)" by code_simp
  then show ?thesis unfolding sample_next_def by (cases ?g) (auto split: prod.splits)
qed

theorem GetNextTask_takes_one_witness:
  "took (sample_sys [[1], [2, 3]] (\<lambda>r. if r = 3 then [7, 8] else [])) (Some (sample_task 7))
     (snd sample_next) 0"
  using GetNextTask_takes_one [OF _ _ sample_next_step] sample_sys_runners
  by (simp add: Worker_new_def)



text \<open>A worker never sleeps: whatever its state, a call of \<open>GetNextTask\<close> either does not reach
  \<open>WaitFor\<close>, or reaches it when the worker is terminated, where \<open>WaitFor\<close> returns at once.\<close>

theorem worker_never_sleeps:
  assumes "GetNextTask clk me s = Inr (t, s')"
  shows "s_waits s' = s_waits s \<or>
    (\<exists>d. s_waits s' = s_waits s @ [(me, d)] \<and> WaitFor d (s_workers s' me) = NoWait)"
  by (rule GetNextTask_never_blocks [OF assms])

theorem worker_never_sleeps_witness:
  "s_waits (snd sample_next) = [] \<or>
    (\<exists>d. s_waits (snd sample_next) = [(0, d)] \<and> WaitFor d (s_workers (snd sample_next) 0) = NoWait)"
  using worker_never_sleeps [OF sample_next_step] by (simp add: sample_sys_def)

text \<open>C14. An idle worker polls: every round of its loop reads the clock once plus once per group and comes back with
  nothing else changed, for ever; no fuel is enough for the loop to end.  Idle means: not terminated, no immediate
  task, no balance due, no group empty, every runner without tasks of any kind, the wait time within 64 bits; and one
  group at most, or the groups already in the order of their loads, which fit 64 bits.\<close>

theorem idle_worker_polls:
  assumes "all_quiet s me"
  shows "run_tasks exec clk me n s =
      Inr (s\<lparr>s_clock := s_clock s + n * (1 + length (running_groups (s_workers s me)))\<rparr>)
    \<and> RunLoop exec clk me n s = None"
  using run_tasks_quiet [OF assms] RunLoop_quiet [OF assms] by blast

theorem idle_worker_polls_witness:
  "run_tasks (\<lambda>_ _ s. Inr s) sample_clock 0 5 (sample_sys [[1], [2, 3]] (\<lambda>_. []))
     = Inr ((sample_sys [[1], [2, 3]] (\<lambda>_. []))\<lparr>s_clock := 15\<rparr>)"
proof -
  have "all_quiet (sample_sys [[1], [2, 3]] (\<lambda>_. [])) 0" by code_simp
  from idle_worker_polls [OF this, of "\<lambda>_ _ s. Inr s" sample_clock 5]
  show ?thesis by (simp add: sample_sys_def)
qed

text \<open>Idle tasks are lost: when a worker that is not terminated finds no other work, it takes the
  first idle task off its runner's queue and drops it; the round ends without having run anything.\<close>

theorem idle_task_dropped:
  assumes "immediate_task_queue (s_workers s me) = []" and "\<not> need_balance (s_workers s me)"
    and "running_groups (s_workers s me) = [[f]]" and "\<not> is_terminated (s_workers s me)"
    and "td_ok (min_wait_time (s_workers s me))"
    and "quiet (s_runners s f)" and "idle_task_queue (s_runners s f) = Some i # is"
  shows "\<exists>s'. GetNextTask clk me s = Inr (None, s') \<and> idle_task_queue (s_runners s' f) = is
    \<and> RunTask exec clk me s = Inr (True, s')"
  by (rule GetNextTask_drops_idle [OF assms])

definition sample_idle :: sys where
  "sample_idle = set_runner 1 (sample_runner\<lparr>idle_task_queue := [Some \<lparr>idle_id = 1, idle_unit = Some (UserIdle 4)\<rparr>]\<rparr>)
     (sample_sys [[1]] (\<lambda>_. []))"

theorem idle_task_dropped_witness:
  "\<exists>s'. GetNextTask sample_clock 0 sample_idle = Inr (None, s') \<and> idle_task_queue (s_runners s' 1) = []
    \<and> RunTask (\<lambda>_ _ s. Inl NoReturn) sample_clock 0 sample_idle = Inr (True, s')"
  by (rule idle_task_dropped [where i = "\<lparr>idle_id = 1, idle_unit = Some (UserIdle 4)\<rparr>"]) code_simp+

text \<open>A call of \<open>GetNextTask\<close> comes back, with neither an abort nor undefined behaviour, when no group
  is empty, every group's load fits 64 bits, and the clock and the deadlines are not negative.\<close>

theorem GetNextTask_safe:
  assumes "no_empty_group (s_workers s me)"
    and "\<forall>g \<in> set (running_groups (s_workers s me)). in_i64 (group_load (s_runners s) g)"
    and "td_ok (min_wait_time (s_workers s me))" and "clock_ok clk"
    and "\<forall>r. tr_ok (s_runners s r) \<and> deadlines_ok (s_runners s r)"
  shows "returns (GetNextTask clk me s)"
  by (rule GetNextTask_ok [OF assms])

theorem GetNextTask_safe_witness:
  "returns (GetNextTask (\<lambda>_. TimePoint 1000) 0 (sample_sys [[1], [2, 3]] (\<lambda>_. [4])))"
proof (rule GetNextTask_safe)
  show "clock_ok (\<lambda>_. TimePoint 1000)" by (simp add: clock_ok_def tp_ok_def in_i64_def)
  show "\<forall>r. tr_ok (s_runners (sample_sys [[1], [2, 3]] (\<lambda>_. [4])) r)
      \<and> deadlines_ok (s_runners (sample_sys [[1], [2, 3]] (\<lambda>_. [4])) r)"
    using sample_sys_runners by blast
qed code_simp+

text \<open>Unbinding the only runner of a group leaves the empty group behind, and with another group
  there the next call of \<open>GetNextTask\<close> aborts in the comparator of \<open>SortNoLock\<close>.\<close>

theorem UnBind_then_GetNextTask_aborts:
  assumes "running_groups (s_workers s me) = as @ [r] # bs" and "as @ bs \<noteq> []"
    and "\<forall>g \<in> set as. \<forall>q \<in> set g. GetId (s_runners s q) \<noteq> GetId (s_runners s r)"
    and "immediate_task_queue (s_workers s me) = []"
  shows "GetNextTask clk me (set_worker me (UnBind (s_runners s) r (s_workers s me)) s) = Inl CheckFailed"
proof -
  have "length (as @ [] # bs) > 1" using assms(2) by (cases as) auto
  then show ?thesis
    using UnBind_empties [OF assms(1,3)] assms(4)
    by (intro GetNextTask_empty_group) (simp_all add: set_worker_def)
qed

theorem UnBind_then_GetNextTask_aborts_witness:
  "GetNextTask sample_clock 0 (set_worker 0 (UnBind (s_runners (sample_sys [[1], [2]] (\<lambda>_. []))) 1
      (s_workers (sample_sys [[1], [2]] (\<lambda>_. [])) 0)) (sample_sys [[1], [2]] (\<lambda>_. []))) = Inl CheckFailed"
  by (rule UnBind_then_GetNextTask_aborts [where as = "[]" and bs = "[[2]]"]) (simp_all add: Worker_new_def)

text \<open>C12. A terminated worker that must drain its queues stops, without a fault, in at most one round more than there
  are tasks, delayed ones and idle ones included: then it has no immediate task, and no task is queued at the runners
  it fetches from; delayed tasks that are not yet due are left behind.  The tasks that are run return and leave
  workers and runners alone; no null task waits; the groups are neither empty nor hold a runner twice; no deadline is
  negative; the clock stays between 0 and \<open>H\<close>; and with the times of the runners within \<open>B\<close> and their priorities
  within \<open>P\<close>, no load leaves 64 bits.\<close>

theorem drain_ends:
  assumes "harmless exec" and "drainable B me s" and "priorities_within P (s_runners s)" and "1 \<le> P"
    and "clock_within H clk" and "H < 2 ^ 63" and "P * (B + H * int (total_work me s)) < 2 ^ 63"
    and "total_work me s < fuel"
  shows "\<exists>s'. RunLoop exec clk me fuel s = Some (Inr s') \<and> immediate_task_queue (s_workers s' me) = []
    \<and> (\<forall>g \<in> set (running_groups (s_workers s' me)). task_queue (s_runners s' (last g)) = [])"
  by (rule RunLoop_ends [OF assms(1,5,4,6,2,3,7,8)])

definition sample_done :: sys where
  "sample_done = set_worker 0 ((s_workers (sample_sys [[1]] (\<lambda>_. [4, 5])) 0)
     \<lparr>is_terminated := True, is_exit_immediately := False\<rparr>) (sample_sys [[1]] (\<lambda>_. [4, 5]))"

theorem drain_ends_witness:
  "\<exists>s'. RunLoop (\<lambda>_ _ s. Inr s) (\<lambda>_. TimePoint 1000) 0 3 sample_done = Some (Inr s')"
proof -
  have h: "harmless (\<lambda>_ _ s. Inr s)" by (simp add: harmless_def)
  have c: "clock_within 1000 (\<lambda>_. TimePoint 1000)" by (simp add: clock_within_def)
  have R: "s_runners sample_done = s_runners (sample_sys [[1]] (\<lambda>_. [4, 5]))"
    by (simp add: sample_done_def set_worker_def)
  have u: "delta (time_used (s_runners sample_done r)) = 0" "priority (s_runners sample_done r) = 1" for r
    unfolding R by (simp_all add: sample_sys_def TaskRunner_new_def td_const_defs)
  have p: "priorities_within 1 (s_runners sample_done)"
    unfolding priorities_within_def GetPriority_def u(2) by simp
  have w: "s_workers sample_done 0 = (Worker_new 0 True ''worker'')
      \<lparr>running_groups := [[1]], is_terminated := True, is_exit_immediately := False\<rparr>"
    by (simp add: sample_done_def set_worker_def)
  have "s_threads sample_done 0 = sample_thread" by (simp add: sample_done_def set_worker_def sample_sys_def)
  then have d: "drainable 0 0 sample_done"
    using sample_sys_runners(1,2) u(1)
    by (simp add: drainable_def w R times_within_def Worker_new_def groups_of_def sample_thread_def)
  have "members (s_workers sample_done 0) = {1}"
    by (simp add: members_def groups_of_def w Worker_new_def)
  moreover have "work (s_runners sample_done 1) = 2" by code_simp
  ultimately have t: "total_work 0 sample_done = 2" by (simp add: total_work_def w Worker_new_def)
  have f: "(1 :: int) * (0 + 1000 * int (total_work 0 sample_done)) < 2 ^ 63" "total_work 0 sample_done < 3"
    "(1000 :: int) < 2 ^ 63" "(1 :: int) \<le> 1" unfolding t by simp_all
  from drain_ends [OF h d p f(4) c f(3,1,2)] show ?thesis by blast
qed

text \<open>A terminated worker that exits immediately runs nothing more: its loop ends in the first round
  with the state unchanged, and \<open>Run\<close> on it returns before it enters the loop.\<close>

theorem terminated_runs_nothing:
  assumes "is_terminated (s_workers s me)" and "is_exit_immediately (s_workers s me)"
  shows "RunLoop exec clk me (Suc n) s = Some (Inr s) \<and> Run exec clk me n s = Some (Inr s)
    \<and> TerminateWorker me s = s"
  using assms by (simp add: Run_def TerminateWorker_def)

theorem terminated_runs_nothing_witness:
  "RunLoop (\<lambda>_ _ s. Inl NoReturn) sample_clock 0 1 (TerminateWorker 0 (sample_sys [[1]] (\<lambda>_. [4])))
     = Some (Inr (TerminateWorker 0 (sample_sys [[1]] (\<lambda>_. [4]))))"
proof -
  have "is_terminated (s_workers (TerminateWorker 0 (sample_sys [[1]] (\<lambda>_. [4]))) 0)"
    and "is_exit_immediately (s_workers (TerminateWorker 0 (sample_sys [[1]] (\<lambda>_. [4]))) 0)" by code_simp+
  from terminated_runs_nothing [OF this] show ?thesis by simp
qed

text \<open>C16. Accounting: when a worker that is not terminated runs a task in a round, the task comes from the last
  runner of one of its groups, and each runner of that group, no other, is charged the time from the reading of the
  clock just before the task to a reading of its own after it, the later runners a later reading; the thread is no
  longer marked as running a task.  The runners of a group are distinct, no immediate task waits, and the closure does
  not change the current group, as one that runs rounds itself would.\<close>

theorem group_is_charged:
  assumes "RunTask exec clk me s = Inr (b, s')" and "GetNextTask clk me s = Inr (Some t, s1)"
    and "immediate_task_queue (s_workers s me) = []" and "\<not> is_terminated (s_workers s me)"
    and "\<forall>r. tr_ok (s_runners s r)" and "\<forall>g \<in># groups_of (s_workers s me). distinct g" and "keeps_group exec"
  shows "\<exists>s3 g. Task_Run (exec me) t (set_running me True (snd (Now clk s1))) = Inr s3
    \<and> g \<in># groups_of (s_workers s me)
    \<and> pending_tasks (s_runners s (last g)) = add_mset (Some t) (pending_tasks (s_runners s1 (last g)))
    \<and> (\<forall>i < length g. time_used (s_runners s' (g ! i)) =
         TimeDelta (delta (time_used (s_runners s3 (g ! i))) + (ticks (clk (s_clock s3 + i)) - ticks (clk (s_clock s1)))))
    \<and> (\<forall>r. r \<notin> set g \<longrightarrow> s_runners s' r = s_runners s3 r)
    \<and> \<not> is_task_running (s_threads s' me)"
  by (rule RunTask_charges [OF assms])

definition sample_pair :: sys where
  "sample_pair = sample_sys [[1, 2]] (\<lambda>r. if r = 2 then [7] else [])"

definition sample_charged :: "sys \<times> sys" where
  "sample_charged = (case (GetNextTask sample_clock 0 sample_pair, RunTask (\<lambda>_ _ s. Inr s) sample_clock 0 sample_pair)
     of (Inr (_, s1), Inr (_, s')) \<Rightarrow> (s1, s') | _ \<Rightarrow> (sample_pair, sample_pair))"

lemma sample_charged_steps:
  "GetNextTask sample_clock 0 sample_pair = Inr (Some (sample_task 7), fst sample_charged)"
  "RunTask (\<lambda>_ _ s. Inr s) sample_clock 0 sample_pair = Inr (True, snd sample_charged)"
proof -
  let ?g = "GetNextTask sample_clock 0 sample_pair" and ?r = "RunTask (\<lambda>_ _ s. Inr s) sample_clock 0 sample_pair"
  have "(case ?g of Inr (t, s) \<Rightarrow> t = Some (sample_task 7) | Inl _ \<Rightarrow> False)"
    and "(case ?r of Inr (b, s) \<Rightarrow> b | Inl _ \<Rightarrow> False)" by code_simp+
  then show "?g = Inr (Some (sample_task 7), fst sample_charged)" "?r = Inr (True, snd sample_charged)"
    unfolding sample_charged_def by (cases ?g; cases ?r; auto split: prod.splits)+
qed

theorem group_is_charged_witness:
  "time_used (s_runners (snd sample_charged) 1) = TimeDelta 10 \<and> time_used (s_runners (snd sample_charged) 2) = TimeDelta 20"
proof -
  have w: "s_workers sample_pair 0 = (Worker_new 0 True ''worker'')\<lparr>running_groups := [[1, 2]]\<rparr>"
    by (simp add: sample_pair_def)
  have g: "groups_of (s_workers sample_pair 0) = {#[1, 2]#}" by (simp add: w groups_of_def Worker_new_def)
  have h: "immediate_task_queue (s_workers sample_pair 0) = []" "\<not> is_terminated (s_workers sample_pair 0)"
    "\<forall>r. tr_ok (s_runners sample_pair r)" "\<forall>g \<in># groups_of (s_workers sample_pair 0). distinct g"
    "keeps_group (\<lambda>_ _ s. Inr s)"
    using sample_sys_runners(1) by (simp_all add: g) (simp_all add: w Worker_new_def sample_pair_def keeps_group_def)
  let ?s3 = "set_running 0 True (snd (Now sample_clock (fst sample_charged)))"
  have run: "Task_Run (\<lambda>_ s. Inr s) t s = Inr s" for t and s :: sys by (simp add: Task_Run_def split: option.split)
  obtain s3 gr where c: "Task_Run (\<lambda>_ s. Inr s) (sample_task 7) ?s3 = Inr s3" "gr \<in># groups_of (s_workers sample_pair 0)"
    "\<forall>i < length gr. time_used (s_runners (snd sample_charged) (gr ! i)) =
       TimeDelta (delta (time_used (s_runners s3 (gr ! i))) + (ticks (sample_clock (s_clock s3 + i))
         - ticks (sample_clock (s_clock (fst sample_charged)))))"
    using group_is_charged [OF sample_charged_steps(2,1) h] by blast
  have gr: "gr = [1, 2]" using c(2) g by simp
  have s3: "s3 = ?s3" using c(1) run by simp
  have k: "s_clock ?s3 = 3" "s_clock (fst sample_charged) = 2" "delta (time_used (s_runners ?s3 1)) = 0"
    "delta (time_used (s_runners ?s3 2)) = 0" by code_simp+
  from c(3) [rule_format, of 0] c(3) [rule_format, of 1] show ?thesis
    unfolding gr s3 by (simp add: k [unfolded One_nat_def] sample_clock_def)
qed

section \<open>Sub runners\<close>

text \<open>C7. A runner that has got a sub runner waits for it: in any number of rounds of its worker, whose closures may
  post to every runner but neither move the groups nor take tasks away themselves, no task of the father is taken.\<close>

theorem father_waits:
  assumes "AddSubTaskRunner exec clk fuel f sub False s = Some (Inr (True, s1))"
    and "tr_worker (s_runners s f) = Some wk" and "ids_apart f wk s" and "f \<noteq> sub"
    and "immediate_task_queue (s_workers s wk) = []" and "\<forall>r. tr_ok (s_runners s r)"
    and "leaves_waiting f wk exec'" and "run_tasks exec' clk' wk n s1 = Inr s'"
  shows "pending_tasks (s_runners s f) \<subseteq># pending_tasks (s_runners s' f)"
proof -
  have "pending_tasks (s_runners s1 f) = pending_tasks (s_runners s f)"
    by (rule AddSub_cases [OF assms(1)]) (simp add: set_runner_def set_worker_def pending_tasks_def)
  then show ?thesis using run_tasks_waits [OF assms(7) AddSub_waits [OF assms(1-6)] assms(8)] by simp
qed

definition sample_father :: sys where
  "sample_father = sample_sys [[2]] (\<lambda>r. if r = 2 then [4, 5] else [6])"

definition sample_family :: sys where
  "sample_family = (case AddSubTaskRunner (\<lambda>_ _ s. Inr s) sample_clock 0 2 7 False sample_father of
     Some (Inr (_, s)) \<Rightarrow> s | _ \<Rightarrow> sample_father)"

lemma sample_family_added:
  "AddSubTaskRunner (\<lambda>_ _ s. Inr s) sample_clock 0 2 7 False sample_father = Some (Inr (True, sample_family))"
  by (simp add: sample_family_def AddSubTaskRunner_def lock_worker_def BindGroup_def sample_father_def
      sample_sys_def GetId_def TaskRunner_new_def Let_def)

lemma sample_father_ids:
  "tr_worker (s_runners sample_father r) = Some 0" "runners_of (s_workers sample_father 0) = {#2#}"
  "GetId (s_runners sample_father 2) = 2"
  "GetId (s_runners sample_father 7) = 7"
  by (simp_all add: sample_father_def sample_sys_def TaskRunner_new_def runners_of_def Worker_new_def GetId_def)

definition sample_family_run :: sys where
  "sample_family_run = (case run_tasks (\<lambda>_ _ s. Inr s) sample_clock 0 2 sample_family of
     Inr s \<Rightarrow> s | Inl _ \<Rightarrow> sample_family)"

theorem father_waits_witness:
  "{#Some (sample_task 4), Some (sample_task 5)#} \<subseteq># pending_tasks (s_runners sample_family_run 2)"
proof -
  let ?r = "run_tasks (\<lambda>_ _ s. Inr s) sample_clock 0 2 sample_family"
  have "case ?r of Inr _ \<Rightarrow> True | Inl _ \<Rightarrow> False" by code_simp
  then have r: "?r = Inr sample_family_run" unfolding sample_family_run_def by (cases ?r) auto
  have ids: "ids_apart 2 0 sample_father" by (auto simp: ids_apart_def sample_father_ids)
  have ok: "\<forall>r. tr_ok (s_runners sample_father r)" "immediate_task_queue (s_workers sample_father 0) = []"
    by (simp_all add: sample_father_def sample_sys_runners Worker_new_def)
  have ex: "leaves_waiting 2 0 (\<lambda>_ _ s. Inr s)" by (simp add: leaves_waiting_def)
  show ?thesis
    using father_waits [OF sample_family_added sample_father_ids(1) ids _ ok(2,1) ex r]
    by (simp add: sample_father_def sample_sys_runners)
qed

text \<open>C11. Removing a sub runner undoes adding it, when the sub runner is not the father and no runner of the father's
  worker has its id: the worker is as it was, whatever groups it has, the father is no longer marked, and the only trace
  is the notification of the worker.  (A sub runner with a seat of its own on that worker may lose that one instead,
  \<open>sub_runner_seat_lost\<close>.)\<close>

theorem sub_runner_undone:
  assumes "AddSubTaskRunner exec clk fuel f sub False s = Some (Inr (True, s1))"
    and "tr_worker (s_runners s f) = Some wk" and "f \<noteq> sub"
    and "\<forall>r. r \<in># runners_of (s_workers s wk) \<longrightarrow> GetId (s_runners s r) \<noteq> GetId (s_runners s sub)"
  shows "RemoveSubTaskRunner f (Some sub) s1 =
    Inr (True, notify wk (set_runner f ((s_runners s f)\<lparr>has_sub_runner := False\<rparr>) s))"
  by (rule RemoveSub_undoes [OF assms])

theorem sub_runner_undone_witness:
  "returns (RemoveSubTaskRunner 2 (Some 7) sample_family)"
proof -
  have "\<forall>r. r \<in># runners_of (s_workers sample_father 0) \<longrightarrow>
      GetId (s_runners sample_father r) \<noteq> GetId (s_runners sample_father 7)"
    by (auto simp: sample_father_ids)
  then show ?thesis using sub_runner_undone [OF sample_family_added sample_father_ids(1)] by simp
qed

section \<open>Groups and runner-local storage\<close>

text \<open>\<open>BindGroup\<close> puts the child behind everyone in the first group, running before pending, that
  holds the father, and changes nothing else; when no group holds the father it dereferences the end
  iterator.\<close>

theorem BindGroup_functional:
  "(case BindGroup R father child w of
      Inl f \<Rightarrow> f = UB BadIterator \<and> (\<forall>g \<in># groups_of w. \<forall>r \<in> set g. GetId (R r) \<noteq> father)
    | Inr w' \<Rightarrow> runners_of w' = add_mset child (runners_of w)
        \<and> (\<exists>as g bs. running_groups w @ pending_groups w = as @ g # bs
             \<and> running_groups w' @ pending_groups w' = as @ (g @ [child]) # bs
             \<and> (\<exists>r \<in> set g. GetId (R r) = father) \<and> (\<forall>h \<in> set as. \<forall>r \<in> set h. GetId (R r) \<noteq> father)))"
proof -
  let ?p = "\<lambda>r. GetId (R r) = father" and ?gs = "running_groups w @ pending_groups w"
  show ?thesis
  proof (cases "BindGroup R father child w")
    case (Inl f)
    then show ?thesis using BindGroup_cases [of R father child w]
      by (auto simp: add_to_group_of_None groups_of_def)
  next
    case (Inr w')
    then have a: "add_to_group_of ?p child ?gs = Some (running_groups w' @ pending_groups w')"
      using BindGroup_cases [of R father child w] by simp
    show ?thesis
      using Inr add_to_group_of_mset [OF a] add_to_group_of_group [OF a]
      by (simp add: runners_of_app list_ex_iff)
  qed
qed

text \<open>C15. The runner-local storage never stores anything: from a store that was just created, every key
  creation returns the key 0, every deletion fails, every \<open>SetSpecific\<close> with a key in range claims
  success, and every \<open>GetSpecific\<close> returns null, whatever was set before.\<close>

theorem specifics_store_nothing:
  assumes "fresh_store rid w" and "\<forall>e \<in> set es. in_i32 (op_key e)"
  shows "key_run rid es w = (map fresh_answer es, w)"
  by (rule key_run_fresh [OF assms])

definition sample_store :: worker where
  "sample_store = UpdateSpecific 5 default_specific (UpdateSpecificKeys 5 default_keys (Worker_new 0 True ''worker''))"

theorem specifics_store_nothing_witness:
  "fst (key_run 5 [OpCreate (Some 9), OpSet 0 77, OpGet 0, OpCreate None, OpDelete 0] sample_store)
     = [OutKey 0, OutBool True, OutPtr 0, OutKey 0, OutBool False]"
proof -
  have f: "fresh_store 5 sample_store" by code_simp
  have k: "\<forall>e \<in> set [OpCreate (Some 9), OpSet 0 77, OpGet 0, OpCreate None, OpDelete 0]. in_i32 (op_key e)"
    by (simp add: in_i32_def)
  show ?thesis using specifics_store_nothing [OF f k]
    by (simp add: key_out_of_range_def to_size_t_def kWorkerKeysMax_def)
qed

text \<open>A worker can be destroyed only if it is terminated and no runner has storage on it: otherwise
  the destructor aborts, or runs past the end of the map of the specifics.\<close>

theorem worker_destruction:
  assumes "specific_ok w"
  shows "returns (Worker_destroy w) \<longleftrightarrow> is_terminated w \<and> smap_find (specific_map w) = Map.empty"
  by (rule Worker_destroy_returns_iff [OF assms])

theorem worker_destruction_witness:
  "\<not> returns (Worker_destroy (sample_store\<lparr>is_terminated := True\<rparr>))"
proof -
  let ?w = "sample_store\<lparr>is_terminated := True\<rparr>"
  have ok: "specific_ok ?w"
    by (auto simp: specific_ok_def sample_store_def UpdateSpecific_def UpdateSpecificKeys_def
        Worker_new_def smap_find_def smap_invar_def default_keys_def default_specific_def split: if_splits)
  have "smap_find (specific_map ?w) 5 \<noteq> None"
    by (simp add: sample_store_def UpdateSpecific_def UpdateSpecificKeys_def Worker_new_def smap_find_def)
  then show ?thesis using worker_destruction [OF ok] by (metis option.distinct(1))
qed

section \<open>Time\<close>

text \<open>C19. The conversion to seconds and nanoseconds and back returns a duration exactly when its whole seconds fit the
  platform's \<open>time_t\<close>, a signed type of \<open>w\<close> bits.  With 64 bits every duration survives, the two extreme values included.\<close>

theorem timespec_roundtrip:
  assumes "td_ok d" and "0 < w"
  shows "(td_FromTimespec (td_ToTimespec w d) = Inr d
      \<longleftrightarrow> - (2 ^ (w - 1)) \<le> td_ToSeconds d \<and> td_ToSeconds d < 2 ^ (w - 1))
    \<and> (64 \<le> w \<longrightarrow> td_FromTimespec (td_ToTimespec w d) = Inr d)"
proof -
  have e: "td_FromTimespec (td_ToTimespec w d) = Inr d
      \<longleftrightarrow> - (2 ^ (w - 1)) \<le> td_ToSeconds d \<and> td_ToSeconds d < 2 ^ (w - 1)"
    using td_FromTimespec_ToTimespec [OF assms(1)] time_t_cast_eq [OF assms(2)] by simp
  moreover have "- (2 ^ (w - 1)) \<le> td_ToSeconds d \<and> td_ToSeconds d < 2 ^ (w - 1)" if "64 \<le> w"
  proof -
    have "(2 :: int) ^ 63 \<le> 2 ^ (w - 1)" using that by (intro power_increasing) simp_all
    then show ?thesis using td_seconds_in_i64 [OF assms(1)] by (auto simp: in_i64_def)
  qed
  ultimately show ?thesis by blast
qed

text \<open>The greatest duration is lost where \<open>time_t\<close> has 32 bits.\<close>

theorem timespec_roundtrip_witness:
  "td_FromTimespec (td_ToTimespec 64 td_Min) = Inr td_Min \<and> td_FromTimespec (td_ToTimespec 32 td_Max) \<noteq> Inr td_Max"
proof -
  have t: "td_ok td_Min" "td_ok td_Max" "\<not> td_ToSeconds td_Max < 2 ^ (32 - 1)" by code_simp+
  have w: "(0 :: nat) < 64" "(0 :: nat) < 32" "(64 :: nat) \<le> 64" by simp_all
  show ?thesis using timespec_roundtrip [OF t(1) w(1)] timespec_roundtrip [OF t(2) w(2)] t(3) w(3) by blast
qed

text \<open>Milliseconds and seconds convert to a duration exactly when the count of nanoseconds fits 64
  bits, and then convert back to the same number; otherwise the multiplication overflows.\<close>

theorem unit_conversions:
  "(case td_FromMilliseconds m of
      Inr d \<Rightarrow> in_i64 (m * 1000000) \<and> td_ToMilliseconds d = m
    | Inl f \<Rightarrow> \<not> in_i64 (m * 1000000) \<and> f = UB SignedOverflow)
   \<and> (case td_FromSeconds m of
      Inr d \<Rightarrow> in_i64 (m * 1000000000) \<and> td_ToSeconds d = m
    | Inl f \<Rightarrow> \<not> in_i64 (m * 1000000000) \<and> f = UB SignedOverflow)"
  using td_ToMilliseconds_FromMilliseconds [of m] td_ToSeconds_FromSeconds [of m]
  by (simp add: td_FromMilliseconds_eq td_FromSeconds_eq)

section \<open>The manager\<close>

text \<open>A manager of three workers, each with one group; \<open>pend\<close> says whether it is still pending.\<close>

definition sample_manager :: "nat \<Rightarrow> manager" where
  "sample_manager n = \<lparr>m_workers = [0..<n], m_index = 0, m_size = int n\<rparr>"

definition sample_pool :: "bool \<Rightarrow> sys" where
  "sample_pool pend = (sample_sys [] (\<lambda>_. []))
     \<lparr>s_workers := (\<lambda>w. if pend then (Worker_new 0 True '''')\<lparr>pending_groups := [[w + 10]]\<rparr>
                          else (Worker_new 0 True '''')\<lparr>running_groups := [[w + 10]]\<rparr>)\<rparr>"

theorem BindGroup_functional_witness:
  "returns (BindGroup (s_runners (sample_pool False)) 11 50 (s_workers (sample_pool False) 1))
    \<and> BindGroup (s_runners (sample_pool False)) 77 50 (s_workers (sample_pool False) 1) = Inl (UB BadIterator)"
proof -
  have r: "GetId (s_runners (sample_pool False) 11) = 11" by code_simp
  show ?thesis
    using BindGroup_functional [where R = "s_runners (sample_pool False)" and father = 11 and child = 50
          and w = "s_workers (sample_pool False) 1"]
      BindGroup_functional [where R = "s_runners (sample_pool False)" and father = 77 and child = 50
          and w = "s_workers (sample_pool False) 1"] r
    by (auto simp: sample_pool_def Worker_new_def groups_of_def runners_of_def returns_def
        append_eq_Cons_conv Cons_eq_append_conv split: sum.splits)
qed

text \<open>C10. Making the pool smaller loses and duplicates no group: the groups of all its workers, running
  and pending together, are the same before and after.  It also ends no worker: the list of the
  workers and their termination flags stay as they were.\<close>

theorem shrink_keeps_groups:
  assumes "Balance_decrease debug inc (m, s) = Inr (m', s')"
  shows "all_groups m (s_workers s') = all_groups m (s_workers s)
    \<and> m_workers m' = m_workers m \<and> s_alive s' = s_alive s
    \<and> (\<forall>a. is_terminated (s_workers s' a) = is_terminated (s_workers s a))"
  using Balance_decrease_groups [OF assms] by blast

definition sample_shrunk :: "manager \<times> sys" where
  "sample_shrunk = (case Balance_decrease True (- 2) (sample_manager 3, sample_pool False) of
     Inr x \<Rightarrow> x | Inl _ \<Rightarrow> (sample_manager 0, sample_pool True))"

lemma sample_shrunk_step:
  "Balance_decrease True (- 2) (sample_manager 3, sample_pool False) = Inr (fst sample_shrunk, snd sample_shrunk)"
proof -
  let ?b = "Balance_decrease True (- 2) (sample_manager 3, sample_pool False)"
  have "returns ?b"
    by (simp add: Balance_decrease_def unbind_loop_step unbind_loop_stop sample_manager_def
        sample_pool_def worker_at_def HasUnschedulableRunner_def Worker_new_def sample_sys_def
        TaskRunner_new_def IsSchedulable_def UnBind_all_def in_i32_def i32_def
        RetainActiveAndUnschedulable_def Let_def bind_at_def Bind_def next_index_def
        split del: if_split cong: if_cong)
  then show ?thesis unfolding sample_shrunk_def by (cases ?b) auto
qed

theorem shrink_keeps_groups_witness:
  "all_groups (sample_manager 3) (s_workers (snd sample_shrunk)) = {# [10], [11], [12] #}"
proof -
  have "all_groups (sample_manager 3) (s_workers (sample_pool False)) = {# [10], [11], [12] #}"
    by (simp add: all_groups_def held_by_def sample_manager_def sample_pool_def groups_of_def
        Worker_new_def numeral_3_eq_3 atLeast0_lessThan_Suc)
  then show ?thesis using shrink_keeps_groups [OF sample_shrunk_step] by simp
qed

text \<open>In a build with debug checks, making the pool smaller aborts whenever more than one worker is to
  remain and every runner may be moved: the loop unbinds all workers but the first, not as many as
  asked for.\<close>

theorem shrink_aborts_in_debug:
  assumes "\<forall>a \<in> set (m_workers m). \<not> HasUnschedulableRunner (s_runners s) (s_workers s a)"
    and "length (m_workers m) = nat (m_size m)" and "0 < k" and "k < m_size m - 1" and "in_i32 (m_size m)"
  shows "Balance_decrease True (- k) (m, s) = Inl CheckFailed"
  by (rule shrink_debug_aborts [OF assms])

theorem shrink_aborts_in_debug_witness:
  "Balance_decrease True (- 1) (sample_manager 3, sample_pool False) = Inl CheckFailed"
  by (rule shrink_aborts_in_debug)
    (simp_all add: sample_manager_def sample_pool_def HasUnschedulableRunner_def Worker_new_def
      sample_sys_def TaskRunner_new_def IsSchedulable_def in_i32_def)

text \<open>Making the pool larger never duplicates a group, but what it does not hand out again is lost;
  and the runners keep the pointer to the worker they had, also when their group has moved.\<close>

theorem grow_duplicates_nothing:
  assumes "Balance_increase inc (m, s) = Inr (m', s')"
  shows "all_groups m (s_workers s') \<subseteq># all_groups m (s_workers s) \<and> s_runners s' = s_runners s"
proof -
  obtain lost where "mset lost + all_groups m (s_workers s') = all_groups m (s_workers s)"
    using Balance_increase_groups(1) [OF assms] by blast
  then show ?thesis using Balance_increase_groups(2) [OF assms]
    by (metis mset_subset_eq_add_right)
qed

definition sample_grown :: "manager \<times> sys" where
  "sample_grown = (case Balance_increase 1 ((sample_manager 3)\<lparr>m_size := 2\<rparr>, sample_pool False) of
     Inr x \<Rightarrow> x | Inl _ \<Rightarrow> (sample_manager 0, sample_pool True))"

theorem grow_duplicates_nothing_witness:
  "all_groups (sample_manager 3) (s_workers (snd sample_grown)) \<subseteq># {# [10], [11], [12] #}"
proof -
  let ?b = "Balance_increase 1 ((sample_manager 3)\<lparr>m_size := 2\<rparr>, sample_pool False)"
  have "(case ?b of Inl _ \<Rightarrow> False | Inr _ \<Rightarrow> True)" by code_simp
  then have b: "?b = Inr (fst sample_grown, snd sample_grown)"
    unfolding sample_grown_def by (cases ?b) auto
  have "all_groups ((sample_manager 3)\<lparr>m_size := 2\<rparr>) W = all_groups (sample_manager 3) W" for W
    by (simp add: all_groups_def)
  moreover have "all_groups (sample_manager 3) (s_workers (sample_pool False)) = {# [10], [11], [12] #}"
    by (simp add: all_groups_def held_by_def sample_manager_def sample_pool_def groups_of_def
        Worker_new_def numeral_3_eq_3 atLeast0_lessThan_Suc)
  ultimately show ?thesis using grow_duplicates_nothing [OF b] by simp
qed

text \<open>Making the pool larger before the workers have taken over their groups loses every group: the
  quota is computed from the running groups only, so it is 0 and nothing is handed out again.\<close>

theorem grow_loses_pending:
  assumes "\<forall>a \<in> set (m_workers m). running_groups (s_workers s a) = []"
    and "0 \<le> m_size m" and "0 < inc" and "m_size m + inc \<le> int (length (m_workers m))"
    and "2 * m_size m + inc < 2 ^ 31"
  shows "\<exists>m' s'. Balance_increase inc (m, s) = Inr (m', s')
    \<and> (\<forall>j < nat (m_size m). groups_of (s_workers s' (m_workers m ! j)) = {#})"
  by (rule Balance_increase_loses [OF assms])

theorem grow_loses_pending_witness:
  "\<exists>m' s'. Balance_increase 1 ((sample_manager 3)\<lparr>m_size := 2\<rparr>, sample_pool True) = Inr (m', s')
    \<and> (\<forall>j < 2. groups_of (s_workers s' ([0..<3] ! j)) = {#})
    \<and> groups_of (s_workers (sample_pool True) 0) = {# [10] #}"
  using grow_loses_pending [of "(sample_manager 3)\<lparr>m_size := 2\<rparr>" "sample_pool True" 1]
  by (simp add: sample_manager_def sample_pool_def Worker_new_def groups_of_def)

text \<open>There is no round robin: with any number of workers but one, every runner of the default group
  is put on the first worker, however many are created; with one worker the second creation indexes
  past the end of the list of workers.\<close>

theorem default_runners_on_first_worker:
  assumes "m_workers m \<noteq> []" and "m_index m = 0" and "m_size m = int (length (m_workers m))"
  shows "if length (m_workers m) = 1
    then create_defaults (Suc (Suc n)) fresh c (m, s) = Inl (UB OutOfRange)
    else \<exists>s'. create_defaults n fresh c (m, s) = Inr (m, s')
      \<and> (\<forall>r. fresh \<le> r \<and> r < fresh + n \<longrightarrow> tr_worker (s_runners s' r) = Some (hd (m_workers m)))"
proof (cases "length (m_workers m) = 1")
  case True
  then obtain wk where "m_workers m = [wk]" by (cases "m_workers m") auto
  then show ?thesis using create_defaults_single [of m wk n] assms by simp
next
  case False
  then have "m_size m \<noteq> 1" using assms(3) by simp
  from create_defaults_first_worker [OF assms(1,2) this, of n fresh c s] False
  show ?thesis by simp blast
qed

theorem default_runners_on_first_worker_witness:
  "\<exists>s'. create_defaults 5 100 7 (sample_manager 3, sample_pool False) = Inr (sample_manager 3, s')
    \<and> tr_worker (s_runners s' 103) = Some 0"
proof -
  have m: "m_workers (sample_manager 3) = [0, 1, 2]" by code_simp
  have "\<exists>s'. create_defaults 5 100 7 (sample_manager 3, sample_pool False) = Inr (sample_manager 3, s')
      \<and> (\<forall>r. 100 \<le> r \<and> r < 100 + 5 \<longrightarrow> tr_worker (s_runners s' r) = Some (hd (m_workers (sample_manager 3))))"
    using default_runners_on_first_worker [of "sample_manager 3" 5 100 7 "sample_pool False"] m
    by (simp add: sample_manager_def)
  then show ?thesis by (auto simp: m)
qed

text \<open>Group affinity: two runners created one after the other with the same group id, other than the
  default, are bound to the same worker.\<close>

theorem group_affinity:
  assumes "g \<noteq> kDefaultGroupId" and "f1 \<noteq> f2"
    and "CreateTaskRunner f1 c g p True n (m, s) = Inr (c1, m1, s1)"
    and "CreateTaskRunner f2 c1 g p' True n' (m1, s1) = Inr (c2, m2, s2)"
  shows "tr_worker (s_runners s2 f1) = tr_worker (s_runners s2 f2) \<and> tr_worker (s_runners s2 f2) \<noteq> None"
proof -
  obtain wk where wk: "tr_worker (s_runners s1 f1) = Some wk" "group_worker g m s1 = Some wk"
    "m_workers m1 = m_workers m" by (rule CreateTaskRunner_group [OF assms(3,1)])
  obtain wk' where wk': "tr_worker (s_runners s2 f2) = Some wk'"
    "group_worker g m1 s1 = None \<or> group_worker g m1 s1 = Some wk'"
    "\<And>r. r \<noteq> f2 \<Longrightarrow> s_runners s2 r = s_runners s1 r"
    using CreateTaskRunner_group [OF assms(4,1)] by metis
  have "group_worker g m1 s1 = group_worker g m s1" using wk(3) by (simp add: group_worker_def)
  then show ?thesis using wk wk' assms(2) by simp
qed

definition sample_created :: "nat \<Rightarrow> u32 \<times> manager \<times> sys \<Rightarrow> u32 \<times> manager \<times> sys" where
  "sample_created f x = (case x of (c, m, s) \<Rightarrow>
     (case CreateTaskRunner f c 6 1 True '''' (m, s) of Inr y \<Rightarrow> y | Inl _ \<Rightarrow> (0, m, s)))"

lemma sample_created_step:
  assumes "(case CreateTaskRunner f c 6 1 True '''' (m, s) of Inl _ \<Rightarrow> False | Inr _ \<Rightarrow> True)"
  shows "CreateTaskRunner f c 6 1 True '''' (m, s) = Inr (sample_created f (c, m, s))"
  using assms unfolding sample_created_def
  by (cases "CreateTaskRunner f c 6 1 True '''' (m, s)") auto

theorem group_affinity_witness:
  "let x1 = sample_created 100 (7, sample_manager 3, sample_pool False); x2 = sample_created 101 x1
   in tr_worker (s_runners (snd (snd x2)) 100) = tr_worker (s_runners (snd (snd x2)) 101)"
proof -
  define x1 where "x1 = sample_created 100 (7, sample_manager 3, sample_pool False)"
  define x2 where "x2 = sample_created 101 x1"
  have "(case CreateTaskRunner 100 7 6 1 True '''' (sample_manager 3, sample_pool False) of
      Inl _ \<Rightarrow> False | Inr _ \<Rightarrow> True)" by code_simp
  from sample_created_step [OF this]
  have 1: "CreateTaskRunner 100 7 6 1 True '''' (sample_manager 3, sample_pool False)
      = Inr (fst x1, fst (snd x1), snd (snd x1))" by (simp add: x1_def)
  have "(case CreateTaskRunner 101 (fst x1) 6 1 True '''' (fst (snd x1), snd (snd x1)) of
      Inl _ \<Rightarrow> False | Inr _ \<Rightarrow> True)" unfolding x1_def by code_simp
  from sample_created_step [OF this]
  have 2: "CreateTaskRunner 101 (fst x1) 6 1 True '''' (fst (snd x1), snd (snd x1))
      = Inr (fst x2, fst (snd x2), snd (snd x2))" by (simp add: x2_def)
  show ?thesis
    using group_affinity [OF _ _ 1 2] by (simp add: Let_def kDefaultGroupId_def flip: x1_def x2_def)
qed

text \<open>The storage of a runner follows it: the task left at its old worker takes the two arrays there
  and leaves a task at the new worker; once that has run too, the new worker holds what the old one
  held, and the old one holds nothing for the runner.\<close>

theorem storage_follows_runner:
  assumes "s_alive s src" and "s_alive s dst" and "src \<noteq> dst"
    and "specific_ok (s_workers s src)" and "specific_ok (s_workers s dst)"
    and "smap_find (worker_key_map (s_workers s src)) rid = Some ks"
    and "smap_find (specific_map (s_workers s src)) rid = Some ps"
  shows "\<exists>s1 t s2. run_take rid src dst s = Inr s1
    \<and> immediate_task_queue (s_workers s1 dst) = immediate_task_queue (s_workers s dst) @ [Some t]
    \<and> task_unit t = Some (InstallSpecific rid dst ks ps)
    \<and> run_install rid dst ks ps s1 = Inr s2
    \<and> smap_find (worker_key_map (s_workers s2 src)) rid = None
    \<and> smap_find (specific_map (s_workers s2 src)) rid = None
    \<and> smap_find (worker_key_map (s_workers s2 dst)) rid = Some ks
    \<and> smap_find (specific_map (s_workers s2 dst)) rid = Some ps"
  by (rule run_take_install [OF assms])

theorem storage_follows_runner_witness:
  "\<exists>s1 s2. run_take 5 1 0 (set_worker 1 sample_store (sample_pool False)) = Inr s1
    \<and> run_install 5 0 default_keys default_specific s1 = Inr s2
    \<and> smap_find (specific_map (s_workers s2 0)) 5 = Some default_specific"
proof -
  let ?s = "set_worker 1 sample_store (sample_pool False)"
  have ok: "specific_ok (s_workers ?s 1)" "specific_ok (s_workers ?s 0)"
    using specific_ok_new [of 0 True "''''"]
    by (auto simp: specific_ok_def sample_store_def UpdateSpecific_def UpdateSpecificKeys_def
        Worker_new_def smap_find_def smap_invar_def default_keys_def default_specific_def
        sample_pool_def split: if_splits)
  have f: "smap_find (worker_key_map (s_workers ?s 1)) 5 = Some default_keys"
    "smap_find (specific_map (s_workers ?s 1)) 5 = Some default_specific"
    by (simp_all add: sample_store_def UpdateSpecific_def UpdateSpecificKeys_def Worker_new_def smap_find_def)
  have a: "s_alive ?s 1" "s_alive ?s 0" by (simp_all add: sample_pool_def sample_sys_def)
  show ?thesis using storage_follows_runner [OF a _ ok f] by auto
qed

text \<open>Removing a runner takes it out of every worker of the pool, once, and leaves every other runner
  where it is, as long as no other runner of the worker has the same id.\<close>

theorem remove_takes_runner_out:
  assumes "distinct (m_workers m)" and "a \<in> set (m_workers m)"
    and "\<forall>q \<in># runners_of (s_workers s a). GetId (s_runners s q) = GetId (s_runners s r) \<longrightarrow> q = r"
  shows "runners_of (s_workers (RemoveTaskRunner r (m, s)) a) = runners_of (s_workers s a) - {#r#}"
  by (rule RemoveTaskRunner_runners [OF assms])

theorem remove_takes_runner_out_witness:
  "runners_of (s_workers (RemoveTaskRunner 11 (sample_manager 3, sample_pool False)) 1) = {#}"
  using remove_takes_runner_out [of "sample_manager 3" 1 "sample_pool False" 11]
  by (simp add: sample_manager_def sample_pool_def runners_of_def Worker_new_def)

section \<open>Timers\<close>

text \<open>A timer of runner 1 with a user task, running, whose scheduled time has come.\<close>

definition sample_timer :: timer where
  "sample_timer = (BaseTimer_new True (Some 1))
     \<lparr>ti_user_task := Some (sample_task 3), ti_delay := TimeDelta 50\<rparr>"

definition sample_timers :: tsys where
  "sample_timers =
     \<lparr>t_sys = sample_sys [[1]] (\<lambda>_. []), t_timers = (\<lambda>_. sample_timer), t_alive = (\<lambda>_. True),
      t_runner_alive = (\<lambda>_. True), t_idle_objs = (\<lambda>_. None), t_next_obj = 0, t_idle_counter = 1\<rparr>"

lemma sample_timers_simps [simp]:
  "t_timers sample_timers n = sample_timer" "t_alive sample_timers n" "t_runner_alive sample_timers r"
  "s_clock (t_sys sample_timers) = 0" "ti_user_task sample_timer = Some (sample_task 3)"
  "ti_delay sample_timer = TimeDelta 50" "scheduled_run_time sample_timer = TimePoint 0"
  "desired_run_time sample_timer = TimePoint 0" "is_running sample_timer" "ti_runner sample_timer = Some 1"
  "lock_runner n sample_timers = Some 1"
  by (simp_all add: sample_timers_def sample_timer_def BaseTimer_new_def tp_default_def sample_sys_def
      lock_runner_def)

text \<open>The closure a client posts, in the samples: it records its number in the list of notifications.\<close>

definition sample_user :: "exec_code \<Rightarrow> tsys \<Rightarrow> tsys res" where
  "sample_user c s = (case c of UserCode k \<Rightarrow> Inr (s\<lparr>t_sys := notify (100 + k) (t_sys s)\<rparr>) | _ \<Rightarrow> Inr s)"

lemma sample_user_keeps: "keeps_timer n sample_user"
  by (auto simp: keeps_timer_def sample_user_def split: exec_code.splits)

text \<open>\<open>Stop\<close> cancels: after \<open>Stop\<close> the task that is still queued does nothing when it runs, for each
  of the three kinds of timer, and \<open>Stop\<close> itself leaves the scheduler alone.\<close>

theorem stop_cancels_timer:
  "invoke_timer (OneShot_RunUserTask debug exec) clk n (Stop OneShot_OnStop n s) = Inr (Stop OneShot_OnStop n s)
   \<and> invoke_timer (Repeating_RunUserTask exec clk) clk n (Stop Repeating_OnStop n s) = Inr (Stop Repeating_OnStop n s)
   \<and> invoke_timer (Idle_RunUserTask idle_exec) clk n (Stop Idle_OnStop n s) = Inr (Stop Idle_OnStop n s)
   \<and> t_sys (Stop OneShot_OnStop n s) = t_sys s \<and> t_sys (Stop Repeating_OnStop n s) = t_sys s
   \<and> t_sys (Stop Idle_OnStop n s) = t_sys s"
  using one_shot.stop_cancels repeating.stop_cancels idle_timer.stop_cancels by blast

text \<open>C26. A one-shot timer runs its task once: when its invocation runs and no time later than the scheduled one is
  desired, it stops, gives up its task, and then runs it; and when the task does not itself touch the timer, any later
  invocation that is still queued does nothing.\<close>

theorem one_shot_fires_once:
  assumes "t_alive s n" and "is_running (t_timers s n)" and "ti_user_task (t_timers s n) = Some t"
    and "\<not> scheduled_run_time (t_timers s n) < desired_run_time (t_timers s n)"
    and "keeps_timer n exec"
  shows "(\<exists>s1. \<not> is_running (t_timers s1 n) \<and> ti_user_task (t_timers s1 n) = None \<and> t_sys s1 = t_sys s
      \<and> invoke_timer (OneShot_RunUserTask debug exec) clk n s = Task_Run exec t s1)
    \<and> (\<forall>s'. invoke_timer (OneShot_RunUserTask debug exec) clk n s = Inr s' \<longrightarrow>
      invoke_timer (OneShot_RunUserTask debug' exec') clk' n s' = Inr s')"
  using one_shot_once [OF assms] by blast

theorem one_shot_fires_once_witness:
  "\<exists>s1 s'. t_sys s1 = t_sys sample_timers \<and> Task_Run sample_user (sample_task 3) s1 = Inr s'
    \<and> invoke_timer (OneShot_RunUserTask True sample_user) sample_clock 0 sample_timers = Inr s'
    \<and> invoke_timer (OneShot_RunUserTask True sample_user) sample_clock 0 s' = Inr s'"
proof -
  have "t_alive sample_timers 0" "is_running (t_timers sample_timers 0)"
    "ti_user_task (t_timers sample_timers 0) = Some (sample_task 3)"
    "\<not> scheduled_run_time (t_timers sample_timers 0) < desired_run_time (t_timers sample_timers 0)"
    by simp_all
  note f = one_shot_fires_once [OF this sample_user_keeps]
  obtain s1 where s1: "t_sys s1 = t_sys sample_timers"
    "invoke_timer (OneShot_RunUserTask True sample_user) sample_clock 0 sample_timers = Task_Run sample_user (sample_task 3) s1"
    using f by blast
  obtain s' where s': "Task_Run sample_user (sample_task 3) s1 = Inr s'"
    by (simp add: Task_Run_def sample_user_def sample_task_def)
  have "invoke_timer (OneShot_RunUserTask True sample_user) sample_clock 0 s' = Inr s'"
    using f s1(2) s' by metis
  then show ?thesis using s1 s' by auto
qed

text \<open>C27. A repeating timer goes on: when its invocation runs and no time later than the scheduled one is
  desired, it first posts the next one, a full delay after the reading of the clock, stays running, and then runs its task.\<close>

theorem repeating_reposts:
  assumes "t_alive s n" and "is_running (t_timers s n)" and "ti_user_task (t_timers s n) = Some t"
    and "\<not> scheduled_run_time (t_timers s n) < desired_run_time (t_timers s n)"
    and "lock_runner n s = Some r"
    and "invoke_timer (Repeating_RunUserTask exec clk) clk n s = Inr s'"
    and "td_Zero < ti_delay (t_timers s n)"
  shows "\<exists>s1 x. Task_Run exec t s1 = Inr s' \<and> is_running (t_timers s1 n)
    \<and> task_unit x = Some (TimerInvoke n)
    \<and> mset (delayed_task_queue (s_runners (t_sys s1) r))
        = add_mset (TimePoint (ticks (clk (s_clock (t_sys s))) + delta (ti_delay (t_timers s n))), Some x)
            (mset (delayed_task_queue (s_runners (t_sys s) r)))"
  by (rule repeating_again [OF assms])

definition sample_repeated :: tsys where
  "sample_repeated = (case invoke_timer (Repeating_RunUserTask sample_user sample_clock) sample_clock 0 sample_timers of
     Inr s \<Rightarrow> s | Inl _ \<Rightarrow> sample_timers)"

theorem repeating_reposts_witness:
  "\<exists>s1 x. Task_Run sample_user (sample_task 3) s1 = Inr sample_repeated
    \<and> delayed_task_queue (s_runners (t_sys s1) 1) = [(TimePoint 1050, x)]"
proof -
  let ?i = "invoke_timer (Repeating_RunUserTask sample_user sample_clock) sample_clock 0 sample_timers"
  have "case ?i of Inl _ \<Rightarrow> False | Inr _ \<Rightarrow> True" by code_simp
  then have i: "?i = Inr sample_repeated" unfolding sample_repeated_def by (cases ?i) auto
  have z: "delayed_task_queue (s_runners (t_sys sample_timers) 1) = []"
    by (simp add: sample_timers_def sample_sys_def TaskRunner_new_def dq_empty_def)
  have c: "sample_clock 0 = TimePoint 1000" by (simp add: sample_clock_def)
  have "td_Zero < TimeDelta 50" by code_simp
  then show ?thesis
    using repeating_reposts [OF _ _ _ _ _ i, of "sample_task 3" 1] z c by auto
qed

text \<open>What a start posts: starting a timer posts one invocation to its runner when the invocation that
  was scheduled last lies in the past or comes later than the new delay asks for, and none otherwise.
  The invocation that was there stays queued in either case, so that a running timer that is started
  again with a shorter delay has two.\<close>

theorem timer_start_posts:
  assumes "lock_runner n s = Some r" and "StartInternal clk n d s = Inr s'" and "td_Zero < d"
  shows "is_running (t_timers s' n) \<and> pending_invocations n r s' = pending_invocations n r s
    + (if scheduled_run_time (t_timers s n) < clk (s_clock (t_sys s))
         \<or> ticks (clk (Suc (s_clock (t_sys s)))) + delta d < ticks (scheduled_run_time (t_timers s n))
       then 1 else 0)"
  using StartInternal_posts [OF assms] by simp

definition sample_started :: "time_delta \<Rightarrow> tsys \<Rightarrow> tsys" where
  "sample_started d s = (case Repeating_Start sample_clock 0 (Some (sample_task 3)) d s of
     Inr s' \<Rightarrow> s' | Inl _ \<Rightarrow> s)"

theorem timer_start_posts_witness:
  "pending_invocations 0 1 (sample_started (TimeDelta 100) (sample_started (TimeDelta 500) sample_timers)) = 2"
proof -
  define s1 where "s1 = sample_started (TimeDelta 500) sample_timers"
  define s2 where "s2 = sample_started (TimeDelta 100) s1"
  have st: "StartInternal sample_clock 0 d (set_timer 0 ((t_timers s 0)\<lparr>ti_user_task := Some (sample_task 3)\<rparr>) s)
      = Inr (sample_started d s)"
    if "case Repeating_Start sample_clock 0 (Some (sample_task 3)) d s of Inl _ \<Rightarrow> False | Inr _ \<Rightarrow> True" for d s
    using that by (auto simp: sample_started_def Repeating_Start_def split: sum.splits)
  have 1: "case Repeating_Start sample_clock 0 (Some (sample_task 3)) (TimeDelta 500) sample_timers of Inl _ \<Rightarrow> False | Inr _ \<Rightarrow> True"
    by code_simp
  have 2: "case Repeating_Start sample_clock 0 (Some (sample_task 3)) (TimeDelta 100) s1 of Inl _ \<Rightarrow> False | Inr _ \<Rightarrow> True"
    unfolding s1_def by code_simp
  have v: "lock_runner 0 s1 = Some 1" "scheduled_run_time (t_timers s1 0) = TimePoint 1520"
    "s_clock (t_sys s1) = 3" "td_Zero < TimeDelta 500" "td_Zero < TimeDelta 100"
    unfolding s1_def by code_simp+
  have p: "pending_invocations 0 r (set_timer 0 x s) = pending_invocations 0 r s"
    "ti_runner x = ti_runner (t_timers s 0) \<Longrightarrow> lock_runner 0 (set_timer 0 x s) = lock_runner 0 s" for x s r
    by (simp_all add: pending_invocations_def lock_runner_def split: option.split)
  have z: "pending_invocations 0 r sample_timers = 0" for r
    by (simp add: pending_invocations_def sample_timers_def sample_sys_def TaskRunner_new_def
        pending_tasks_def dq_empty_def)
  note start1 = st [OF 1, folded s1_def] and start2 = st [OF 2, folded s2_def]
  have "pending_invocations 0 1 s1 = 1"
    using timer_start_posts [OF _ start1, of 1] v(4) by (simp add: p z sample_clock_def tp_order_defs)
  then have "pending_invocations 0 1 s2 = 2"
    using timer_start_posts [OF _ start2, of 1] v by (simp add: p sample_clock_def tp_order_defs)
  then show ?thesis unfolding s2_def s1_def .
qed

text \<open>C28. A one-shot timer can fire early: started with a positive delay once the time for which it was scheduled before
  has passed, it posts an invocation and does not look for one that is still queued.  The desired time lies the whole
  delay after the reading of the clock, but the first invocation to run, however early and whatever its clock says,
  runs the new task.\<close>

theorem restart_fires_early:
  assumes "t_alive s n" and "lock_runner n s = Some r" and "td_Zero < d"
    and "scheduled_run_time (t_timers s n) < clk (s_clock (t_sys s))"
    and "OneShot_Start clk n (Some t) d s = Inr s1"
  shows "pending_invocations n r s1 = Suc (pending_invocations n r s)
    \<and> desired_run_time (t_timers s1 n) = TimePoint (ticks (clk (s_clock (t_sys s) + 2)) + delta d)
    \<and> (\<exists>s2. t_sys s2 = t_sys s1 \<and>
        (\<forall>clk'. invoke_timer (OneShot_RunUserTask debug exec) clk' n s1 = Task_Run exec t s2))"
  using OneShot_restart [OF assms] by blast

text \<open>A timer started for 50 that is started again for 1000 at 5000, before its first invocation has run.\<close>

definition sample_first :: tsys where
  "sample_first = (case OneShot_Start sample_clock 0 (Some (sample_task 3)) (TimeDelta 50) sample_timers of
     Inr s \<Rightarrow> s | Inl _ \<Rightarrow> sample_timers)"

definition sample_again :: tsys where
  "sample_again = (case OneShot_Start (\<lambda>_. TimePoint 5000) 0 (Some (sample_task 4)) (TimeDelta 1000) sample_first of
     Inr s \<Rightarrow> s | Inl _ \<Rightarrow> sample_first)"

theorem restart_fires_early_witness:
  "pending_invocations 0 1 sample_again = Suc (pending_invocations 0 1 sample_first)
   \<and> desired_run_time (t_timers sample_again 0) = TimePoint 6000
   \<and> (\<exists>s2. invoke_timer (OneShot_RunUserTask True sample_user) (\<lambda>_. TimePoint 5001) 0 sample_again
        = Task_Run sample_user (sample_task 4) s2)"
proof -
  let ?a = "OneShot_Start (\<lambda>_. TimePoint 5000) 0 (Some (sample_task 4)) (TimeDelta 1000) sample_first"
  have "case ?a of Inr _ \<Rightarrow> True | Inl _ \<Rightarrow> False" by code_simp
  then have a: "?a = Inr sample_again" unfolding sample_again_def by (cases ?a) auto
  have "t_alive sample_first 0" "lock_runner 0 sample_first = Some 1" "td_Zero < TimeDelta 1000"
    "scheduled_run_time (t_timers sample_first 0) < TimePoint 5000"
    by code_simp+
  note * = restart_fires_early [OF this a, where debug = True and exec = sample_user]
  then have "desired_run_time (t_timers sample_again 0) = TimePoint 6000" by simp
  with * show ?thesis by blast
qed

text \<open>C29. The task of an idle timer can run twice: a start with a timeout, of a timer whose scheduled time has passed, puts a
  closure for the timer's idle object behind the runner's idle tasks and posts one invocation; when the closure runs,
  it runs the task and leaves the timer running, so that the invocation at the timeout runs the task again before it
  stops the timer, unless the task itself touches the timer.\<close>

theorem idle_timer_runs_twice:
  assumes "lock_runner n s = Some r" and "Idle_Start_timeout debug clk n (Some it) d s = Inr s1"
    and "scheduled_run_time (t_timers s n) < clk (s_clock (t_sys s))"
    and "t_alive s n" and "keeps_timer n (\<lambda>(c, p). exec c p)"
  shows "\<exists>i it' closure. idle_unit closure = Some (TimerIdle i)
    \<and> idle_task_queue (s_runners (t_sys s1) r) = idle_task_queue (s_runners (t_sys s) r) @ [Some closure]
    \<and> pending_invocations n r s1 = Suc (pending_invocations n r s)
    \<and> idle_unit it' = idle_unit it
    \<and> run_timer_idle exec i p s1 = IdleTask_Run exec it' p s1
    \<and> (\<forall>s2. run_timer_idle exec i p s1 = Inr s2 \<longrightarrow>
        invoke_timer (Idle_RunUserTask exec) clk n s2
          = bind_res (IdleTask_Run exec it' timeout_param s2) (\<lambda>s3. Inr (Stop Idle_OnStop n s3)))"
proof -
  obtain i it' closure where st: "ti_idle (t_timers s1 n) = Some i" "t_idle_objs s1 i = Some it'"
    "idle_unit it' = idle_unit it" "is_running (t_timers s1 n)" "t_alive s1 = t_alive s"
    "\<not> scheduled_run_time (t_timers s1 n) < desired_run_time (t_timers s1 n)"
    "idle_unit closure = Some (TimerIdle i)"
    "idle_task_queue (s_runners (t_sys s1) r) = idle_task_queue (s_runners (t_sys s) r) @ [Some closure]"
    "pending_invocations n r s1 = Suc (pending_invocations n r s)"
    using Idle_Start_timeout_state [OF assms(1-3)] by blast
  have r: "run_timer_idle exec i p s1 = IdleTask_Run exec it' p s1"
    using st(2) by (simp add: run_timer_idle_def)
  have "invoke_timer (Idle_RunUserTask exec) clk n s2
      = bind_res (IdleTask_Run exec it' timeout_param s2) (\<lambda>s3. Inr (Stop Idle_OnStop n s3))"
    if "run_timer_idle exec i p s1 = Inr s2" for s2
  proof -
    have "t_timers s2 n = t_timers s1 n \<and> t_alive s2 n = t_alive s1 n"
      using that r assms(5) by (auto simp: IdleTask_Run_def keeps_timer_def split: option.splits)
    then have "invoke_timer (Idle_RunUserTask exec) clk n s2 = Idle_RunUserTask exec n s2"
      using st assms(4) by (simp add: invoke_timer_def OnScheduledTaskInvoked_def Let_def)
    then show ?thesis using idle_closure_then_timeout [OF st(1,2) assms(5) that] by simp
  qed
  then show ?thesis using st(3,7-9) r by blast
qed

definition sample_idle_user :: "idle_code \<Rightarrow> idle_cb_param \<Rightarrow> tsys \<Rightarrow> tsys res" where
  "sample_idle_user c p s = (case c of UserIdle k \<Rightarrow> Inr (s\<lparr>t_sys := notify (200 + k) (t_sys s)\<rparr>) | _ \<Rightarrow> Inr s)"

definition sample_idle_started :: tsys where
  "sample_idle_started =
     (case Idle_Start_timeout True sample_clock 0 (Some \<lparr>idle_id = 1, idle_unit = Some (UserIdle 4)\<rparr>)
        (TimeDelta 50) sample_timers of Inr s \<Rightarrow> s | Inl _ \<Rightarrow> sample_timers)"

theorem idle_timer_runs_twice_witness:
  "\<exists>i s2 s3 closure. idle_task_queue (s_runners (t_sys sample_idle_started) 1) = [Some closure]
    \<and> idle_unit closure = Some (TimerIdle i) \<and> run_timer_idle sample_idle_user i timeout_param sample_idle_started = Inr s2
    \<and> invoke_timer (Idle_RunUserTask sample_idle_user) sample_clock 0 s2 = Inr s3
    \<and> s_notified (t_sys s3) = s_notified (t_sys sample_idle_started) @ [204, 204]"
proof -
  let ?it = "\<lparr>idle_id = 1, idle_unit = Some (UserIdle 4)\<rparr>"
  let ?g = "Idle_Start_timeout True sample_clock 0 (Some ?it) (TimeDelta 50) sample_timers"
  have "case ?g of Inl _ \<Rightarrow> False | Inr _ \<Rightarrow> True" by code_simp
  then have g: "?g = Inr sample_idle_started" unfolding sample_idle_started_def by (cases ?g) auto
  have k: "keeps_timer 0 (\<lambda>(c, p). sample_idle_user c p)"
    by (auto simp: keeps_timer_def sample_idle_user_def split: idle_code.splits)
  have c: "scheduled_run_time (t_timers sample_timers 0) < sample_clock (s_clock (t_sys sample_timers))"
    by (simp add: sample_clock_def tp_order_defs)
  have e: "idle_task_queue (s_runners (t_sys sample_timers) 1) = []"
    by (simp add: sample_timers_def sample_sys_runners)
  obtain i it' closure where i: "idle_unit it' = Some (UserIdle 4)"
    "run_timer_idle sample_idle_user i timeout_param sample_idle_started
      = IdleTask_Run sample_idle_user it' timeout_param sample_idle_started"
    "\<And>s2. run_timer_idle sample_idle_user i timeout_param sample_idle_started = Inr s2 \<Longrightarrow>
      invoke_timer (Idle_RunUserTask sample_idle_user) sample_clock 0 s2
        = bind_res (IdleTask_Run sample_idle_user it' timeout_param s2) (\<lambda>s3. Inr (Stop Idle_OnStop 0 s3))"
    and cl: "idle_unit closure = Some (TimerIdle i)"
    "idle_task_queue (s_runners (t_sys sample_idle_started) 1) = [Some closure]"
    using idle_timer_runs_twice [OF _ g c _ k, of 1 timeout_param] e by auto
  have s: "t_sys (Stop Idle_OnStop 0 s) = t_sys s" for s by (rule idle_timer.stop_cancels(2))
  let ?s2 = "sample_idle_started\<lparr>t_sys := notify 204 (t_sys sample_idle_started)\<rparr>"
  have r: "run_timer_idle sample_idle_user i timeout_param sample_idle_started = Inr ?s2"
    using i(1,2) by (simp add: IdleTask_Run_def sample_idle_user_def)
  have "\<exists>s3. invoke_timer (Idle_RunUserTask sample_idle_user) sample_clock 0 ?s2 = Inr s3
      \<and> s_notified (t_sys s3) = s_notified (t_sys sample_idle_started) @ [204, 204]"
    using i(1) i(3) [OF r] by (simp add: IdleTask_Run_def sample_idle_user_def notify_def s)
  with r cl show ?thesis by blast
qed

end
